(* ===== verification/KV_Prelude.thy ===== *)
theory KV_Prelude
  imports Main "HOL-Library.Word" "HOL-Library.List_Lexorder" "HOL-Library.Sublist"
begin

text \<open>
  Shared vocabulary of the development: byte strings and their bytewise order, the
  big-endian integer framing every codec of the program uses, Go error values with
  \<^verbatim>\<open>%w\<close> wrapping, and the sum-typed results of fallible functions.
  A Go \<^verbatim>\<open>[]byte\<close> and a Go \<^verbatim>\<open>string\<close> are both a list of 8-bit words; a nil slice
  and an empty slice are the same list, which is how the code itself treats them wherever
  it compares or measures them.
\<close>

subsection \<open>Byte strings\<close>

type_synonym byte = "8 word"
type_synonym bytes = "byte list"
type_synonym gostring = bytes

definition str :: "string \<Rightarrow> bytes" where
  "str s = map of_char s"

lemma length_str [simp]: "length (str s) = length s"
  by (simp add: str_def)

lemma str_Nil [simp]: "str [] = []"
  by (simp add: str_def)

lemma str_Cons: "str (c # s) = of_char c # str s"
  by (simp add: str_def)

lemma byte_of_char_inj: "(of_char c :: byte) = of_char d \<longleftrightarrow> c = d"
proof
  assume eq: "(of_char c :: byte) = of_char d"
  have u: "unat (of_char x :: byte) = of_char x" for x
  proof -
    have "(of_char x :: byte) = word_of_nat (of_char x)" by (simp add: of_nat_of_char)
    moreover have "(of_char x :: nat) < 256" by (rule nat_of_char_less_256)
    ultimately show ?thesis by (simp add: unat_of_nat)
  qed
  from eq have "unat (of_char c :: byte) = unat (of_char d :: byte)" by simp
  then show "c = d" by (simp add: u)
qed simp

lemma str_eq_iff [simp]: "str s = str t \<longleftrightarrow> s = t"
  by (induction s arbitrary: t) (case_tac t; auto simp: str_def byte_of_char_inj)+

lemma str_eq_Nil [simp]: "str s = [] \<longleftrightarrow> s = []" "[] = str s \<longleftrightarrow> s = []"
  by (auto simp: str_def)

subsection \<open>Collections of facts\<close>

named_theorems codec_defs \<open>definitions of encoders, decoders and key builders\<close>
named_theorems codec_simps \<open>characteristic equations of encoders, decoders and key builders\<close>
named_theorems store_simps \<open>equations of the store operations on a healthy disk\<close>
named_theorems op_defs \<open>definitions of the state machine's operations\<close>

subsection \<open>Go error values\<close>

text \<open>
  An error is one of the sentinels the code compares against with \<^verbatim>\<open>errors.Is\<close>, a
  failure of the database driver, a fresh \<^verbatim>\<open>fmt.Errorf\<close> value (kept as its format
  string), or a \<^verbatim>\<open>%w\<close> wrapper around a cause.
\<close>

datatype error =
    ErrNotFound
  | ErrDB
  | ErrEOF
  | ErrCompareFailed
  | Errorf string
  | Wrap string error

fun errors_is :: "error \<Rightarrow> error \<Rightarrow> bool" where
  "errors_is (Wrap m e) t = (Wrap m e = t \<or> errors_is e t)"
| "errors_is e t = (e = t)"

type_synonym 'a res = "error + 'a"

definition bind_res :: "'a res \<Rightarrow> ('a \<Rightarrow> 'b res) \<Rightarrow> 'b res" where
  "bind_res r f = (case r of Inl e \<Rightarrow> Inl e | Inr x \<Rightarrow> f x)"

lemma bind_res_simps [simp]:
  "bind_res (Inl e) f = Inl e"
  "bind_res (Inr x) f = f x"
  by (simp_all add: bind_res_def)

lemma bind_res_InrE:
  assumes "bind_res r f = Inr y"
  obtains x where "r = Inr x" "f x = Inr y"
  using assms by (cases r) auto

lemma bind_res_Inr_iff: "bind_res r f = Inr y \<longleftrightarrow> (\<exists>x. r = Inr x \<and> f x = Inr y)"
  by (cases r) auto

text \<open>Prefix the error, the way \<^verbatim>\<open>fmt.Errorf("...: %w", err)\<close> does.\<close>

definition wrap_err :: "string \<Rightarrow> 'a res \<Rightarrow> 'a res" where
  "wrap_err m r = (case r of Inl e \<Rightarrow> Inl (Wrap m e) | Inr x \<Rightarrow> Inr x)"

lemma wrap_err_simps [simp]:
  "wrap_err m (Inl e) = Inl (Wrap m e)"
  "wrap_err m (Inr x) = Inr x"
  by (simp_all add: wrap_err_def)

lemma wrap_err_Inr [simp]: "wrap_err m r = Inr x \<longleftrightarrow> r = Inr x"
  by (cases r) auto

subsection \<open>Big-endian integers\<close>

text \<open>
  \<open>be_enc k n\<close> writes the low \<open>k\<close> bytes of \<open>n\<close>, most significant first; every byte is a
  truncating conversion, as Go's \<^verbatim>\<open>byte(n >> 8)\<close> is. \<open>be_dec\<close> reads such a run back.
\<close>

fun be_enc :: "nat \<Rightarrow> nat \<Rightarrow> bytes" where
  "be_enc 0 n = []"
| "be_enc (Suc k) n = word_of_nat (n div 256 ^ k) # be_enc k n"

fun be_dec :: "bytes \<Rightarrow> nat" where
  "be_dec [] = 0"
| "be_dec (b # bs) = unat b * 256 ^ length bs + be_dec bs"

definition be16 :: "nat \<Rightarrow> bytes" where
  "be16 n = [word_of_nat (n div 256), word_of_nat n]"

definition be32 :: "nat \<Rightarrow> bytes" where
  "be32 n = [word_of_nat (n div 256 ^ 3), word_of_nat (n div 256 ^ 2), word_of_nat (n div 256), word_of_nat n]"

definition be64 :: "nat \<Rightarrow> bytes" where
  "be64 n = [word_of_nat (n div 256 ^ 7), word_of_nat (n div 256 ^ 6), word_of_nat (n div 256 ^ 5),
     word_of_nat (n div 256 ^ 4), word_of_nat (n div 256 ^ 3), word_of_nat (n div 256 ^ 2),
     word_of_nat (n div 256), word_of_nat n]"

lemma be16_enc: "be16 n = be_enc 2 n"
  by (simp add: be16_def numeral_2_eq_2)

lemma be32_enc: "be32 n = be_enc 4 n"
proof -
  have "(4::nat) = Suc (Suc (Suc (Suc 0)))" by simp
  then have "be_enc 4 n = be_enc (Suc (Suc (Suc (Suc 0)))) n" by (rule arg_cong)
  then show ?thesis by (simp add: be32_def)
qed

lemma be64_enc: "be64 n = be_enc 8 n"
proof -
  have "(8::nat) = Suc (Suc (Suc (Suc (Suc (Suc (Suc (Suc 0)))))))" by simp
  then have "be_enc 8 n = be_enc (Suc (Suc (Suc (Suc (Suc (Suc (Suc (Suc 0)))))))) n" by (rule arg_cong)
  then show ?thesis by (simp add: be64_def)
qed

lemma length_be_enc [simp]: "length (be_enc k n) = k"
  by (induction k) simp_all

lemma length_be16 [simp]: "length (be16 n) = 2"
  by (simp add: be16_def)

lemma length_be32 [simp]: "length (be32 n) = 4"
  by (simp add: be32_def)

lemma length_be64 [simp]: "length (be64 n) = 8"
  by (simp add: be64_def)

lemma unat_byte_of_nat: "unat (word_of_nat n :: byte) = n mod 256"
  by (simp add: unat_of_nat)

lemma be_dec_enc: "be_dec (be_enc k n) = n mod 256 ^ k"
proof (induction k)
  case 0
  then show ?case by simp
next
  case (Suc k)
  have "be_dec (be_enc (Suc k) n) = (n div 256 ^ k mod 256) * 256 ^ k + n mod 256 ^ k"
    by (simp add: Suc unat_byte_of_nat)
  also have "\<dots> = n mod 256 ^ Suc k"
    using mod_mult2_eq [of n "256 ^ k" 256] by (simp add: mult.commute)
  finally show ?case .
qed

lemma be_dec_less: "be_dec bs < 256 ^ length bs"
proof (induction bs)
  case Nil
  then show ?case by simp
next
  case (Cons b bs)
  have "unat b \<le> 255" using unsigned_less [of b, where ?'a = nat] by simp
  then have "unat b * 256 ^ length bs \<le> 255 * 256 ^ length bs" by (rule mult_right_mono) simp
  with Cons have "be_dec (b # bs) < 256 ^ length bs + 255 * 256 ^ length bs"
    by (simp only: be_dec.simps)
  then show ?case by (simp only: length_Cons power_Suc)
qed

lemma be_enc_mod: "be_enc k (n mod 256 ^ k) = be_enc k n"
proof -
  have "be_enc j (n mod 256 ^ k) = be_enc j n" if "j \<le> k" for j
    using that
  proof (induction j)
    case 0
    then show ?case by simp
  next
    case (Suc j)
    then obtain d where k: "k = j + Suc d" using less_imp_Suc_add [of j k] by auto
    have "n mod (256 ^ j * (256 * 256 ^ d)) div 256 ^ j mod 256 = n div 256 ^ j mod 256"
      unfolding mod_mult2_eq [of n "256 ^ j"] by (simp add: mod_mod_cancel)
    then have "n mod 256 ^ k div 256 ^ j mod 256 = n div 256 ^ j mod 256"
      by (simp add: k power_add mult.left_commute mult.commute)
    then have "word_of_nat (n mod 256 ^ k div 256 ^ j) = (word_of_nat (n div 256 ^ j) :: byte)"
      by (intro word_unat_eq_iff [THEN iffD2]) (simp add: unat_byte_of_nat)
    with Suc show ?case by simp
  qed
  then show ?thesis by simp
qed

lemma be_enc_dec: "be_enc (length bs) (be_dec bs) = bs"
proof (induction bs)
  case Nil
  then show ?case by simp
next
  case (Cons b bs)
  have lt: "be_dec bs < 256 ^ length bs" by (rule be_dec_less)
  have "be_enc (length bs) (be_dec (b # bs)) = be_enc (length bs) (be_dec (b # bs) mod 256 ^ length bs)"
    by (rule be_enc_mod [symmetric])
  also have "\<dots> = be_enc (length bs) (be_dec bs)" using lt by simp
  finally have tl: "be_enc (length bs) (be_dec (b # bs)) = bs" using Cons by simp
  have "be_dec (b # bs) div 256 ^ length bs = unat b" using lt by simp
  with tl show ?case by simp
qed

lemma be_dec_16 [simp]: "be_dec (be16 n) = n mod 65536"
  by (simp add: be16_enc be_dec_enc)

lemma be_dec_32 [simp]: "be_dec (be32 n) = n mod 4294967296"
  by (simp add: be32_enc be_dec_enc)

lemma be_dec_64 [simp]: "be_dec (be64 n) = n mod 18446744073709551616"
  by (simp add: be64_enc be_dec_enc)

subsection \<open>The bytewise order\<close>

text \<open>
  \<open>HOL-Library.List_Lexorder\<close> orders byte strings lexicographically, a proper prefix before
  its extensions: the order of \<^verbatim>\<open>bytes.Compare\<close> and of SQLite's BLOB comparison.
\<close>

lemma append_less_cancel [simp]: "(p @ a < p @ b) = (a < b)" for p :: bytes
  by (induction p) simp_all

lemma append_le_cancel [simp]: "(p @ a \<le> p @ b) = (a \<le> b)" for p :: bytes
  by (induction p) simp_all

lemma append_less_same_length:
  "length xs = length ys \<Longrightarrow> (xs @ a < ys @ b) = (xs < ys \<or> xs = ys \<and> a < b)" for xs :: bytes
  by (induction xs ys rule: list_induct2) auto

lemma append_le_same_length:
  "length xs = length ys \<Longrightarrow> (xs @ a \<le> ys @ b) = (xs < ys \<or> xs = ys \<and> a \<le> b)" for xs :: bytes
  by (induction xs ys rule: list_induct2) auto

lemma prefix_le: "prefix p k \<Longrightarrow> p \<le> k" for p :: bytes
  by (auto simp: prefix_def append_le_cancel [of p "[]", simplified])

lemma byte_le_FF [simp]: "(b::byte) \<le> 0xFF"
proof -
  have "unat b < 256" using unsigned_less [of b, where ?'a = nat] by simp
  then show ?thesis by (simp add: word_le_nat_alt)
qed

lemma byte_ge_FF [simp]: "(0xFF::byte) \<le> b \<longleftrightarrow> b = 0xFF"
  using byte_le_FF [of b] by (auto intro: antisym)

lemma byte_gt_FF [simp]: "\<not> (0xFF::byte) < b"
  using byte_le_FF [of b] by (simp add: not_less)

text \<open>A run of 0xFF bytes is above every byte string no longer than it.\<close>

lemma le_replicate_FF: "length k \<le> n \<Longrightarrow> k \<le> replicate n (0xFF::byte)"
proof (induction k arbitrary: n)
  case Nil
  then show ?case by simp
next
  case (Cons b k)
  then obtain m where "n = Suc m" by (cases n) auto
  with Cons show ?case by (auto simp: order.strict_iff_order)
qed

text \<open>Whatever lies between two extensions of a byte string extends it too.\<close>

lemma between_prefix: "p @ a \<le> k \<Longrightarrow> k \<le> p @ b \<Longrightarrow> prefix p k" for p :: bytes
proof (induction p arbitrary: k)
  case Nil
  then show ?case by simp
next
  case (Cons c p)
  then obtain d k' where "k = d # k'" by (cases k) auto
  with Cons show ?case by (auto simp: less_le_not_le)
qed

lemma be_enc_less_iff:
  assumes "m < 256 ^ k" "n < 256 ^ k"
  shows "be_enc k m < be_enc k n \<longleftrightarrow> m < n"
  using assms
proof (induction k arbitrary: m n)
  case 0
  then show ?case by simp
next
  case (Suc k)
  let ?M = "256 ^ k :: nat"
  have hd_less: "(word_of_nat (m div ?M) :: byte) < word_of_nat (n div ?M) \<longleftrightarrow> m div ?M < n div ?M"
    and hd_eq: "(word_of_nat (m div ?M) :: byte) = word_of_nat (n div ?M) \<longleftrightarrow> m div ?M = n div ?M"
    using Suc.prems
    by (simp_all add: word_less_nat_alt word_unat_eq_iff unat_byte_of_nat less_mult_imp_div_less)
  have "be_enc k (m mod ?M) < be_enc k (n mod ?M) \<longleftrightarrow> m mod ?M < n mod ?M"
    by (rule Suc.IH) simp_all
  then have tl: "be_enc k m < be_enc k n \<longleftrightarrow> m mod ?M < n mod ?M"
    by (simp add: be_enc_mod)
  have "m div ?M < n div ?M \<or> m div ?M = n div ?M \<and> m mod ?M < n mod ?M \<longleftrightarrow> m < n"
  proof -
    have m: "m = m div ?M * ?M + m mod ?M" and n: "n = n div ?M * ?M + n mod ?M"
      by (simp_all only: div_mult_mod_eq)
    show ?thesis
    proof (cases "m div ?M" "n div ?M" rule: linorder_cases)
      case less
      then show ?thesis by (metis div_le_mono linorder_not_le)
    next
      case equal
      then show ?thesis by (metis m n nat_add_left_cancel_less less_irrefl)
    next
      case greater
      then show ?thesis by (metis div_le_mono less_imp_le_nat linorder_not_le less_asym)
    qed
  qed
  then show ?case by (simp add: hd_less hd_eq tl)
qed

lemma be_enc_le_iff:
  assumes "m < 256 ^ k" "n < 256 ^ k"
  shows "be_enc k m \<le> be_enc k n \<longleftrightarrow> m \<le> n"
  using be_enc_less_iff [OF assms(2,1)] by (simp add: not_less [symmetric])

subsection \<open>Two-byte length prefixes inside a buffer\<close>

text \<open>\<open>u16_at i b\<close> is Go's \<^verbatim>\<open>int(b[i])<<8 | int(b[i+1])\<close>; \<open>slice i j b\<close> is \<^verbatim>\<open>b[i:j]\<close>.\<close>

definition u16_at :: "nat \<Rightarrow> bytes \<Rightarrow> nat" where
  "u16_at i b = be_dec (take 2 (drop i b))"

definition slice :: "nat \<Rightarrow> nat \<Rightarrow> bytes \<Rightarrow> bytes" where
  "slice i j b = take (j - i) (drop i b)"

lemma u16_at_here [simp]: "u16_at 0 (be16 n @ r) = n mod 65536"
  by (simp add: u16_at_def)

lemma u16_at_append: "length p \<le> i \<Longrightarrow> u16_at i (p @ r) = u16_at (i - length p) r"
  by (simp add: u16_at_def)

lemma u16_at_less: "u16_at i b < 65536"
proof -
  have "be_dec (take 2 (drop i b)) < 256 ^ length (take 2 (drop i b))" by (rule be_dec_less)
  also have "\<dots> \<le> 256 ^ 2" by (rule power_increasing) auto
  finally show ?thesis by (simp add: u16_at_def)
qed

lemma slice_here [simp]: "slice 0 (length p) (p @ r) = p"
  by (simp add: slice_def)

lemma slice_append: "length p \<le> i \<Longrightarrow> slice i j (p @ r) = slice (i - length p) (j - length p) r"
  by (simp add: slice_def)

lemma be16_u16_at: "i + 2 \<le> length b \<Longrightarrow> be16 (u16_at i b) = take 2 (drop i b)"
  using be_enc_dec [of "take 2 (drop i b)"] by (simp add: be16_enc u16_at_def)

lemma slice_mid: "i = length p \<Longrightarrow> j = i + length x \<Longrightarrow> slice i j (p @ x @ r) = x"
  by (simp add: slice_def)

lemma u16_at_mid: "i = length p \<Longrightarrow> u16_at i (p @ be16 n @ r) = n mod 65536"
  by (simp add: u16_at_append)

lemma drop_u16: "i + 2 \<le> length b \<Longrightarrow> drop i b = be16 (u16_at i b) @ drop (i + 2) b"
  using append_take_drop_id [of 2 "drop i b"] by (simp add: be16_u16_at add.commute)

lemma drop_slice: "i \<le> j \<Longrightarrow> drop i b = slice i j b @ drop j b"
  using append_take_drop_id [of "j - i" "drop i b"] by (simp add: slice_def)

lemma length_slice: "j \<le> length b \<Longrightarrow> length (slice i j b) = j - i"
  by (simp add: slice_def)

text \<open>Length-prefixed fields are self-delimiting.\<close>

lemma be16_eq_iff: "m < 65536 \<Longrightarrow> n < 65536 \<Longrightarrow> be16 m = be16 n \<longleftrightarrow> m = n"
  by (metis be_dec_16 mod_less)

lemma field16_inject:
  assumes "length x \<le> 0xFFFF" "length y \<le> 0xFFFF"
  shows "be16 (length x) @ x @ r = be16 (length y) @ y @ q \<longleftrightarrow> x = y \<and> r = q"
  using assms by (auto simp: append_eq_append_conv be16_eq_iff)

text \<open>A buffer long enough for its own length prefix splits at it.\<close>

lemma split_u16:
  assumes "i + 2 + u16_at i b \<le> length b"
  shows "b = take i b @ be16 (u16_at i b) @ slice (i + 2) (i + 2 + u16_at i b) b @ drop (i + 2 + u16_at i b) b"
proof -
  have "drop i b = be16 (u16_at i b) @ slice (i + 2) (i + 2 + u16_at i b) b @ drop (i + 2 + u16_at i b) b"
    using drop_u16 [of i b] drop_slice [of "i + 2" "i + 2 + u16_at i b" b] assms by simp
  then show ?thesis by (metis append_take_drop_id)
qed

subsection \<open>Decimal numerals\<close>

text \<open>\<^verbatim>\<open>%d\<close> on a non-negative integer, and \<^verbatim>\<open>strconv.ParseUint(s, 10, bits)\<close>.\<close>

fun fmt_d :: "nat \<Rightarrow> bytes" where
  "fmt_d n = (if n < 10 then [word_of_nat (48 + n)] else fmt_d (n div 10) @ [word_of_nat (48 + n mod 10)])"

declare fmt_d.simps [simp del]

definition digit :: "byte \<Rightarrow> bool" where
  "digit b \<longleftrightarrow> 48 \<le> b \<and> b \<le> 57"

definition digits_val :: "bytes \<Rightarrow> nat" where
  "digits_val s = foldl (\<lambda>a b. a * 10 + (unat b - 48)) 0 s"

definition ParseUint :: "nat \<Rightarrow> bytes \<Rightarrow> nat option" where
  "ParseUint bits s = (if s = [] \<or> \<not> list_all digit s \<or> digits_val s \<ge> 2 ^ bits then None else Some (digits_val s))"

lemma digit_of_nat: "d < 10 \<Longrightarrow> digit (word_of_nat (48 + d)) \<and> unat (word_of_nat (48 + d) :: byte) = 48 + d"
proof -
  assume "d < 10"
  then have "unat (word_of_nat (48 + d) :: byte) = 48 + d" unfolding unat_byte_of_nat by simp
  with \<open>d < 10\<close> show ?thesis by (simp add: digit_def word_le_nat_alt)
qed

lemma fmt_d_digits: "fmt_d n \<noteq> [] \<and> list_all digit (fmt_d n) \<and> digits_val (fmt_d n) = n"
proof (induction n rule: fmt_d.induct)
  case (1 n)
  show ?case
  proof (cases "n < 10")
    case True
    then have f: "fmt_d n = [word_of_nat (48 + n)]" by (subst fmt_d.simps) simp
    show ?thesis unfolding f using digit_of_nat [OF True] by (simp add: digits_val_def del: of_nat_add)
  next
    case False
    then have f: "fmt_d n = fmt_d (n div 10) @ [word_of_nat (48 + n mod 10)]" by (subst fmt_d.simps) simp
    have "n mod 10 < 10" by simp
    from digit_of_nat [OF this] 1 [OF False] show ?thesis
      unfolding f by (simp add: digits_val_def del: of_nat_add)
  qed
qed

lemma ParseUint_fmt_d [simp]: "ParseUint bits (fmt_d n) = (if n < 2 ^ bits then Some n else None)"
  using fmt_d_digits [of n] by (simp add: ParseUint_def)

subsection \<open>The contract of a fallible codec\<close>

text \<open>
  Every record format of the program is an encoder that may refuse its argument and a decoder
  that may refuse its input; \<open>enc_ok\<close> says which values must be accepted.
\<close>

locale codec =
  fixes enc :: "'a \<Rightarrow> bytes res"
    and dec :: "bytes \<Rightarrow> 'a res"
    and enc_ok :: "'a \<Rightarrow> bool"
  assumes enc_total: "enc_ok x \<Longrightarrow> \<exists>b. enc x = Inr b"
    and dec_enc: "enc_ok x \<Longrightarrow> enc x = Inr b \<Longrightarrow> dec b = Inr x"
begin

lemma round_trip: "enc_ok x \<Longrightarrow> bind_res (enc x) dec = Inr x"
  using enc_total [of x] dec_enc [of x] by auto

lemma enc_inj: "enc_ok x \<Longrightarrow> enc_ok y \<Longrightarrow> enc x = enc y \<Longrightarrow> x = y"
  by (metis round_trip sum.inject(2))

end

end
