(* ===== verification/FSM_Encoding.thy ===== *)
theory FSM_Encoding
  imports KV_Prelude
begin

text \<open>
  Raft log entries (src/pkg/kvfsm/fsm_encoding.go): the op bytes and the op/key/value framing.
  The lemmas show that decoding inverts encoding for every key and value below 4 GiB, and
  that the decoder, whose length comparisons are made in 32-bit arithmetic, never reads
  beyond its input.
\<close>

definition OpSet :: byte where [simp]: "OpSet = 1"
definition OpDel :: byte where [simp]: "OpDel = 2"
definition OpConfirm :: byte where [simp]: "OpConfirm = 3"
definition OpCascadeDelete :: byte where [simp]: "OpCascadeDelete = 4"
definition OpConsumeInvite :: byte where [simp]: "OpConsumeInvite = 5"
definition OpConsumeExecInvite :: byte where [simp]: "OpConsumeExecInvite = 6"
definition OpAppendCommandRequest :: byte where [simp]: "OpAppendCommandRequest = 7"
definition OpTxn :: byte where [simp]: "OpTxn = 8"

definition EncodeCommand :: "byte \<Rightarrow> bytes \<Rightarrow> bytes \<Rightarrow> bytes" where
  "EncodeCommand op key value =
     [op] @ be32 (length key) @ key @ be32 (length value) @ value"

text \<open>\<^verbatim>\<open>uint32(len(...))\<close> truncates, hence the explicit remainder.\<close>

definition decodeCommand :: "bytes \<Rightarrow> (byte \<times> bytes \<times> bytes) res" where
  "decodeCommand data =
     (if length data < 5 then Inl (Errorf ''kvfsm: command too short'')
      else let op = data ! 0; klen = be_dec (slice 1 5 data); off = 5 in
        if length (drop off data) mod 2 ^ 32 < klen then Inl (Errorf ''kvfsm: truncated key'')
        else let key = slice off (off + klen) data; off = off + klen in
          if length (drop off data) < 4 then Inl (Errorf ''kvfsm: missing value length'')
          else let vlen = be_dec (slice off (off + 4) data); off = off + 4 in
            if length (drop off data) mod 2 ^ 32 < vlen then Inl (Errorf ''kvfsm: truncated value'')
            else Inr (op, key, slice off (off + vlen) data))"

definition DecodeCommand :: "bytes \<Rightarrow> (byte \<times> bytes \<times> bytes) res" where
  "DecodeCommand data = decodeCommand data"

lemma EncodeCommand_slices:
  fixes op :: byte and key val :: bytes
  defines "d \<equiv> EncodeCommand op key val" and "k \<equiv> length key" and "v \<equiv> length val"
  shows "length d = 9 + k + v" "d ! 0 = op" "slice 1 5 d = be32 k" "slice 5 (5 + k) d = key"
    "slice (5 + k) (5 + k + 4) d = be32 v" "slice (5 + k + 4) (5 + k + 4 + v) d = val"
proof -
  have e: "d = [op] @ be32 k @ key @ be32 v @ val" by (simp add: d_def k_def v_def EncodeCommand_def)
  have d: "d = ([op] @ be32 k) @ key @ be32 v @ val" "d = ([op] @ be32 k @ key) @ be32 v @ val"
    "d = ([op] @ be32 k @ key @ be32 v) @ val @ []" unfolding e by simp_all
  show "length d = 9 + k + v" "d ! 0 = op" by (simp_all add: e k_def v_def)
  show "slice 1 5 d = be32 k" unfolding e by (rule slice_mid) simp_all
  show "slice 5 (5 + k) d = key" unfolding d(1) by (rule slice_mid) (simp_all add: k_def)
  show "slice (5 + k) (5 + k + 4) d = be32 v" unfolding d(2) by (rule slice_mid) (simp_all add: k_def)
  show "slice (5 + k + 4) (5 + k + 4 + v) d = val" unfolding d(3) by (rule slice_mid) (simp_all add: k_def v_def)
qed

lemma decodeCommand_Encode [codec_simps]:
  assumes "length key + length value + 4 < 2 ^ 32"
  shows "decodeCommand (EncodeCommand op key value) = Inr (op, key, value)"
  using assms EncodeCommand_slices [where op = op and key = key and val = "value"] by (simp add: decodeCommand_def Let_def)

lemma decodeCommand_Inr:
  assumes "decodeCommand data = Inr (op, key, value)"
  shows "\<exists>rest. data = EncodeCommand op key value @ rest \<and> length key < 2 ^ 32 \<and> length value < 2 ^ 32"
proof -
  define klen where "klen = be_dec (slice 1 5 data)"
  define vlen where "vlen = be_dec (slice (5 + klen) (5 + klen + 4) data)"
  have k: "klen \<le> (length data - 5) mod 2 ^ 32" and l5: "5 \<le> length data"
    and l4: "4 \<le> length data - (5 + klen)"
    and v: "vlen \<le> (length data - (5 + klen + 4)) mod 2 ^ 32"
    and op: "op = data ! 0" and key: "key = slice 5 (5 + klen) data"
    and val_eq: "value = slice (5 + klen + 4) (5 + klen + 4 + vlen) data"
    using assms by (auto simp: decodeCommand_def Let_def klen_def vlen_def not_less split: if_splits)
  have "klen \<le> length data - 5" using k mod_less_eq_dividend [of "length data - 5" "2 ^ 32"] by linarith
  have "vlen \<le> length data - (5 + klen + 4)"
    using v mod_less_eq_dividend [of "length data - (5 + klen + 4)" "2 ^ 32"] by linarith
  with l4 have total: "5 + klen + 4 + vlen \<le> length data" by linarith
  have lk: "length key = klen" and lv: "length value = vlen"
    using total by (simp_all add: key val_eq length_slice)
  have b32: "be32 (be_dec x) = x" if "length x = 4" for x
    using be_enc_dec [of x] that by (simp add: be32_enc)
  have h1: "be32 klen = slice 1 5 data"
    unfolding klen_def using l5 by (intro b32) (simp add: length_slice)
  have h2: "be32 vlen = slice (5 + klen) (5 + klen + 4) data"
    unfolding vlen_def using total by (intro b32) (simp add: length_slice)
  have "data = op # drop 1 data" using l5 by (cases data) (simp_all add: op)
  also have "drop 1 data = be32 klen @ drop 5 data" unfolding h1 by (rule drop_slice) simp
  also have "drop 5 data = key @ drop (5 + klen) data" unfolding key by (rule drop_slice) simp
  also have "drop (5 + klen) data = be32 vlen @ drop (5 + klen + 4) data" unfolding h2 by (rule drop_slice) simp
  also have "drop (5 + klen + 4) data = value @ drop (5 + klen + 4 + vlen) data"
    unfolding val_eq by (rule drop_slice) simp
  finally have "data = EncodeCommand op key value @ drop (5 + klen + 4 + vlen) data"
    by (simp add: EncodeCommand_def lk lv)
  moreover have "klen < 2 ^ 32" "vlen < 2 ^ 32"
    using k v mod_less_divisor [of "2 ^ 32"] by (meson le_less_trans zero_less_power zero_less_numeral)+
  ultimately show ?thesis using lk lv by blast
qed

interpretation command: codec "\<lambda>(op, key, value). Inr (EncodeCommand op key value)" decodeCommand
  "\<lambda>(op, key, value). length key + length value + 4 < 2 ^ 32"
  by unfold_locales (auto simp: codec_simps)

subsection \<open>Properties\<close>

text \<open>
  Log entries round-trip: an encoded op, key and value decode to themselves while they
  fit 32-bit lengths, and whatever decodes is a prefix-complete encoding of the result, so
  the decoder never invents bytes and never accepts a truncated key or value.
\<close>

theorem command_round_trip:
  "(length key + length value + 4 < 2 ^ 32 \<longrightarrow> DecodeCommand (EncodeCommand op key value) = Inr (op, key, value)) \<and>
   (DecodeCommand data = Inr (op, key, value) \<longrightarrow> prefix (EncodeCommand op key value) data)"
  using decodeCommand_Inr [of data op key "value"]
  by (auto simp: DecodeCommand_def codec_simps prefix_def)

theorem command_round_trip_witness:
  "DecodeCommand (EncodeCommand 1 [5, 6] [7]) = Inr (1, [5, 6], [7])
   \<and> prefix (EncodeCommand 1 [5, 6] [7]) (EncodeCommand 1 [5, 6] [7])"
  using command_round_trip [of "[5, 6]" "[7]" 1 "EncodeCommand 1 [5, 6] [7]"] by simp

end
