(* ===== verification/KV_Store.thy ===== *)
theory KV_Store
  imports KV_Prelude "HOL-Library.Multiset"
begin

text \<open>
  The on-disk key/value table of one replica (src/pkg/store/store.go). The state is the
  \<^verbatim>\<open>kv\<close> table, its rows in primary-key order, and a schedule of the faults the
  database will report: every SQL statement (and every BEGIN and COMMIT) takes the next
  entry, fails with a driver error and no effect when it is \<open>True\<close>, and succeeds
  otherwise; an exhausted schedule is a healthy disk. SQL is modelled as the statements'
  text says: point lookup, upsert, delete, range and prefix selection in key order, counting,
  and transactions that roll back.
  The lemmas show the accessor laws for both \<^verbatim>\<open>Store\<close> and \<^verbatim>\<open>Tx\<close>, that the
  prefix upper bound selects exactly the keys with the prefix, that \<^verbatim>\<open>WithTx\<close> is all or
  nothing under every fault schedule, and that a snapshot dump loads back to the same table.
\<close>

subsection \<open>The table and the SQL statements\<close>

type_synonym row = "bytes \<times> bytes"
type_synonym table = "row list"

record store =
  kv :: table
  faults :: "bool list"

definition tbl_ok :: "table \<Rightarrow> bool" where
  "tbl_ok t \<longleftrightarrow> sorted_wrt (<) (map fst t)"

definition tbl_upsert :: "bytes \<Rightarrow> bytes \<Rightarrow> table \<Rightarrow> table" where
  "tbl_upsert k v t = takeWhile (\<lambda>r. fst r < k) t @ (k, v) # dropWhile (\<lambda>r. fst r \<le> k) t"

definition tbl_delete :: "bytes \<Rightarrow> table \<Rightarrow> table" where
  "tbl_delete k t = filter (\<lambda>r. fst r \<noteq> k) t"

text \<open>What a table holds, as a finite map: the abstract state of the store.\<close>

definition contents :: "store \<Rightarrow> bytes \<rightharpoonup> bytes" where
  "contents s = map_of (kv s)"

definition healthy :: "store \<Rightarrow> bool" where
  "healthy s \<longleftrightarrow> faults s = []"

definition wf_store :: "store \<Rightarrow> bool" where
  "wf_store s \<longleftrightarrow> tbl_ok (kv s)"

definition empty_store :: store where
  "empty_store = \<lparr>kv = [], faults = []\<rparr>"

subsection \<open>Computations against the store\<close>

text \<open>
  A computation threads a state and may fail. The combinators are the same for the store
  alone and for the daemon's node state, so they are polymorphic in the state.
\<close>

type_synonym ('s, 'a) comp = "'s \<Rightarrow> 'a res \<times> 's"
type_synonym 'a sto = "(store, 'a) comp"

definition ret :: "'a \<Rightarrow> ('s, 'a) comp" where
  "ret x s = (Inr x, s)"

definition fail :: "error \<Rightarrow> ('s, 'a) comp" where
  "fail e s = (Inl e, s)"

definition lift_res :: "'a res \<Rightarrow> ('s, 'a) comp" where
  "lift_res r s = (r, s)"

definition bind_sto :: "('s, 'a) comp \<Rightarrow> ('a \<Rightarrow> ('s, 'b) comp) \<Rightarrow> ('s, 'b) comp" where
  "bind_sto m f s = (case m s of (Inl e, s') \<Rightarrow> (Inl e, s') | (Inr x, s') \<Rightarrow> f x s')"

text \<open>Run a computation and hand its result, error or not, to the rest of the code.\<close>

definition try_sto :: "('s, 'a) comp \<Rightarrow> ('s, 'a res) comp" where
  "try_sto m s = (case m s of (r, s') \<Rightarrow> (Inr r, s'))"

definition wrap_sto :: "string \<Rightarrow> ('s, 'a) comp \<Rightarrow> ('s, 'a) comp" where
  "wrap_sto msg m s = (case m s of (r, s') \<Rightarrow> (wrap_err msg r, s'))"

text \<open>One statement's share of the fault schedule.\<close>

definition stmt :: "store \<Rightarrow> bool \<times> store" where
  "stmt s = (case faults s of [] \<Rightarrow> (False, s) | f # fs \<Rightarrow> (f, s\<lparr>faults := fs\<rparr>))"

definition db_query :: "(table \<Rightarrow> 'a) \<Rightarrow> 'a sto" where
  "db_query q s = (case stmt s of (f, s') \<Rightarrow> if f then (Inl ErrDB, s') else (Inr (q (kv s')), s'))"

definition db_exec :: "(table \<Rightarrow> table) \<Rightarrow> unit sto" where
  "db_exec u s = (case stmt s of (f, s') \<Rightarrow>
     if f then (Inl ErrDB, s') else (Inr (), s'\<lparr>kv := u (kv s')\<rparr>))"

subsection \<open>Reads and writes\<close>

definition get :: "bytes \<Rightarrow> bytes sto" where
  "get key = bind_sto (db_query (\<lambda>t. map_of t key))
     (\<lambda>r. case r of None \<Rightarrow> fail ErrNotFound | Some v \<Rightarrow> ret v)"

text \<open>
  The nil-to-empty normalisation of \<^verbatim>\<open>set\<close> is the identity here, since both are the
  empty list; it is what keeps the NOT NULL constraint out of the picture.
\<close>

definition set_kv :: "bytes \<Rightarrow> bytes \<Rightarrow> unit sto" where
  "set_kv key value = db_exec (tbl_upsert key value)"

definition del :: "bytes \<Rightarrow> unit sto" where
  "del key = db_exec (tbl_delete key)"

fun upper_bound_rev :: "bytes \<Rightarrow> bytes option" where
  "upper_bound_rev [] = None"
| "upper_bound_rev (b # bs) = (if b < 0xFF then Some (rev ((b + 1) # bs)) else upper_bound_rev bs)"

text \<open>
  The loop of \<^verbatim>\<open>prefixUpperBound\<close> walks from the last byte down to the first; the model
  recurses on the reversed prefix. \<open>None\<close> is the code's nil: no finite bound.
\<close>

definition prefixUpperBound :: "bytes \<Rightarrow> bytes option" where
  "prefixUpperBound p = upper_bound_rev (rev p)"

definition in_prefix_range :: "bytes \<Rightarrow> bytes \<Rightarrow> bool" where
  "in_prefix_range p k = (case prefixUpperBound p of None \<Rightarrow> p \<le> k | Some u \<Rightarrow> p \<le> k \<and> k < u)"

definition countPrefix :: "bytes \<Rightarrow> nat sto" where
  "countPrefix p = db_query (\<lambda>t. length (filter (\<lambda>r. in_prefix_range p (fst r)) t))"

definition limit_rows :: "int \<Rightarrow> table \<Rightarrow> table" where
  "limit_rows n rows = (if 0 < n then take (nat n) rows else rows)"

definition scanRange :: "bytes \<Rightarrow> bytes \<Rightarrow> int \<Rightarrow> table sto" where
  "scanRange lo hi n = db_query (\<lambda>t. limit_rows n (filter (\<lambda>r. lo \<le> fst r \<and> fst r \<le> hi) t))"

definition scanPrefix :: "bytes \<Rightarrow> int \<Rightarrow> table sto" where
  "scanPrefix p n = db_query (\<lambda>t. limit_rows n (filter (\<lambda>r. in_prefix_range p (fst r)) t))"

subsection \<open>Transactions\<close>

definition WithTx :: "unit sto \<Rightarrow> unit sto" where
  "WithTx fn s = (case stmt s of (f, s1) \<Rightarrow>
     if f then (Inl ErrDB, s1)
     else (case fn s1 of
         (Inl e, s2) \<Rightarrow> (Inl e, s2\<lparr>kv := kv s1\<rparr>)
       | (Inr _, s2) \<Rightarrow> (case stmt s2 of (f', s3) \<Rightarrow>
           if f' then (Inl ErrDB, s3\<lparr>kv := kv s1\<rparr>) else (Inr (), s3))))"

subsection \<open>Snapshot dump and load\<close>

definition putUint32 :: "nat \<Rightarrow> bytes" where
  "putUint32 v = be32 v"

definition getUint32 :: "bytes \<Rightarrow> nat" where
  "getUint32 b = be_dec b"

definition dumpRow :: "row \<Rightarrow> bytes" where
  "dumpRow r = putUint32 (length (fst r)) @ fst r @ putUint32 (length (snd r)) @ snd r"

text \<open>
  \<^verbatim>\<open>SELECT key, value FROM kv\<close> has no ORDER BY, so the order of the rows is the
  engine's: \<open>row_order\<close> is a parameter, about which only that it permutes the rows is used.
\<close>

definition DumpAll :: "(table \<Rightarrow> table) \<Rightarrow> bytes sto" where
  "DumpAll row_order = db_query (\<lambda>t. concat (map dumpRow (row_order t)))"

definition readFull :: "nat \<Rightarrow> bytes \<Rightarrow> (bytes \<times> bytes) res" where
  "readFull n r = (if n \<le> length r then Inr (take n r, drop n r)
     else if r = [] then Inl ErrEOF else Inl (Errorf ''unexpected EOF''))"

text \<open>The prepared \<^verbatim>\<open>INSERT\<close> without ON CONFLICT: a duplicate key is a constraint error.\<close>

definition insertRow :: "bytes \<Rightarrow> bytes \<Rightarrow> unit sto" where
  "insertRow k v s = (case stmt s of (f, s') \<Rightarrow>
     if f \<or> map_of (kv s') k \<noteq> None then (Inl ErrDB, s')
     else (Inr (), s'\<lparr>kv := tbl_upsert k v (kv s')\<rparr>))"

fun readRow :: "bytes \<Rightarrow> (row \<times> bytes) option res" where
  "readRow r = (case readFull 4 r of
      Inl e \<Rightarrow> if e = ErrEOF then Inr None else Inl e
    | Inr (lk, r1) \<Rightarrow> bind_res (readFull (getUint32 lk) r1) (\<lambda>(k, r2).
        bind_res (readFull 4 r2) (\<lambda>(lv, r3).
        bind_res (readFull (getUint32 lv) r3) (\<lambda>(v, r4). Inr (Some ((k, v), r4))))))"

declare readRow.simps [simp del]

function loadLoop :: "bytes \<Rightarrow> unit sto" where
  "loadLoop r = (case readRow r of
      Inl e \<Rightarrow> fail e
    | Inr None \<Rightarrow> ret ()
    | Inr (Some ((k, v), r')) \<Rightarrow> bind_sto (insertRow k v) (\<lambda>_. loadLoop r'))"
  by pat_completeness auto
termination
proof (relation "measure length")
  show "wf (measure length)" by simp
next
  fix r :: bytes and k v r' and o' o'' p and x :: unit
  assume "readRow r = Inr o'" "o' = Some o''" "(p, r') = o''" "(k, v) = p"
  then have "readRow r = Inr (Some ((k, v), r'))" by simp
  then obtain a b where "4 \<le> length r" "r' = drop (a + (8 + b)) r"
    by (auto simp: readRow.simps readFull_def bind_res_def split: sum.splits if_splits)
  then show "(r', r) \<in> measure length" by auto
qed

declare loadLoop.simps [simp del]

definition LoadAll :: "bytes \<Rightarrow> unit sto" where
  "LoadAll r = WithTx (bind_sto (db_exec (\<lambda>_. [])) (\<lambda>_.
     bind_sto (db_query (\<lambda>_. ())) (\<lambda>_. loadLoop r)))"

subsection \<open>Equations of the computations\<close>

lemma bind_sto_simps [simp]:
  "bind_sto (ret x) f = f x"
  "bind_sto (fail e) f = fail e"
  "bind_sto (lift_res (Inr x)) f = f x"
  "bind_sto (lift_res (Inl e)) f = fail e"
  by (auto simp: bind_sto_def ret_def fail_def lift_res_def)

lemma ret_apply [simp]: "ret x s = (Inr x, s)"
  by (simp add: ret_def)

lemma fail_apply [simp]: "fail e s = (Inl e, s)"
  by (simp add: fail_def)

lemma lift_res_apply [simp]: "lift_res r s = (r, s)"
  by (simp add: lift_res_def)

lemma stmt_healthy [simp]: "healthy s \<Longrightarrow> stmt s = (False, s)"
  by (simp add: healthy_def stmt_def)

lemma stmt_kv: "stmt s = (f, s') \<Longrightarrow> kv s' = kv s"
  by (auto simp: stmt_def split: list.splits)

lemma healthy_kv_update [simp]: "healthy (s\<lparr>kv := t\<rparr>) = healthy s"
  by (simp add: healthy_def)

lemma contents_kv_update [simp]: "contents (s\<lparr>kv := t\<rparr>) = map_of t"
  by (simp add: contents_def)

lemma wf_store_kv_update [simp]: "wf_store (s\<lparr>kv := t\<rparr>) = tbl_ok t"
  by (simp add: wf_store_def)

lemma get_healthy [store_simps]:
  "healthy s \<Longrightarrow> get k s = (case contents s k of None \<Rightarrow> Inl ErrNotFound | Some v \<Rightarrow> Inr v, s)"
  by (auto simp: get_def bind_sto_def db_query_def contents_def split: option.splits)

lemma set_kv_healthy [store_simps]:
  "healthy s \<Longrightarrow> set_kv k v s = (Inr (), s\<lparr>kv := tbl_upsert k v (kv s)\<rparr>)"
  by (simp add: set_kv_def db_exec_def)

lemma del_healthy [store_simps]:
  "healthy s \<Longrightarrow> del k s = (Inr (), s\<lparr>kv := tbl_delete k (kv s)\<rparr>)"
  by (simp add: del_def db_exec_def)

lemma countPrefix_healthy [store_simps]:
  "healthy s \<Longrightarrow> countPrefix p s = (Inr (length (filter (\<lambda>r. in_prefix_range p (fst r)) (kv s))), s)"
  by (simp add: countPrefix_def db_query_def)

lemma scanRange_healthy [store_simps]:
  "healthy s \<Longrightarrow> scanRange lo hi n s =
     (Inr (limit_rows n (filter (\<lambda>r. lo \<le> fst r \<and> fst r \<le> hi) (kv s))), s)"
  by (simp add: scanRange_def db_query_def)

lemma scanPrefix_healthy [store_simps]:
  "healthy s \<Longrightarrow> scanPrefix p n s =
     (Inr (limit_rows n (filter (\<lambda>r. in_prefix_range p (fst r)) (kv s))), s)"
  by (simp add: scanPrefix_def db_query_def)

lemma bind_sto_apply_Inr: "m s = (Inr x, s') \<Longrightarrow> bind_sto m f s = f x s'"
  by (simp add: bind_sto_def)

lemma bind_sto_apply_Inl: "m s = (Inl e, s') \<Longrightarrow> bind_sto m f s = (Inl e, s')"
  by (simp add: bind_sto_def)

lemma WithTx_healthy:
  assumes "healthy s"
  shows "WithTx fn s = (case fn s of
      (Inl e, s') \<Rightarrow> (Inl e, s'\<lparr>kv := kv s\<rparr>)
    | (Inr _, s') \<Rightarrow> (case stmt s' of (f, s'') \<Rightarrow>
        if f then (Inl ErrDB, s''\<lparr>kv := kv s\<rparr>) else (Inr (), s'')))"
  using assms by (simp add: WithTx_def)

subsection \<open>The table\<close>

lemma tbl_ok_Nil [simp]: "tbl_ok []"
  by (simp add: tbl_ok_def)

lemma tbl_ok_Cons: "tbl_ok (r # t) \<longleftrightarrow> (\<forall>x \<in> set t. fst r < fst x) \<and> tbl_ok t"
  by (auto simp: tbl_ok_def)

lemma tbl_ok_distinct: "tbl_ok t \<Longrightarrow> distinct (map fst t)"
  by (induction t) (auto simp: tbl_ok_Cons)

lemma tbl_upsert_simps:
  "tbl_upsert k v [] = [(k, v)]"
  "tbl_upsert k v (r # t) =
     (if fst r < k then r # tbl_upsert k v t
      else if fst r = k then (k, v) # dropWhile (\<lambda>x. fst x \<le> k) t else (k, v) # r # t)"
  by (auto simp: tbl_upsert_def)

lemma tbl_ok_dropWhile: "tbl_ok (r # t) \<Longrightarrow> dropWhile (\<lambda>x. fst x \<le> fst r) t = t"
  by (cases t) (auto simp: tbl_ok_Cons not_le)

lemma set_tbl_upsert: "tbl_ok t \<Longrightarrow> set (tbl_upsert k v t) = insert (k, v) {r \<in> set t. fst r \<noteq> k}"
proof (induction t)
  case Nil
  then show ?case by (simp add: tbl_upsert_simps)
next
  case (Cons r t)
  consider "fst r < k" | "fst r = k" | "k < fst r" by (rule linorder_cases)
  then show ?case
  proof cases
    case 2
    with tbl_ok_dropWhile [OF Cons.prems] have "tbl_upsert k v (r # t) = (k, v) # t"
      by (simp add: tbl_upsert_simps)
    with 2 Cons.prems show ?thesis by (auto simp: tbl_ok_Cons)
  next
    case 1
    with Cons show ?thesis by (auto simp: tbl_upsert_simps tbl_ok_Cons)
  next
    case 3
    with Cons.prems have "\<forall>x \<in> set (r # t). fst x \<noteq> k" by (auto simp: tbl_ok_Cons)
    with 3 show ?thesis by (auto simp: tbl_upsert_simps)
  qed
qed

lemma tbl_ok_upsert [simp]: "tbl_ok t \<Longrightarrow> tbl_ok (tbl_upsert k v t)"
proof (induction t)
  case Nil
  then show ?case by (simp add: tbl_upsert_simps tbl_ok_Cons)
next
  case (Cons r t)
  then have t: "tbl_ok t" and r: "\<forall>x \<in> set t. fst r < fst x" by (simp_all add: tbl_ok_Cons)
  consider "fst r < k" | "fst r = k" | "k < fst r" by (rule linorder_cases)
  then show ?case
  proof cases
    case 1
    with r t Cons.IH show ?thesis by (simp add: tbl_upsert_simps tbl_ok_Cons set_tbl_upsert)
  next
    case 2
    with tbl_ok_dropWhile [OF Cons.prems] r t show ?thesis by (simp add: tbl_upsert_simps tbl_ok_Cons)
  next
    case 3
    with r t show ?thesis by (auto simp: tbl_upsert_simps tbl_ok_Cons intro: less_trans)
  qed
qed

lemma tbl_ok_filter [simp]: "tbl_ok t \<Longrightarrow> tbl_ok (filter P t)"
  by (induction t) (auto simp: tbl_ok_Cons)

lemma tbl_ok_delete [simp]: "tbl_ok t \<Longrightarrow> tbl_ok (tbl_delete k t)"
  by (simp add: tbl_delete_def)

lemma map_of_upsert [simp]: "tbl_ok t \<Longrightarrow> map_of (tbl_upsert k v t) = (map_of t)(k \<mapsto> v)"
proof (induction t)
  case Nil
  then show ?case by (simp add: tbl_upsert_simps)
next
  case (Cons r t)
  then have t: "tbl_ok t" by (simp add: tbl_ok_Cons)
  obtain a b where "r = (a, b)" by (cases r)
  with Cons.IH [OF t] tbl_ok_dropWhile [OF Cons.prems] show ?case
    by (auto simp: tbl_upsert_simps fun_eq_iff)
qed

lemma map_of_delete [simp]: "map_of (tbl_delete k t) = (map_of t)(k := None)"
  by (induction t) (auto simp: tbl_delete_def fun_eq_iff)

text \<open>A well-formed table is determined by its contents.\<close>

lemma tbl_ok_eqI:
  assumes "tbl_ok t" "tbl_ok u" "map_of t = map_of u"
  shows "t = u"
proof -
  have "set t = set u"
    using assms by (auto simp: map_of_eq_Some_iff [OF tbl_ok_distinct, symmetric])
  then have "map fst t = map fst u"
    using assms(1,2) by (intro strict_sorted_equal) (simp_all add: tbl_ok_def)
  moreover have rebuild: "map (\<lambda>k. (k, the (map_of t k))) (map fst t) = t" if "tbl_ok t" for t :: table
    unfolding map_map
    by (rule map_idI) (auto simp: tbl_ok_distinct [OF that])
  ultimately show ?thesis
    using rebuild [OF assms(1)] rebuild [OF assms(2)] assms(3) by simp
qed

subsection \<open>Prefix ranges\<close>

lemma byte_less_Suc: "b < (0xFF::byte) \<Longrightarrow> c < b + 1 \<longleftrightarrow> c \<le> b"
proof -
  assume "b < 0xFF"
  then have "unat (b + 1) = unat b + 1"
    by (simp add: word_less_nat_alt unat_word_ariths)
  then show ?thesis by (simp add: word_less_nat_alt word_le_nat_alt less_Suc_eq_le)
qed

lemma one_step_range:
  assumes "b < (0xFF::byte)"
  shows "q @ [b] \<le> k \<and> k < q @ [b + 1] \<longleftrightarrow> prefix (q @ [b]) k"
proof (induction q arbitrary: k)
  case Nil
  show ?case
    by (cases k) (use assms in \<open>auto simp: byte_less_Suc\<close>)
next
  case (Cons c q)
  show ?case
  proof (cases k)
    case (Cons d k')
    with Cons.IH [of k'] show ?thesis by auto
  qed simp
qed

text \<open>
  The range \<^verbatim>\<open>CountPrefix\<close> and \<^verbatim>\<open>ScanPrefix\<close> select is exactly the set of keys
  that start with the prefix, the carry over trailing 0xFF bytes and the unbounded case included.
\<close>

lemma in_prefix_range_iff: "in_prefix_range p k \<longleftrightarrow> prefix p k"
proof (induction p rule: rev_induct)
  case Nil
  show ?case by (simp add: in_prefix_range_def prefixUpperBound_def)
next
  case (snoc b q)
  show ?case
  proof (cases "b < 0xFF")
    case True
    then have "prefixUpperBound (q @ [b]) = Some (q @ [b + 1])"
      by (simp add: prefixUpperBound_def)
    with one_step_range [OF True, of q k] show ?thesis by (simp add: in_prefix_range_def)
  next
    case False
    then have b: "b = 0xFF" by (simp add: not_less)
    have up: "prefixUpperBound (q @ [b]) = prefixUpperBound q"
      by (simp add: prefixUpperBound_def b)
    have "q \<le> q @ [b]" by (rule prefix_le) simp
    then have range: "in_prefix_range (q @ [b]) k \<longleftrightarrow> q @ [b] \<le> k \<and> in_prefix_range q k"
      by (auto simp: in_prefix_range_def up split: option.splits intro: order_trans)
    show ?thesis
    proof (cases "prefix q k")
      case True
      then obtain k' where "k = q @ k'" by (auto simp: prefix_def)
      moreover have "[b] \<le> k' \<longleftrightarrow> prefix [b] k'"
        by (cases k') (auto simp: b)
      ultimately show ?thesis using snoc range True by simp
    next
      case False
      with snoc range show ?thesis by (auto dest: append_prefixD)
    qed
  qed
qed

lemma countPrefix_prefix [store_simps]:
  "healthy s \<Longrightarrow> countPrefix p s = (Inr (length (filter (\<lambda>r. prefix p (fst r)) (kv s))), s)"
  by (simp add: countPrefix_healthy in_prefix_range_iff)

lemma scanPrefix_all [store_simps]:
  "healthy s \<Longrightarrow> scanPrefix p 0 s = (Inr (filter (\<lambda>r. prefix p (fst r)) (kv s)), s)"
  by (simp add: scanPrefix_healthy in_prefix_range_iff limit_rows_def)

lemma scanRange_all [store_simps]:
  "healthy s \<Longrightarrow> scanRange lo hi 0 s = (Inr (filter (\<lambda>r. lo \<le> fst r \<and> fst r \<le> hi) (kv s)), s)"
  by (simp add: scanRange_healthy limit_rows_def)

text \<open>The simplifier reads \<^const>\<open>ret\<close>, \<^const>\<open>fail\<close> and \<^const>\<open>lift_res\<close> as pairing with the state.\<close>

lemma bind_Pair [simp]: "bind_sto (Pair (Inr x)) f = f x" "bind_sto (Pair (Inl e)) f = Pair (Inl e)"
  by (auto simp: bind_sto_def fun_eq_iff)

text \<open>The operations at the head of a longer computation, on a healthy disk.\<close>

definition lookup_res :: "store \<Rightarrow> bytes \<Rightarrow> bytes res" where
  "lookup_res s k = (case contents s k of None \<Rightarrow> Inl ErrNotFound | Some v \<Rightarrow> Inr v)"

lemma lookup_res_simps [simp]:
  "contents s k = None \<Longrightarrow> lookup_res s k = Inl ErrNotFound"
  "contents s k = Some v \<Longrightarrow> lookup_res s k = Inr v"
  by (simp_all add: lookup_res_def)

lemma bind_get [store_simps]:
  "healthy s \<Longrightarrow> bind_sto (get k) f s =
     (case contents s k of None \<Rightarrow> (Inl ErrNotFound, s) | Some v \<Rightarrow> f v s)"
  by (auto simp: bind_sto_def get_healthy split: option.splits)

lemma bind_try_get [store_simps]:
  "healthy s \<Longrightarrow> bind_sto (try_sto (get k)) f s = f (lookup_res s k) s"
  by (simp add: bind_sto_def try_sto_def get_healthy lookup_res_def)

lemma bind_countPrefix [store_simps]:
  "healthy s \<Longrightarrow> bind_sto (countPrefix p) f s = f (length (filter (\<lambda>r. prefix p (fst r)) (kv s))) s"
  by (simp add: bind_sto_def countPrefix_prefix)

lemma bind_scanPrefix [store_simps]:
  "healthy s \<Longrightarrow> bind_sto (scanPrefix p 0) f s = f (filter (\<lambda>r. prefix p (fst r)) (kv s)) s"
  by (simp add: bind_sto_def scanPrefix_all)

lemma bind_scanRange [store_simps]:
  "healthy s \<Longrightarrow> bind_sto (scanRange lo hi 0) f s = f (filter (\<lambda>r. lo \<le> fst r \<and> fst r \<le> hi) (kv s)) s"
  by (simp add: bind_sto_def scanRange_all)

lemma bind_set [store_simps]:
  "healthy s \<Longrightarrow> bind_sto (set_kv k v) f s = f () (s\<lparr>kv := tbl_upsert k v (kv s)\<rparr>)"
  by (simp add: bind_sto_def set_kv_healthy)

lemma bind_del [store_simps]:
  "healthy s \<Longrightarrow> bind_sto (del k) f s = f () (s\<lparr>kv := tbl_delete k (kv s)\<rparr>)"
  by (simp add: bind_sto_def del_healthy)

lemma bind_wrap_get [store_simps]:
  "healthy s \<Longrightarrow> bind_sto (wrap_sto w (get k)) f s =
     (case contents s k of None \<Rightarrow> (Inl (Wrap w ErrNotFound), s) | Some v \<Rightarrow> f v s)"
  by (auto simp: bind_sto_def wrap_sto_def get_healthy split: option.splits)

lemma bind_WithTx_ok:
  assumes "healthy s" "fn s = (Inr (), s')" "healthy s'"
  shows "bind_sto (WithTx fn) f s = f () s'"
  using assms by (simp add: bind_sto_def WithTx_healthy)

lemma bind_WithTx_error:
  assumes "healthy s" "fn s = (Inl e, s')" "healthy s'"
  shows "bind_sto (WithTx fn) f s = (Inl e, s)"
  using assms by (simp add: bind_sto_def WithTx_healthy healthy_def)

text \<open>What a successful step of a computation means, whatever the disk does.\<close>

lemma bind_sto_InrE:
  assumes "bind_sto m f s = (Inr y, s'')"
  obtains x s' where "m s = (Inr x, s')" "f x s' = (Inr y, s'')"
proof -
  obtain r s' where m: "m s = (r, s')" by fastforce
  show thesis
  proof (cases r)
    case (Inl e)
    with assms m show thesis by (simp add: bind_sto_def)
  next
    case (Inr x)
    with assms m show thesis using that by (simp add: bind_sto_def)
  qed
qed

lemma db_query_Inr: "db_query q s = (Inr x, s') \<Longrightarrow> x = q (kv s) \<and> kv s' = kv s"
  by (auto simp: db_query_def stmt_def split: list.splits if_splits)

lemma db_exec_Inr: "db_exec u s = (Inr x, s') \<Longrightarrow> kv s' = u (kv s)"
  by (auto simp: db_exec_def stmt_def split: list.splits if_splits)

lemma get_Inr: "get k s = (Inr v, s') \<Longrightarrow> map_of (kv s) k = Some v \<and> kv s' = kv s"
  by (auto simp: get_def elim!: bind_sto_InrE dest!: db_query_Inr split: option.splits)

lemma wrap_sto_Inr: "wrap_sto w m s = (Inr x, s') \<longleftrightarrow> m s = (Inr x, s')"
  by (auto simp: wrap_sto_def split: prod.splits)

lemma set_kv_Inr: "set_kv k v s = (Inr x, s') \<Longrightarrow> kv s' = tbl_upsert k v (kv s)"
  by (auto simp: set_kv_def dest: db_exec_Inr)

lemma del_Inr: "del k s = (Inr x, s') \<Longrightarrow> kv s' = tbl_delete k (kv s)"
  by (auto simp: del_def dest: db_exec_Inr)

lemma contents_ex: "contents s k \<noteq> None \<longleftrightarrow> (\<exists>r \<in> set (kv s). k = fst r)"
  by (auto simp: contents_def map_of_eq_None_iff image_iff)

lemma bind_assoc: "bind_sto (bind_sto m f) g = bind_sto m (\<lambda>x. bind_sto (f x) g)"
  by (auto simp: bind_sto_def fun_eq_iff split: prod.splits sum.splits)

lemma wrap_sto_apply: "m s = (r, s') \<Longrightarrow> wrap_sto w m s = (wrap_err w r, s')"
  by (simp add: wrap_sto_def)

lemma contents_set [simp]:
  "wf_store s \<Longrightarrow> map_of (tbl_upsert k v (kv s)) = (contents s)(k \<mapsto> v)"
  by (simp add: wf_store_def contents_def)

lemma contents_del [simp]: "map_of (tbl_delete k (kv s)) = (contents s)(k := None)"
  by (simp add: contents_def)

subsection \<open>Read-only, atomic and table-preserving computations\<close>

text \<open>
  Three properties of a computation against the store that hold under every fault schedule
  and compose: it never changes the table (\<open>read_only\<close>); when it fails, the table is what it
  was (\<open>atomic\<close>); it keeps a predicate on tables (\<open>keeps\<close>).
\<close>

definition read_only :: "'a sto \<Rightarrow> bool" where
  "read_only m \<longleftrightarrow> (\<forall>s. kv (snd (m s)) = kv s)"

definition atomic :: "'a sto \<Rightarrow> bool" where
  "atomic m \<longleftrightarrow> (\<forall>s. isl (fst (m s)) \<longrightarrow> kv (snd (m s)) = kv s)"

definition keeps :: "(table \<Rightarrow> bool) \<Rightarrow> 'a sto \<Rightarrow> bool" where
  "keeps P m \<longleftrightarrow> (\<forall>s. P (kv s) \<longrightarrow> P (kv (snd (m s))))"

definition stays_healthy :: "'a sto \<Rightarrow> bool" where
  "stays_healthy m \<longleftrightarrow> (\<forall>s. healthy s \<longrightarrow> healthy (snd (m s)))"

named_theorems sto_rules \<open>rules that derive read_only, atomic, keeps and stays_healthy\<close>

lemma read_only_atomic: "read_only m \<Longrightarrow> atomic m"
  by (simp add: read_only_def atomic_def)

lemma read_only_keeps: "read_only m \<Longrightarrow> keeps P m"
  by (simp add: read_only_def keeps_def)

lemma read_only_basic [sto_rules]:
  "read_only (ret x)" "read_only (fail e)" "read_only (lift_res r)" "read_only (db_query q)"
  by (auto simp: read_only_def db_query_def stmt_def split: list.splits)

lemma read_only_Pair [sto_rules]: "read_only (Pair r)"
  by (simp add: read_only_def)

lemma read_only_bind [sto_rules]:
  assumes "read_only m" "\<And>x. read_only (f x)"
  shows "read_only (bind_sto m f)"
  unfolding read_only_def
proof
  fix s :: store
  show "kv (snd (bind_sto m f s)) = kv s"
    using assms(1) [unfolded read_only_def, rule_format, of s] assms(2)
    by (auto simp: bind_sto_def read_only_def split: prod.splits sum.splits)
qed

lemma snd_try [simp]: "snd (try_sto m s) = snd (m s)" and fst_try [simp]: "fst (try_sto m s) = Inr (fst (m s))"
  by (simp_all add: try_sto_def split: prod.splits)

lemma snd_wrap [simp]: "snd (wrap_sto w m s) = snd (m s)"
  and fst_wrap [simp]: "fst (wrap_sto w m s) = wrap_err w (fst (m s))"
  by (simp_all add: wrap_sto_def split: prod.splits)

lemma isl_wrap_err [simp]: "isl (wrap_err w r) = isl r"
  by (cases r) simp_all

lemma read_only_try [sto_rules]: "read_only m \<Longrightarrow> read_only (try_sto m)"
  by (simp add: read_only_def)

lemma read_only_wrap [sto_rules]: "read_only m \<Longrightarrow> read_only (wrap_sto w m)"
  by (simp add: read_only_def)

lemma read_only_ops [sto_rules]:
  "read_only (get k)" "read_only (countPrefix p)" "read_only (scanRange lo hi n)"
  "read_only (scanPrefix p n)"
  by (auto simp: get_def countPrefix_def scanRange_def scanPrefix_def
      intro!: read_only_basic read_only_bind split: option.splits)

lemma atomic_exec [sto_rules]: "atomic (db_exec u)"
  by (auto simp: atomic_def db_exec_def stmt_def split: list.splits)

lemma atomic_writes [sto_rules]: "atomic (set_kv k v)" "atomic (del k)"
  by (simp_all add: set_kv_def del_def atomic_exec)

lemma atomic_WithTx [sto_rules]: "atomic (WithTx fn)"
  by (auto simp: atomic_def WithTx_def stmt_def split: list.splits prod.splits sum.splits if_splits)

lemma atomic_bind [sto_rules]:
  assumes "read_only m" "\<And>x. atomic (f x)"
  shows "atomic (bind_sto m f)"
  unfolding atomic_def
proof (intro allI impI)
  fix s :: store
  assume "isl (fst (bind_sto m f s))"
  then show "kv (snd (bind_sto m f s)) = kv s"
    using assms(1) [unfolded read_only_def, rule_format, of s] assms(2)
    by (auto simp: bind_sto_def atomic_def split: prod.splits sum.splits)
qed

lemma atomic_wrap [sto_rules]: "atomic m \<Longrightarrow> atomic (wrap_sto w m)"
  by (simp add: atomic_def)

lemma keeps_bind [sto_rules]:
  assumes "keeps P m" "\<And>x. keeps P (f x)"
  shows "keeps P (bind_sto m f)"
  unfolding keeps_def
proof (intro allI impI)
  fix s :: store
  assume P: "P (kv s)"
  obtain r s' where m: "m s = (r, s')" by fastforce
  have "P (kv s')" using assms(1) [unfolded keeps_def, rule_format, OF P] by (simp add: m)
  then have "P (kv (snd (f x s')))" for x using assms(2) by (simp add: keeps_def)
  with \<open>P (kv s')\<close> show "P (kv (snd (bind_sto m f s)))" by (simp add: bind_sto_def m split: sum.split)
qed

lemma keeps_exec: "(\<And>t. P t \<Longrightarrow> P (u t)) \<Longrightarrow> keeps P (db_exec u)"
  by (auto simp: keeps_def db_exec_def stmt_def split: list.splits)

lemma keeps_WithTx [sto_rules]:
  assumes "keeps P fn"
  shows "keeps P (WithTx fn)"
  unfolding keeps_def
proof (intro allI impI)
  fix s :: store
  assume P: "P (kv s)"
  obtain f s1 where 1: "stmt s = (f, s1)" by fastforce
  obtain r s2 where 2: "fn s1 = (r, s2)" by fastforce
  obtain f' s3 where 3: "stmt s2 = (f', s3)" by fastforce
  have "kv s1 = kv s" "kv s3 = kv s2" using stmt_kv [OF 1] stmt_kv [OF 3] by simp_all
  moreover from this P have "P (kv s1)" by simp
  then have "P (kv s2)"
    using assms [unfolded keeps_def, rule_format, of s1] by (simp add: 2)
  ultimately show "P (kv (snd (WithTx fn s)))"
    using P by (simp add: WithTx_def 1 2 3 split: sum.split)
qed

lemma keeps_wrap [sto_rules]: "keeps P m \<Longrightarrow> keeps P (wrap_sto w m)"
  by (simp add: keeps_def)

lemma keeps_ok_writes [sto_rules]:
  "keeps tbl_ok (set_kv k v)" "keeps tbl_ok (del k)"
  by (auto simp: set_kv_def del_def intro!: keeps_exec)

lemma stays_healthy_basic [sto_rules]:
  "stays_healthy (ret x)" "stays_healthy (fail e)" "stays_healthy (lift_res r)"
  "stays_healthy (db_query q)" "stays_healthy (db_exec u)"
  by (auto simp: stays_healthy_def db_query_def db_exec_def)

lemma stays_healthy_ops [sto_rules]:
  "stays_healthy (get k)" "stays_healthy (set_kv k v)" "stays_healthy (del k)"
  "stays_healthy (countPrefix p)" "stays_healthy (scanRange lo hi n)" "stays_healthy (scanPrefix p n)"
  by (auto simp: stays_healthy_def store_simps)

text \<open>Branches.\<close>

lemma read_only_branch:
  "(c \<Longrightarrow> read_only a) \<Longrightarrow> (\<not> c \<Longrightarrow> read_only b) \<Longrightarrow> read_only (if c then a else b)"
  "(\<And>x y. read_only (f x y)) \<Longrightarrow> read_only (case p of (x, y) \<Rightarrow> f x y)"
  "read_only n \<Longrightarrow> (\<And>x. read_only (g x)) \<Longrightarrow> read_only (case o' of None \<Rightarrow> n | Some x \<Rightarrow> g x)"
  "(\<And>x. read_only (h x)) \<Longrightarrow> (\<And>x. read_only (g' x)) \<Longrightarrow> read_only (case r of Inl x \<Rightarrow> h x | Inr x \<Rightarrow> g' x)"
  by (simp_all split: prod.splits option.splits sum.splits)

lemma atomic_branch:
  "(c \<Longrightarrow> atomic a) \<Longrightarrow> (\<not> c \<Longrightarrow> atomic b) \<Longrightarrow> atomic (if c then a else b)"
  "(\<And>x y. atomic (f x y)) \<Longrightarrow> atomic (case p of (x, y) \<Rightarrow> f x y)"
  "atomic n \<Longrightarrow> (\<And>x. atomic (g x)) \<Longrightarrow> atomic (case o' of None \<Rightarrow> n | Some x \<Rightarrow> g x)"
  "(\<And>x. atomic (h x)) \<Longrightarrow> (\<And>x. atomic (g' x)) \<Longrightarrow> atomic (case r of Inl x \<Rightarrow> h x | Inr x \<Rightarrow> g' x)"
  by (simp_all split: prod.splits option.splits sum.splits)

lemma keeps_branch:
  "(c \<Longrightarrow> keeps P a) \<Longrightarrow> (\<not> c \<Longrightarrow> keeps P b) \<Longrightarrow> keeps P (if c then a else b)"
  "(\<And>x y. keeps P (f x y)) \<Longrightarrow> keeps P (case p of (x, y) \<Rightarrow> f x y)"
  "keeps P n \<Longrightarrow> (\<And>x. keeps P (g x)) \<Longrightarrow> keeps P (case o' of None \<Rightarrow> n | Some x \<Rightarrow> g x)"
  "(\<And>x. keeps P (h x)) \<Longrightarrow> (\<And>x. keeps P (g' x)) \<Longrightarrow> keeps P (case r of Inl x \<Rightarrow> h x | Inr x \<Rightarrow> g' x)"
  by (simp_all split: prod.splits option.splits sum.splits)

lemma stays_healthy_branch:
  "(c \<Longrightarrow> stays_healthy a) \<Longrightarrow> (\<not> c \<Longrightarrow> stays_healthy b) \<Longrightarrow> stays_healthy (if c then a else b)"
  "(\<And>x y. stays_healthy (f x y)) \<Longrightarrow> stays_healthy (case p of (x, y) \<Rightarrow> f x y)"
  "stays_healthy n \<Longrightarrow> (\<And>x. stays_healthy (g x)) \<Longrightarrow> stays_healthy (case o' of None \<Rightarrow> n | Some x \<Rightarrow> g x)"
  "(\<And>x. stays_healthy (h x)) \<Longrightarrow> (\<And>x. stays_healthy (g' x)) \<Longrightarrow>
     stays_healthy (case r of Inl x \<Rightarrow> h x | Inr x \<Rightarrow> g' x)"
  by (simp_all split: prod.splits option.splits sum.splits)

lemma atomic_bind_ret:
  assumes "atomic m"
  shows "atomic (bind_sto m (\<lambda>x. ret (g x)))"
  unfolding atomic_def
proof (intro allI impI)
  fix s :: store
  assume i: "isl (fst (bind_sto m (\<lambda>x. ret (g x)) s))"
  obtain r s' where "m s = (r, s')" by fastforce
  with i assms show "kv (snd (bind_sto m (\<lambda>x. ret (g x)) s)) = kv s"
    by (cases r) (auto simp: bind_sto_def atomic_def dest: spec [of _ s])
qed

lemma atomic_leaf: "atomic (ret x)" "atomic (fail e)" "atomic (lift_res r)"
  by (simp_all add: atomic_def)

lemma keeps_leaf: "keeps P (ret x)" "keeps P (fail e)" "keeps P (lift_res r)" "keeps P (db_query q)"
  by (rule read_only_keeps, rule read_only_basic)+

lemma stays_healthy_bind [sto_rules]:
  assumes "stays_healthy m" "\<And>x. stays_healthy (f x)"
  shows "stays_healthy (bind_sto m f)"
  unfolding stays_healthy_def
proof (intro allI impI)
  fix s :: store
  assume h: "healthy s"
  obtain r s' where "m s = (r, s')" by fastforce
  with h assms show "healthy (snd (bind_sto m f s))"
    by (cases r) (auto simp: bind_sto_def stays_healthy_def dest: spec [of _ s])
qed

lemma stays_healthy_try [sto_rules]: "stays_healthy m \<Longrightarrow> stays_healthy (try_sto m)"
  by (simp add: stays_healthy_def)

lemma stays_healthy_wrap [sto_rules]: "stays_healthy m \<Longrightarrow> stays_healthy (wrap_sto w m)"
  by (simp add: stays_healthy_def)

lemma stays_healthy_WithTx [sto_rules]:
  assumes "stays_healthy fn"
  shows "stays_healthy (WithTx fn)"
  unfolding stays_healthy_def
proof (intro allI impI)
  fix s :: store
  assume h: "healthy s"
  obtain r s' where f: "fn s = (r, s')" by fastforce
  with h assms have "healthy s'" by (auto simp: stays_healthy_def dest: spec [of _ s])
  with h f show "healthy (snd (WithTx fn s))" by (cases r) (simp_all add: WithTx_healthy)
qed

lemmas read_only_intros = read_only_branch read_only_bind read_only_try read_only_wrap read_only_basic read_only_ops
lemmas atomic_intros = atomic_branch atomic_bind_ret atomic_bind atomic_wrap atomic_WithTx atomic_writes atomic_leaf
lemmas keeps_intros = keeps_branch keeps_bind keeps_wrap keeps_WithTx keeps_leaf
lemmas healthy_intros = stays_healthy_branch stays_healthy_bind stays_healthy_try stays_healthy_wrap
  stays_healthy_WithTx stays_healthy_basic stays_healthy_ops

subsection \<open>The accessor interface\<close>

text \<open>
  \<^verbatim>\<open>store.Accessor\<close> is what the state machine's helpers are written against; \<^verbatim>\<open>Store\<close>
  and \<^verbatim>\<open>Tx\<close> both satisfy it through the same query functions. The locale states its laws
  on a healthy disk over the abstract contents; what a client may conclude is proved once here.
\<close>

locale accessor =
  fixes acc_get :: "bytes \<Rightarrow> bytes sto"
    and acc_set :: "bytes \<Rightarrow> bytes \<Rightarrow> unit sto"
    and acc_del :: "bytes \<Rightarrow> unit sto"
    and acc_count :: "bytes \<Rightarrow> nat sto"
    and acc_range :: "bytes \<Rightarrow> bytes \<Rightarrow> int \<Rightarrow> table sto"
    and acc_prefix :: "bytes \<Rightarrow> int \<Rightarrow> table sto"
  assumes get_law: "healthy s \<Longrightarrow>
      acc_get k s = (case contents s k of None \<Rightarrow> Inl ErrNotFound | Some v \<Rightarrow> Inr v, s)"
    and set_law: "healthy s \<Longrightarrow> wf_store s \<Longrightarrow> \<exists>s'. acc_set k v s = (Inr (), s') \<and> healthy s' \<and>
      wf_store s' \<and> contents s' = (contents s)(k \<mapsto> v)"
    and del_law: "healthy s \<Longrightarrow> wf_store s \<Longrightarrow> \<exists>s'. acc_del k s = (Inr (), s') \<and> healthy s' \<and>
      wf_store s' \<and> contents s' = (contents s)(k := None)"
    and prefix_law: "healthy s \<Longrightarrow> wf_store s \<Longrightarrow> \<exists>rows. acc_prefix p 0 s = (Inr rows, s) \<and>
      tbl_ok rows \<and> map_of rows = contents s |` {k. prefix p k}"
    and range_law: "healthy s \<Longrightarrow> wf_store s \<Longrightarrow> \<exists>rows. acc_range lo hi 0 s = (Inr rows, s) \<and>
      tbl_ok rows \<and> map_of rows = contents s |` {k. lo \<le> k \<and> k \<le> hi}"
    and count_law: "healthy s \<Longrightarrow> wf_store s \<Longrightarrow>
      acc_count p s = (Inr (card {k \<in> dom (contents s). prefix p k}), s)"
begin

lemma get_set_same:
  assumes "healthy s" "wf_store s"
  shows "fst (acc_get k (snd (acc_set k v s))) = Inr v"
  using set_law [OF assms, of k v] get_law by fastforce

lemma get_set_other:
  assumes "healthy s" "wf_store s" "k' \<noteq> k"
  shows "fst (acc_get k' (snd (acc_set k v s))) = fst (acc_get k' s)"
proof -
  obtain s' where "acc_set k v s = (Inr (), s')" "healthy s'" "contents s' = (contents s)(k \<mapsto> v)"
    using set_law [OF assms(1,2), of k v] by blast
  with assms show ?thesis by (simp add: get_law)
qed

lemma get_del_same:
  assumes "healthy s" "wf_store s"
  shows "fst (acc_get k (snd (acc_del k s))) = Inl ErrNotFound"
  using del_law [OF assms, of k] get_law by fastforce

text \<open>Writing a new key under a prefix grows that prefix's count by one; overwriting does not.\<close>

lemma count_after_set:
  assumes "healthy s" "wf_store s" "prefix p k" "finite (dom (contents s))"
  shows "fst (acc_count p (snd (acc_set k v s))) =
    Inr (card {x \<in> dom (contents s). prefix p x} + (if contents s k = None then 1 else 0))"
proof -
  obtain s' where s': "acc_set k v s = (Inr (), s')" "healthy s'" "wf_store s'"
    "contents s' = (contents s)(k \<mapsto> v)"
    using set_law [OF assms(1,2), of k v] by blast
  let ?old = "{x \<in> dom (contents s). prefix p x}"
  have "{x \<in> dom (contents s'). prefix p x} = insert k ?old"
    using assms(3) by (auto simp: s'(4) split: if_splits)
  moreover have "finite ?old" using assms(4) by simp
  then have "card (insert k ?old) = card ?old + (if contents s k = None then 1 else 0)"
    using assms(3) by (cases "contents s k") (auto simp: card_insert_if)
  ultimately show ?thesis by (simp only: s'(1) snd_conv count_law [OF s'(2,3)] fst_conv)
qed

end

lemma map_of_filter_keys: "distinct (map fst t) \<Longrightarrow> map_of (filter (\<lambda>r. P (fst r)) t) = map_of t |` {k. P k}"
  by (induction t) (auto simp: fun_eq_iff restrict_map_def map_of_eq_None_iff)

lemma card_filter_keys:
  assumes "tbl_ok t"
  shows "length (filter (\<lambda>r. P (fst r)) t) = card {k \<in> dom (map_of t). P k}"
proof -
  have "length (filter (\<lambda>r. P (fst r)) t) = length (map fst (filter (\<lambda>r. P (fst r)) t))" by simp
  also have "\<dots> = card (set (map fst (filter (\<lambda>r. P (fst r)) t)))"
    by (rule distinct_card [symmetric]) (simp add: tbl_ok_distinct assms)
  also have "set (map fst (filter (\<lambda>r. P (fst r)) t)) = {k \<in> dom (map_of t). P k}"
    by (auto simp: dom_map_of_conv_image_fst)
  finally show ?thesis .
qed

lemma finite_dom_contents [simp]: "finite (dom (contents s))"
  by (simp add: contents_def finite_dom_map_of)

interpretation acc: accessor get set_kv del countPrefix scanRange scanPrefix
proof
  fix s :: store and k v
  assume h: "healthy s" and w: "wf_store s"
  show "\<exists>s'. set_kv k v s = (Inr (), s') \<and> healthy s' \<and> wf_store s' \<and> contents s' = (contents s)(k \<mapsto> v)"
    using h w by (simp add: store_simps) (simp add: wf_store_def contents_def)
  show "\<exists>s'. del k s = (Inr (), s') \<and> healthy s' \<and> wf_store s' \<and> contents s' = (contents s)(k := None)"
    using h w by (simp add: store_simps) (simp add: wf_store_def contents_def)
next
  fix s :: store and p lo hi :: bytes
  assume h: "healthy s" and w: "wf_store s"
  then have ok: "tbl_ok (kv s)" by (simp add: wf_store_def)
  show "\<exists>rows. scanPrefix p 0 s = (Inr rows, s) \<and> tbl_ok rows \<and>
      map_of rows = contents s |` {k. prefix p k}"
    using h ok by (simp add: scanPrefix_all contents_def map_of_filter_keys tbl_ok_distinct)
  show "\<exists>rows. scanRange lo hi 0 s = (Inr rows, s) \<and> tbl_ok rows \<and>
      map_of rows = contents s |` {k. lo \<le> k \<and> k \<le> hi}"
    using h ok map_of_filter_keys [OF tbl_ok_distinct [OF ok], of "\<lambda>k. lo \<le> k \<and> k \<le> hi"]
    by (simp add: scanRange_all contents_def)
  show "countPrefix p s = (Inr (card {k \<in> dom (contents s). prefix p k}), s)"
    using h ok by (simp add: countPrefix_prefix contents_def card_filter_keys)
qed (simp add: get_healthy)

subsection \<open>Snapshot round trip\<close>

definition frame_sized :: "row \<Rightarrow> bool" where
  "frame_sized r \<longleftrightarrow> length (fst r) < 2 ^ 32 \<and> length (snd r) < 2 ^ 32"

lemma readRow_Nil [simp]: "readRow [] = Inr None"
  by (simp add: readRow.simps readFull_def)

lemma readFull_append: "length xs = n \<Longrightarrow> readFull n (xs @ ys) = Inr (xs, ys)"
  by (simp add: readFull_def)

lemma readRow_dumpRow:
  assumes "frame_sized r"
  shows "readRow (dumpRow r @ rest) = Inr (Some (r, rest))"
  using assms
  by (simp add: readRow.simps dumpRow_def putUint32_def getUint32_def frame_sized_def readFull_append)

lemma loadLoop_dump:
  assumes "healthy s" "wf_store s" "list_all frame_sized rows" "distinct (map fst rows)"
    "\<forall>r \<in> set rows. contents s (fst r) = None"
  shows "\<exists>s'. loadLoop (concat (map dumpRow rows)) s = (Inr (), s') \<and> healthy s' \<and> wf_store s' \<and>
    contents s' = contents s ++ map_of rows"
  using assms
proof (induction rows arbitrary: s)
  case Nil
  then show ?case by (simp add: loadLoop.simps)
next
  case (Cons r rows)
  obtain k v where r: "r = (k, v)" by (cases r)
  let ?s = "s\<lparr>kv := tbl_upsert k v (kv s)\<rparr>"
  have "tbl_ok (kv s)" using Cons.prems by (simp add: wf_store_def)
  then have c: "contents ?s = (contents s)(k \<mapsto> v)" and w: "wf_store ?s" by (simp_all add: contents_def)
  have ins: "insertRow k v s = (Inr (), ?s)"
    using Cons.prems by (simp add: insertRow_def r contents_def)
  have "\<forall>x \<in> set rows. contents ?s (fst x) = None"
    unfolding c using Cons.prems by (auto simp: r image_iff)
  moreover have "healthy ?s" "list_all frame_sized rows" "distinct (map fst rows)"
    using Cons.prems by simp_all
  ultimately obtain s' where s': "loadLoop (concat (map dumpRow rows)) ?s = (Inr (), s')"
    "healthy s'" "wf_store s'" "contents s' = contents ?s ++ map_of rows"
    using Cons.IH [of ?s] w by blast
  have "k \<notin> dom (map_of rows)" using Cons.prems by (simp add: r dom_map_of_conv_image_fst)
  then have "contents ?s ++ map_of rows = contents s ++ map_of (r # rows)"
    unfolding c by (simp add: r map_add_upd_left)
  moreover have "loadLoop (concat (map dumpRow (r # rows))) s = (Inr (), s')"
    using Cons.prems s'(1)
    by (subst loadLoop.simps) (simp add: readRow_dumpRow r bind_sto_def ins)
  ultimately show ?case using s'(2-4) by (intro exI [of _ s']) (simp only: simp_thms)
qed

lemma LoadAll_dump:
  assumes "healthy s" "tbl_ok t" "list_all frame_sized t" "mset rows = mset t"
  shows "LoadAll (concat (map dumpRow rows)) s = (Inr (), s\<lparr>kv := t\<rparr>)"
proof -
  let ?e = "s\<lparr>kv := []\<rparr>"
  have "mset (map fst rows) = mset (map fst t)" by (simp add: assms(4))
  from mset_eq_imp_distinct_iff [OF this] have d: "distinct (map fst rows)"
    using tbl_ok_distinct [OF assms(2)] by (rule iffD2)
  have same: "set rows = set t" using assms(4) by (rule mset_eq_setD)
  then have "list_all frame_sized rows"
    using assms(3) by (simp add: list_all_iff)
  with loadLoop_dump [of ?e rows] d assms(1) obtain s' where
    s': "loadLoop (concat (map dumpRow rows)) ?e = (Inr (), s')" "healthy s'" "wf_store s'"
      "contents s' = contents ?e ++ map_of rows"
    by (auto simp: wf_store_def)
  have "map_of rows = map_of t"
    using map_of_inject_set [OF d tbl_ok_distinct [OF assms(2)]] same by simp
  then have "kv s' = t"
    using s'(3,4) assms(2) by (intro tbl_ok_eqI) (simp_all add: wf_store_def contents_def)
  then have "s' = s\<lparr>kv := t\<rparr>"
    using s'(2) assms(1) by (simp add: healthy_def)
  then show ?thesis
    using assms(1) s'(1,2)
    by (simp add: LoadAll_def WithTx_healthy bind_sto_def db_exec_def db_query_def)
qed

text \<open>A dump cut off inside a row is refused, whatever the disk does.\<close>

lemma readFull_short: "length r < n \<Longrightarrow> isl (readFull n r)"
  by (simp add: readFull_def)

lemma readFull_Inr: "readFull n r = Inr (a, b) \<longleftrightarrow> n \<le> length r \<and> a = take n r \<and> b = drop n r"
  by (auto simp: readFull_def)

lemma readRow_truncated:
  assumes "frame_sized r" "0 < n" "n < length (dumpRow r)"
  shows "isl (readRow (take n (dumpRow r)))"
proof (rule ccontr)
  obtain k v where r: "r = (k, v)" by fastforce
  have lk: "length k < 2 ^ 32" and lv: "length v < 2 ^ 32" using assms(1) by (simp_all add: r frame_sized_def)
  have d: "dumpRow r = be32 (length k) @ k @ be32 (length v) @ v"
    by (simp add: r dumpRow_def putUint32_def)
  let ?t = "take n (dumpRow r)"
  have ne: "?t \<noteq> []" using assms by (cases n) (auto simp: d be32_def)
  assume "\<not> isl (readRow ?t)"
  then obtain row where row: "readRow ?t = Inr row" by (cases "readRow ?t") auto
  show False
  proof (cases "4 \<le> n")
    case False
    then have "readFull 4 ?t = Inl (Errorf ''unexpected EOF'')" using ne by (simp add: readFull_def)
    with row show False by (simp add: readRow.simps)
  next
    case True
    define m where "m = n - 4"
    have t: "?t = be32 (length k) @ take m (k @ be32 (length v) @ v)"
      using True by (simp add: d m_def)
    have lm: "m < length k + (4 + length v)" using assms(3) True by (simp add: d m_def)
    have step: "readRow ?t = bind_res (readFull (length k) (take m (k @ be32 (length v) @ v))) (\<lambda>(k, r2).
        bind_res (readFull 4 r2) (\<lambda>(lv, r3).
        bind_res (readFull (getUint32 lv) r3) (\<lambda>(v, r4). Inr (Some ((k, v), r4)))))"
      unfolding t by (subst readRow.simps) (use lk in \<open>simp add: readFull_append getUint32_def\<close>)
    from row [unfolded step] obtain a b where ab: "readFull (length k) (take m (k @ be32 (length v) @ v)) = Inr (a, b)"
      and rest: "bind_res (readFull 4 b) (\<lambda>(lv, r3).
        bind_res (readFull (getUint32 lv) r3) (\<lambda>(v, r4). Inr (Some ((a, v), r4)))) = Inr row"
      by (auto elim!: bind_res_InrE)
    have "length k \<le> length (take m (k @ be32 (length v) @ v))" using ab by (simp only: readFull_Inr)
    also have "\<dots> \<le> m" by simp
    finally have km: "length k \<le> m" .
    then have b: "b = take (m - length k) (be32 (length v) @ v)" using ab by (simp add: readFull_Inr)
    from rest obtain c e where ce: "readFull 4 b = Inr (c, e)" and
      rest': "bind_res (readFull (getUint32 c) e) (\<lambda>(v, r4). Inr (Some ((a, v), r4))) = Inr row"
      by (auto elim!: bind_res_InrE)
    have "4 \<le> length b" using ce by (simp only: readFull_Inr)
    also have "\<dots> \<le> m - length k" unfolding b by (simp del: take_append)
    finally have 4: "4 \<le> m - length k" .
    then have c: "c = be32 (length v)" and e: "e = take (m - length k - 4) v"
      using ce b by (simp_all add: readFull_Inr)
    have "getUint32 c = length v" using lv by (simp add: c getUint32_def)
    with rest' e have "length v \<le> m - length k - 4" by (auto elim!: bind_res_InrE simp: readFull_Inr)
    with lm km 4 show False by simp
  qed
qed

lemma loadLoop_truncated:
  assumes "list_all frame_sized rows" "isl (readRow tail)"
  shows "isl (fst (loadLoop (concat (map dumpRow rows) @ tail) s))"
  using assms(1)
proof (induction rows arbitrary: s)
  case Nil
  from assms(2) obtain e where "readRow tail = Inl e" by (cases "readRow tail") auto
  then show ?case by (simp add: loadLoop.simps)
next
  case (Cons r rows)
  obtain k v where r: "r = (k, v)" by fastforce
  have "readRow (dumpRow (k, v) @ concat (map dumpRow rows) @ tail) = Inr (Some ((k, v), concat (map dumpRow rows) @ tail))"
    using Cons.prems by (simp add: readRow_dumpRow r)
  then have *: "loadLoop (concat (map dumpRow (r # rows)) @ tail) =
      bind_sto (insertRow k v) (\<lambda>_. loadLoop (concat (map dumpRow rows) @ tail))"
    by (subst loadLoop.simps) (simp add: r)
  obtain res s' where "insertRow k v s = (res, s')" by fastforce
  with Cons * show ?case by (cases res) (simp_all add: bind_sto_def)
qed

lemma WithTx_all_or_nothing_cases:
  assumes "\<not> isl (fst (WithTx fn s))"
  obtains s1 s2 where "fn s1 = (Inr (), s2)" "kv s1 = kv s" "kv (snd (WithTx fn s)) = kv s2"
proof -
  obtain r s' where w: "WithTx fn s = (r, s')" by fastforce
  with assms obtain s1 s2 where *: "stmt s = (False, s1)" "fn s1 = (Inr (), s2)" "stmt s2 = (False, s')"
    by (auto simp: WithTx_def split: prod.splits sum.splits if_splits)
  then show thesis using that w stmt_kv [OF *(1)] stmt_kv [OF *(3)] by auto
qed

subsection \<open>Properties\<close>



text \<open>
  ScanPrefix with no limit returns exactly the rows whose key starts with the prefix
  (an all-0xFF prefix included, where no finite upper bound exists), in strictly ascending key
  order, and CountPrefix is their number.
\<close>

theorem scanPrefix_exact:
  assumes "healthy s" "wf_store s"
  shows "\<exists>rows. scanPrefix p 0 s = (Inr rows, s) \<and> countPrefix p s = (Inr (length rows), s)
    \<and> sorted_wrt (<) (map fst rows)
    \<and> (\<forall>k v. (k, v) \<in> set rows \<longleftrightarrow> contents s k = Some v \<and> prefix p k)"
proof -
  have t: "tbl_ok (kv s)" using assms(2) by (simp add: wf_store_def)
  have "tbl_ok (filter (\<lambda>r. prefix p (fst r)) (kv s))" using t by simp
  then have "sorted_wrt (<) (map fst (filter (\<lambda>r. prefix p (fst r)) (kv s)))" by (simp only: tbl_ok_def)
  moreover have "(k, v) \<in> set (kv s) \<longleftrightarrow> contents s k = Some v" for k v
    using map_of_eq_Some_iff [OF tbl_ok_distinct [OF t], of k v] by (simp add: contents_def)
  ultimately show ?thesis using assms(1) by (auto simp: scanPrefix_all countPrefix_prefix)
qed

theorem scanPrefix_exact_witness:
  "\<exists>rows. scanPrefix [0xFF] 0 \<lparr>kv = [([1], []), ([0xFF, 2], [7])], faults = []\<rparr>
     = (Inr rows, \<lparr>kv = [([1], []), ([0xFF, 2], [7])], faults = []\<rparr>)"
  using scanPrefix_exact [of "\<lparr>kv = [([1], []), ([0xFF, 2], [7])], faults = []\<rparr>" "[0xFF]"]
  by (auto simp: healthy_def wf_store_def tbl_ok_def)

text \<open>
  WithTx is all or nothing under every schedule of database faults: when it reports an
  error (from BEGIN, from the callback, or from COMMIT) the table is what it was, and when it
  reports success the callback succeeded and all its writes are in place.
\<close>

theorem WithTx_all_or_nothing:
  "case WithTx fn s of
     (Inl e, s') \<Rightarrow> kv s' = kv s
   | (Inr _, s') \<Rightarrow> (\<exists>s2. fn (snd (stmt s)) = (Inr (), s2) \<and> kv s' = kv s2)"
proof (cases "WithTx fn s")
  case (Pair r s')
  show ?thesis
  proof (cases r)
    case (Inl e)
    then show ?thesis using atomic_WithTx [of fn, unfolded atomic_def, THEN spec, of s] Pair by simp
  next
    case (Inr u)
    with Pair obtain s1 s2 where "stmt s = (False, s1)" "fn s1 = (Inr (), s2)" "stmt s2 = (False, s')"
      by (auto simp: WithTx_def split: prod.splits sum.splits if_splits)
    then show ?thesis using Pair Inr stmt_kv by auto
  qed
qed

text \<open>
  Snapshot round trip: the bytes DumpAll writes, in whatever order the engine returns
  the rows, load into any other replica's store as exactly the dumped table, replacing what
  was there. Keys and values must fit the 32-bit length prefixes.
\<close>

theorem snapshot_round_trip:
  assumes "healthy s" "healthy s'" "wf_store s" "list_all frame_sized (kv s)"
    and engine_permutes: "\<And>t. mset (row_order t) = mset t"
  shows "\<exists>b. DumpAll row_order s = (Inr b, s) \<and> LoadAll b s' = (Inr (), s'\<lparr>kv := kv s\<rparr>)"
  using assms LoadAll_dump [OF assms(2) _ assms(4), of "row_order (kv s)"]
  by (simp add: DumpAll_def db_query_def wf_store_def)

theorem snapshot_round_trip_witness:
  "\<exists>b. DumpAll rev \<lparr>kv = [([1], [5]), ([2], [])], faults = []\<rparr>
      = (Inr b, \<lparr>kv = [([1], [5]), ([2], [])], faults = []\<rparr>)
    \<and> LoadAll b empty_store = (Inr (), empty_store\<lparr>kv := [([1], [5]), ([2], [])]\<rparr>)"
  using snapshot_round_trip [of "\<lparr>kv = [([1], [5]), ([2], [])], faults = []\<rparr>" empty_store rev]
  by (simp add: healthy_def wf_store_def tbl_ok_def empty_store_def frame_sized_def)

text \<open>
  A snapshot stream that ends inside a row is refused and the replica keeps the table it
  had, under every schedule of database faults.
\<close>

theorem LoadAll_truncated_refused:
  assumes "list_all frame_sized (r # rows)" "0 < n" "n < length (dumpRow r)"
  shows "isl (fst (LoadAll (concat (map dumpRow rows) @ take n (dumpRow r)) s))
    \<and> kv (snd (LoadAll (concat (map dumpRow rows) @ take n (dumpRow r)) s)) = kv s"
proof -
  let ?b = "concat (map dumpRow rows) @ take n (dumpRow r)"
  have loop: "isl (fst (loadLoop ?b s))" for s
    using assms by (intro loadLoop_truncated readRow_truncated) simp_all
  have "isl (fst (LoadAll ?b s))"
  proof (rule ccontr)
    assume "\<not> isl (fst (LoadAll ?b s))"
    with WithTx_all_or_nothing_cases obtain s1 s2 where
      "bind_sto (db_exec (\<lambda>_. [])) (\<lambda>_. bind_sto (db_query (\<lambda>_. ())) (\<lambda>_. loadLoop ?b)) s1 = (Inr (), s2)"
      unfolding LoadAll_def by blast
    with loop show False
      by (auto simp: bind_sto_def split: prod.splits sum.splits) (metis fst_conv sum.disc(2))
  qed
  moreover have "atomic (LoadAll ?b)" by (simp add: LoadAll_def atomic_WithTx)
  ultimately show ?thesis by (simp add: atomic_def)
qed

theorem LoadAll_truncated_refused_witness:
  "isl (fst (LoadAll (take 5 (dumpRow ([1], [2]))) \<lparr>kv = [([7], [7])], faults = [False, True]\<rparr>))"
  using LoadAll_truncated_refused [of "([1], [2])" "[]" 5 "\<lparr>kv = [([7], [7])], faults = [False, True]\<rparr>"]
  by (simp add: frame_sized_def dumpRow_def putUint32_def)

end
