(* ===== verification/Shm_Catalog.thy ===== *)
theory Shm_Catalog
  imports Shm_System
begin

text \<open>
  The access-control catalog (src/pkg/shmevent/catalog.go): keys and payloads of groups,
  commands and stations, the two relation keys (group-command, peer-group) with their parsers,
  and the reserved group ids. The lemmas show that both relation keys satisfy one contract
  (\<open>relation_key\<close>: parse inverts build, builds are injective, a first-field prefix selects
  exactly that field's relations), that the two command payload versions round-trip and never
  overlap, and that an explicitly cleared spec differs from an absent one.
\<close>

subsection \<open>Keys\<close>

definition catalogStatusPlaceholder :: byte where [simp]: "catalogStatusPlaceholder = 0x00"

definition GroupKey :: "bytes \<Rightarrow> bytes" where
  "GroupKey gid = SystemKey KindGroup catalogStatusPlaceholder gid"

definition CommandKey :: "bytes \<Rightarrow> bytes" where
  "CommandKey cid = SystemKey KindCommand catalogStatusPlaceholder cid"

definition keyListBounds :: "byte \<Rightarrow> bytes \<times> bytes" where
  "keyListBounds kind = (let p = SystemKey kind catalogStatusPlaceholder [] in (p, pad_hi p))"

definition GroupKeyBounds :: "bytes \<times> bytes" where
  "GroupKeyBounds = keyListBounds KindGroup"

definition CommandKeyBounds :: "bytes \<times> bytes" where
  "CommandKeyBounds = keyListBounds KindCommand"

definition StationKey :: "bytes \<Rightarrow> bytes" where
  "StationKey peerID = SystemKey KindStation catalogStatusPlaceholder peerID"

definition StationKeyBounds :: "bytes \<times> bytes" where
  "StationKeyBounds = keyListBounds KindStation"

definition EncodeStationPayload :: "gostring \<Rightarrow> bytes \<Rightarrow> bytes res" where
  "EncodeStationPayload name attrs =
     (if 0xFFFF < length name then Inl (Errorf ''shmevent: station name too long: %d bytes'')
      else Inr (be16 (length name) @ name @ attrs))"

definition DecodeStationPayload :: "bytes \<Rightarrow> (gostring \<times> bytes) res" where
  "DecodeStationPayload payload =
     (if length payload < 2 then Inl (Errorf ''shmevent: station payload too short: %d bytes'')
      else let nameLen = u16_at 0 payload in
        if 2 + nameLen > length payload
        then Inl (Errorf ''shmevent: station name length %d exceeds payload size %d'')
        else Inr (slice 2 (2 + nameLen) payload, drop (2 + nameLen) payload))"

definition GroupCommandKey :: "bytes \<Rightarrow> bytes \<Rightarrow> bytes res" where
  "GroupCommandKey commandID groupID =
     (if 0xFFFF < length commandID then Inl (Errorf ''shmevent: group-command commandID too long: %d bytes'')
      else Inr ([SystemKeyPrefix, KindGroupCommand, catalogStatusPlaceholder] @
                be16 (length commandID) @ commandID @ groupID))"

definition GroupCommandBounds :: "bytes \<Rightarrow> (bytes \<times> bytes) res" where
  "GroupCommandBounds commandID = bind_res (GroupCommandKey commandID []) (\<lambda>p. Inr (p, pad_hi p))"

definition PeerGroupKey :: "bytes \<Rightarrow> bytes \<Rightarrow> bytes res" where
  "PeerGroupKey peerID groupID =
     (if 0xFFFF < length peerID then Inl (Errorf ''shmevent: peer-group peerID too long: %d bytes'')
      else Inr ([SystemKeyPrefix, KindPeerGroup, catalogStatusPlaceholder] @
                be16 (length peerID) @ peerID @ groupID))"

definition PeerGroupBounds :: "bytes \<Rightarrow> (bytes \<times> bytes) res" where
  "PeerGroupBounds peerID = bind_res (PeerGroupKey peerID []) (\<lambda>p. Inr (p, pad_hi p))"

definition ParseGroupCommandKey :: "bytes \<Rightarrow> (bytes \<times> bytes) res" where
  "ParseGroupCommandKey key =
     (if length key < 5 \<or> key ! 0 \<noteq> SystemKeyPrefix \<or> key ! 1 \<noteq> KindGroupCommand
      then Inl (Errorf ''shmevent: key is not a KindGroupCommand key'')
      else let cmdLen = u16_at 3 key in
        if 5 + cmdLen > length key then Inl (Errorf ''shmevent: group-command key truncated in commandID'')
        else Inr (slice 5 (5 + cmdLen) key, drop (5 + cmdLen) key))"

definition ParsePeerGroupKey :: "bytes \<Rightarrow> (bytes \<times> bytes) res" where
  "ParsePeerGroupKey key =
     (if length key < 5 \<or> key ! 0 \<noteq> SystemKeyPrefix \<or> key ! 1 \<noteq> KindPeerGroup
      then Inl (Errorf ''shmevent: key is not a KindPeerGroup key'')
      else let idLen = u16_at 3 key in
        if 5 + idLen > length key then Inl (Errorf ''shmevent: peer-group key truncated in peerID'')
        else Inr (slice 5 (5 + idLen) key, drop (5 + idLen) key))"

definition AllGroupCommandsPrefix :: bytes where
  "AllGroupCommandsPrefix = SystemKey KindGroupCommand catalogStatusPlaceholder []"

definition AllPeerGroupsPrefix :: bytes where
  "AllPeerGroupsPrefix = SystemKey KindPeerGroup catalogStatusPlaceholder []"

subsection \<open>Group and command payloads\<close>

definition groupPrivateByte :: byte where [simp]: "groupPrivateByte = 0x00"
definition groupPublicByte :: byte where [simp]: "groupPublicByte = 0x01"

definition EncodeGroupPayload :: "gostring \<Rightarrow> bool \<Rightarrow> bytes" where
  "EncodeGroupPayload name public = (if public then groupPublicByte else groupPrivateByte) # name"

definition DecodeGroupPayload :: "bytes \<Rightarrow> (gostring \<times> bool) res" where
  "DecodeGroupPayload payload =
     (if length payload < 1 then Inl (Errorf ''shmevent: group payload must be at least 1 byte, got %d'')
      else Inr (drop 1 payload, payload ! 0 = groupPublicByte))"

definition commandPayloadV2Sentinel :: nat where [simp]: "commandPayloadV2Sentinel = 0xFFFF"

definition checkCommandNameLen :: "gostring \<Rightarrow> unit res" where
  "checkCommandNameLen name =
     (if length name \<ge> commandPayloadV2Sentinel
      then Inl (Errorf ''shmevent: command name too long: %d bytes (max %d)'') else Inr ())"

definition EncodeCommandPayload :: "gostring \<Rightarrow> bytes \<Rightarrow> bytes res" where
  "EncodeCommandPayload name peerID = bind_res (checkCommandNameLen name)
     (\<lambda>_. Inr (be16 (length name) @ name @ peerID))"

definition EncodeCommandPayloadWithSpec :: "gostring \<Rightarrow> bytes \<Rightarrow> bytes \<Rightarrow> bytes res" where
  "EncodeCommandPayloadWithSpec name peerID spec =
     (if length spec = 0 then EncodeCommandPayload name peerID
      else bind_res (checkCommandNameLen name) (\<lambda>_.
        if 0xFFFF < length peerID then Inl (Errorf ''shmevent: command peer id too long: %d bytes'')
        else Inr ([0xFF, 0xFF] @ be16 (length name) @ name @ be16 (length peerID) @ peerID @ spec)))"

definition DecodeCommandPayloadFull :: "bytes \<Rightarrow> (gostring \<times> bytes \<times> bytes) res" where
  "DecodeCommandPayloadFull payload =
     (if length payload < 2 then Inl (Errorf ''shmevent: command payload too short: %d bytes'')
      else if u16_at 0 payload \<noteq> commandPayloadV2Sentinel then
        (let nameLen = u16_at 0 payload; off = 2 in
         if off + nameLen > length payload
         then Inl (Errorf ''shmevent: command name length %d exceeds payload size %d'')
         else Inr (slice off (off + nameLen) payload, drop (off + nameLen) payload, []))
      else if 2 + 2 > length payload
      then Inl (Errorf ''shmevent: command payload truncated reading name length'')
      else
        (let nameLen = u16_at 2 payload; off = 4 in
         if off + nameLen + 2 > length payload
         then Inl (Errorf ''shmevent: command name length %d exceeds payload size %d'')
         else let name = slice off (off + nameLen) payload; off = off + nameLen;
                  peerLen = u16_at off payload; off = off + 2 in
           if off + peerLen > length payload
           then Inl (Errorf ''shmevent: command peer id length %d exceeds payload size %d'')
           else Inr (name, slice off (off + peerLen) payload, drop (off + peerLen) payload)))"

definition DecodeCommandPayload :: "bytes \<Rightarrow> (gostring \<times> bytes) res" where
  "DecodeCommandPayload payload =
     bind_res (DecodeCommandPayloadFull payload) (\<lambda>(name, peerID, _). Inr (name, peerID))"

definition EncodeCommandPayloadClearingSpec :: "gostring \<Rightarrow> bytes \<Rightarrow> bytes res" where
  "EncodeCommandPayloadClearingSpec name peerID =
     bind_res (EncodeCommandPayloadWithSpec name peerID [0]) (\<lambda>payload. Inr (take (length payload - 1) payload))"

definition CommandPutPayloadHasSpec :: "bytes \<Rightarrow> bool" where
  "CommandPutPayloadHasSpec payload \<longleftrightarrow> length payload \<ge> 2 \<and> u16_at 0 payload = commandPayloadV2Sentinel"

text \<open>The code's \<^verbatim>\<open>(spec, present)\<close> pair as an option: \<open>None\<close> is \<^verbatim>\<open>present == false\<close>.\<close>

definition DecodeCommandPayloadSpec :: "bytes \<Rightarrow> bytes option res" where
  "DecodeCommandPayloadSpec payload =
     (if length payload < 2 then Inl (Errorf ''shmevent: command payload too short: %d bytes'')
      else if u16_at 0 payload \<noteq> commandPayloadV2Sentinel then Inr None
      else bind_res (DecodeCommandPayloadFull payload) (\<lambda>(_, _, spec). Inr (Some spec)))"

subsection \<open>Reserved ids\<close>

definition ReservedGroupCluster :: gostring where "ReservedGroupCluster = str ''cluster''"
definition ReservedGroupVoter :: gostring where "ReservedGroupVoter = str ''voter''"
definition ReservedGroupLearner :: gostring where "ReservedGroupLearner = str ''learner''"
definition ReservedGroupChannel :: gostring where "ReservedGroupChannel = str ''channel''"
definition ReservedGroupRelay :: gostring where "ReservedGroupRelay = str ''relay''"
definition ReservedGroupRemote :: gostring where "ReservedGroupRemote = str ''remote''"
definition ReservedGroupExecute :: gostring where "ReservedGroupExecute = str ''execute''"

definition IsReservedGroupID :: "gostring \<Rightarrow> bool" where
  "IsReservedGroupID gid \<longleftrightarrow> gid \<in> {ReservedGroupCluster, ReservedGroupVoter, ReservedGroupLearner,
     ReservedGroupChannel, ReservedGroupRelay, ReservedGroupRemote, ReservedGroupExecute}"

definition IsAutoManagedGroupID :: "gostring \<Rightarrow> bool" where
  "IsAutoManagedGroupID gid \<longleftrightarrow> gid \<in> {ReservedGroupCluster, ReservedGroupVoter, ReservedGroupLearner}"

definition DefaultPublicGroupID :: gostring where "DefaultPublicGroupID = str ''public''"
definition DefaultPublicCommandID :: gostring where "DefaultPublicCommandID = str ''public-access''"

lemmas reserved_defs = ReservedGroupCluster_def ReservedGroupVoter_def ReservedGroupLearner_def
  ReservedGroupChannel_def ReservedGroupRelay_def ReservedGroupRemote_def ReservedGroupExecute_def
  DefaultPublicGroupID_def DefaultPublicCommandID_def

lemmas catalog_key_defs = GroupKey_def CommandKey_def StationKey_def
  AllGroupCommandsPrefix_def AllPeerGroupsPrefix_def

subsection \<open>Relation keys\<close>

text \<open>
  The contract both relation records satisfy. \<open>mk first group\<close> builds the key, \<open>parse\<close> takes it
  apart and \<open>all\<close> is the prefix every key of the relation starts with.
\<close>

locale relation_key =
  fixes mk :: "bytes \<Rightarrow> bytes \<Rightarrow> bytes res"
    and parse :: "bytes \<Rightarrow> (bytes \<times> bytes) res"
    and all :: bytes
  assumes mk_total: "length f \<le> 0xFFFF \<Longrightarrow> \<exists>k. mk f g = Inr k"
    and mk_append: "mk f [] = Inr h \<Longrightarrow> mk f g = Inr (h @ g)"
    and mk_split: "mk f g = Inr k \<Longrightarrow> \<exists>h. mk f [] = Inr h \<and> k = h @ g"
    and all_prefix: "mk f g = Inr k \<Longrightarrow> prefix all k"
    and parse_mk: "mk f g = Inr k \<Longrightarrow> parse k = Inr (f, g)"
    and mk_parse: "prefix all k \<Longrightarrow> parse k = Inr (f, g) \<Longrightarrow> mk f g = Inr k"
begin

lemma mk_inj: "mk f g = Inr k \<Longrightarrow> mk f' g' = Inr k \<Longrightarrow> f = f' \<and> g = g'"
  by (metis parse_mk Pair_inject sum.inject(2))

lemma parse_iff: "prefix all k \<Longrightarrow> parse k = Inr (f, g) \<longleftrightarrow> mk f g = Inr k"
  using parse_mk mk_parse by blast

text \<open>The key with an empty group selects exactly the relations of its first field.\<close>

lemma first_prefix_iff:
  assumes "mk f [] = Inr h"
  shows "prefix h k \<longleftrightarrow> (\<exists>g. mk f g = Inr k)"
  using mk_append [OF assms] by (auto simp: prefix_def)

lemma first_prefix_mk:
  assumes "mk f [] = Inr h" "mk f' g = Inr k"
  shows "prefix h k \<longleftrightarrow> f' = f"
  using first_prefix_iff [OF assms(1)] assms mk_inj mk_append by blast

end

lemma relation_keyI:
  fixes kind :: byte
  assumes mk: "\<And>f g. mk f g = (if 0xFFFF < length f then Inl e else Inr ([0, kind, 0] @ be16 (length f) @ f @ g))"
    and parse: "\<And>k. parse k = (if length k < 5 \<or> k ! 0 \<noteq> 0 \<or> k ! 1 \<noteq> kind then Inl e1
       else let n = u16_at 3 k in if 5 + n > length k then Inl e2 else Inr (slice 5 (5 + n) k, drop (5 + n) k))"
  shows "relation_key mk parse (SystemKey kind 0 [])"
proof
  fix f g k
  show "parse k = Inr (f, g)" if "mk f g = Inr k"
  proof -
    from that have l: "length f \<le> 65535" and k: "k = [0, kind, 0] @ be16 (length f) @ f @ g"
      by (auto simp: mk split: if_splits)
    have "u16_at 3 k = length f" unfolding k using l by (subst u16_at_append) auto
    moreover have "slice 5 (5 + length f) k = f" unfolding k by (simp add: slice_def)
    moreover have "drop (5 + length f) k = g" unfolding k by (simp add: drop_Cons')
    ultimately show ?thesis unfolding parse by (simp add: k Let_def)
  qed
  show "mk f g = Inr k" if "prefix (SystemKey kind 0 []) k" "parse k = Inr (f, g)"
  proof -
    let ?n = "u16_at 3 k"
    from that(2) have n: "3 + 2 + ?n \<le> length k" and f: "f = slice 5 (5 + ?n) k" and g: "g = drop (5 + ?n) k"
      by (auto simp: parse Let_def split: if_splits)
    have "take 3 k = [0, kind, 0]" using that(1) by (auto simp: prefix_def SystemKey_def)
    with split_u16 [OF n] f g have k: "k = [0, kind, 0] @ be16 ?n @ f @ g" by simp
    have "length f = ?n" using n f by (simp add: slice_def)
    with k u16_at_less [of 3 k] show ?thesis by (simp add: mk)
  qed
qed (auto simp: mk SystemKey_def split: if_splits)

interpretation gc: relation_key GroupCommandKey ParseGroupCommandKey AllGroupCommandsPrefix
  unfolding AllGroupCommandsPrefix_def catalogStatusPlaceholder_def
  by (rule relation_keyI [where e = "Errorf ''shmevent: group-command commandID too long: %d bytes''"])
    (simp_all add: GroupCommandKey_def ParseGroupCommandKey_def)

interpretation pg: relation_key PeerGroupKey ParsePeerGroupKey AllPeerGroupsPrefix
  unfolding AllPeerGroupsPrefix_def catalogStatusPlaceholder_def
  by (rule relation_keyI [where e = "Errorf ''shmevent: peer-group peerID too long: %d bytes''"])
    (simp_all add: PeerGroupKey_def ParsePeerGroupKey_def)

lemma relation_keys_system:
  "GroupCommandKey c g = Inr k \<Longrightarrow> k = SystemKey KindGroupCommand 0 (be16 (length c) @ c @ g)"
  "PeerGroupKey c g = Inr k \<Longrightarrow> k = SystemKey KindPeerGroup 0 (be16 (length c) @ c @ g)"
  by (auto simp: GroupCommandKey_def PeerGroupKey_def SystemKey_def split: if_splits)

subsection \<open>Payload round trips\<close>

lemma DecodeStation_Encode [codec_simps]:
  "EncodeStationPayload name attrs = Inr b \<Longrightarrow> DecodeStationPayload b = Inr (name, attrs)"
  by (auto simp: EncodeStationPayload_def DecodeStationPayload_def slice_def Let_def split: if_splits)

interpretation station: codec "\<lambda>(name, attrs). EncodeStationPayload name attrs" DecodeStationPayload
  "\<lambda>(name, attrs). length name \<le> 0xFFFF"
  by unfold_locales (auto simp: codec_simps EncodeStationPayload_def)

lemma DecodeGroup_Encode [codec_simps]:
  "DecodeGroupPayload (EncodeGroupPayload name public) = Inr (name, public)"
  by (simp add: DecodeGroupPayload_def EncodeGroupPayload_def)

interpretation grp: codec "\<lambda>(name, public). Inr (EncodeGroupPayload name public)" DecodeGroupPayload
  "\<lambda>_. True"
  by unfold_locales (auto simp: codec_simps)

lemma DecodeGroup_Inr_iff [codec_simps]:
  "DecodeGroupPayload p = Inr (name, public) \<longleftrightarrow> (\<exists>b. p = b # name \<and> (public \<longleftrightarrow> b = 1))"
  by (cases p) (auto simp: DecodeGroupPayload_def)

lemma be16_sentinel: "[0xFF, 0xFF] = be16 0xFFFF"
  by (simp add: be16_def)

lemma EncodeCommandPayload_Inr:
  "EncodeCommandPayload name peerID = Inr b \<longleftrightarrow> length name < 0xFFFF \<and> b = be16 (length name) @ name @ peerID"
  by (auto simp: EncodeCommandPayload_def checkCommandNameLen_def)

lemma DecodeCommandFull_v1:
  assumes "length name < 0xFFFF"
  shows "DecodeCommandPayloadFull (be16 (length name) @ name @ peerID) = Inr (name, peerID, [])"
  using assms by (simp add: DecodeCommandPayloadFull_def slice_def Let_def)

lemma DecodeCommandFull_v2:
  assumes "length name < 0xFFFF" "length peerID \<le> 0xFFFF"
  shows "DecodeCommandPayloadFull ([0xFF, 0xFF] @ be16 (length name) @ name @ be16 (length peerID) @ peerID @ spec)
    = Inr (name, peerID, spec)"
proof -
  let ?b = "be16 0xFFFF @ be16 (length name) @ name @ be16 (length peerID) @ peerID @ spec"
  have "u16_at 2 ?b = length name"
    using assms by (subst u16_at_append) simp_all
  moreover have "u16_at (4 + length name) ?b = length peerID"
    using assms by (simp add: u16_at_append u16_at_def)
  ultimately show ?thesis
    unfolding be16_sentinel by (simp add: DecodeCommandPayloadFull_def slice_def Let_def)
qed

lemma DecodeCommandFull_Encode [codec_simps]:
  "EncodeCommandPayloadWithSpec name peerID spec = Inr b \<Longrightarrow> DecodeCommandPayloadFull b = Inr (name, peerID, spec)"
  by (auto simp: EncodeCommandPayloadWithSpec_def EncodeCommandPayload_Inr checkCommandNameLen_def
      DecodeCommandFull_v1 DecodeCommandFull_v2 [simplified] split: if_splits)

interpretation cmd: codec "\<lambda>(name, peerID, spec). EncodeCommandPayloadWithSpec name peerID spec"
  DecodeCommandPayloadFull
  "\<lambda>(name, peerID, spec). length name < 0xFFFF \<and> (spec \<noteq> [] \<longrightarrow> length peerID \<le> 0xFFFF)"
  by unfold_locales
    (auto simp: codec_simps EncodeCommandPayloadWithSpec_def EncodeCommandPayload_def checkCommandNameLen_def)

lemma EncodeCommandPayloadClearingSpec_Inr:
  "EncodeCommandPayloadClearingSpec name peerID = Inr b \<longleftrightarrow>
     length name < 0xFFFF \<and> length peerID \<le> 0xFFFF \<and>
     b = [0xFF, 0xFF] @ be16 (length name) @ name @ be16 (length peerID) @ peerID"
  by (auto simp: EncodeCommandPayloadClearingSpec_def EncodeCommandPayloadWithSpec_def checkCommandNameLen_def
      take_Cons')

text \<open>Absent, explicitly empty and present specs are three different payloads to the reader.\<close>

lemma DecodeSpec_v1:
  "EncodeCommandPayload name peerID = Inr b \<Longrightarrow> DecodeCommandPayloadSpec b = Inr None"
  by (auto simp: EncodeCommandPayload_Inr DecodeCommandPayloadSpec_def)

lemma DecodeSpec_v2:
  assumes "EncodeCommandPayloadWithSpec name peerID spec = Inr b" "spec \<noteq> []"
  shows "DecodeCommandPayloadSpec b = Inr (Some spec)"
proof -
  have "u16_at 0 b = 0xFFFF" "2 \<le> length b"
    using assms
    by (auto simp: EncodeCommandPayloadWithSpec_def checkCommandNameLen_def be16_sentinel u16_at_def
        simp del: append_Cons append_Nil split: if_splits)
  with DecodeCommandFull_Encode [OF assms(1)] show ?thesis
    by (simp add: DecodeCommandPayloadSpec_def)
qed

lemma DecodeSpec_cleared:
  assumes "EncodeCommandPayloadClearingSpec name peerID = Inr b"
  shows "DecodeCommandPayloadSpec b = Inr (Some [])"
proof -
  have b: "b = be16 0xFFFF @ be16 (length name) @ name @ be16 (length peerID) @ peerID"
    and "length name < 0xFFFF" "length peerID \<le> 0xFFFF"
    using assms by (auto simp: EncodeCommandPayloadClearingSpec_Inr be16_sentinel [symmetric])
  then have "DecodeCommandPayloadFull b = Inr (name, peerID, [])"
    using DecodeCommandFull_v2 [of name peerID "[]"] by (simp only: be16_sentinel append_Nil2)
  with b show ?thesis by (simp add: DecodeCommandPayloadSpec_def)
qed

end
