(* ===== verification/FSM_ACL.thy ===== *)
theory FSM_ACL
  imports KV_Store Shm_Catalog
begin

text \<open>
  Validation and access control inside the state machine (src/pkg/kvfsm/fsm_acl.go): the cap on
  system lists, uniqueness of group names, carrying a command's spec forward, the
  authoritative permission check for a command, and the channel/relay grant. Each is a
  computation against the store, faults included; the lemmas give each one's meaning on a
  healthy disk over the abstract contents.
\<close>

subsection \<open>List caps\<close>

text \<open>
  \<^verbatim>\<open>maxSystemListEntries\<close> and \<^verbatim>\<open>systemListLimits\<close> are package variables; the model passes
  them around as a record whose shipped value is \<open>default_limits\<close>.
\<close>

record limits =
  maxSystemListEntries :: nat
  systemListLimits :: "byte \<Rightarrow> nat option"

definition default_limits :: limits where
  "default_limits = \<lparr>maxSystemListEntries = 65000,
     systemListLimits = [KindGroup \<mapsto> 200, KindCommand \<mapsto> 2000, KindBootstrapNode \<mapsto> 50]\<rparr>"

definition systemKeyPrefixLen :: nat where [simp]: "systemKeyPrefixLen = 3"

definition list_limit :: "limits \<Rightarrow> byte \<Rightarrow> nat" where
  "list_limit lim kind = (case systemListLimits lim kind of None \<Rightarrow> maxSystemListEntries lim | Some n \<Rightarrow> n)"

definition is_system_key :: "bytes \<Rightarrow> bool" where
  "is_system_key key \<longleftrightarrow> \<not> (length key < systemKeyPrefixLen \<or> key ! 0 \<noteq> SystemKeyPrefix)"

definition checkSystemListCap :: "limits \<Rightarrow> bytes \<Rightarrow> unit sto" where
  "checkSystemListCap lim key =
     (if length key < systemKeyPrefixLen \<or> key ! 0 \<noteq> SystemKeyPrefix then ret ()
      else bind_sto (try_sto (get key)) (\<lambda>r. case r of
          Inr _ \<Rightarrow> ret ()
        | Inl e \<Rightarrow> if \<not> errors_is e ErrNotFound then fail e
            else let p = take systemKeyPrefixLen key; limit = list_limit lim (key ! 1) in
              bind_sto (countPrefix p) (\<lambda>count.
                if count \<ge> limit then fail (Errorf ''kvfsm: system list %x is at capacity (%d entries)'')
                else ret ())))"

subsection \<open>Group names\<close>

fun nameClash :: "bytes \<Rightarrow> gostring \<Rightarrow> table \<Rightarrow> unit res" where
  "nameClash key name [] = Inr ()"
| "nameClash key name (m # ms) =
     (if fst m = key then nameClash key name ms
      else bind_res (DecodeGroupPayload (snd m)) (\<lambda>(existingName, _).
        if existingName = name then Inl (Errorf ''kvfsm: group name %q already used by another group'')
        else nameClash key name ms))"

definition checkGroupNameUnique :: "bytes \<Rightarrow> bytes \<Rightarrow> unit sto" where
  "checkGroupNameUnique key value =
     (if length key < systemKeyPrefixLen \<or> key ! 0 \<noteq> SystemKeyPrefix \<or> key ! 1 \<noteq> KindGroup then ret ()
      else bind_sto (lift_res (DecodeGroupPayload value)) (\<lambda>(name, _).
        let (lo, hi) = GroupKeyBounds in
        bind_sto (scanRange lo hi 0) (\<lambda>matches. lift_res (nameClash key name matches))))"

subsection \<open>Command specs\<close>

definition preserveCommandSpec :: "bytes \<Rightarrow> bytes \<Rightarrow> bytes sto" where
  "preserveCommandSpec key value =
     (if length key < systemKeyPrefixLen \<or> key ! 0 \<noteq> SystemKeyPrefix \<or> key ! 1 \<noteq> KindCommand then ret value
      else bind_sto (lift_res (wrap_err ''kvfsm: command spec: %w'' (DecodeCommandPayloadSpec value))) (\<lambda>spec.
        if spec \<noteq> None then ret value
        else bind_sto (try_sto (get key)) (\<lambda>r. case r of
            Inl e \<Rightarrow> if errors_is e ErrNotFound then ret value
                     else fail (Wrap ''kvfsm: command spec: read existing: %w'' e)
          | Inr existing \<Rightarrow> (case DecodeCommandPayloadSpec existing of
                Inl _ \<Rightarrow> ret value
              | Inr None \<Rightarrow> ret value
              | Inr (Some oldSpec) \<Rightarrow>
                  if length oldSpec = 0 then ret value
                  else bind_sto (lift_res (wrap_err ''kvfsm: command spec: decode incoming: %w''
                                   (DecodeCommandPayload value))) (\<lambda>(name, peerID).
                    lift_res (wrap_err ''kvfsm: command spec: re-encode: %w''
                      (EncodeCommandPayloadWithSpec name peerID oldSpec)))))))"

subsection \<open>Permission to run a command\<close>

text \<open>
  One linked group after the other: a readable public group admits everyone, otherwise the
  peer needs its own membership record. A read error on either record counts as absent, as
  in the code, which ignores it.
\<close>

fun permittedLoop :: "bytes \<Rightarrow> table \<Rightarrow> bool sto" where
  "permittedLoop peerID [] = ret False"
| "permittedLoop peerID (m # ms) =
     bind_sto (lift_res (ParseGroupCommandKey (fst m))) (\<lambda>(_, groupID).
     bind_sto (try_sto (get (GroupKey groupID))) (\<lambda>g.
       if (case g of Inl _ \<Rightarrow> False
           | Inr groupValue \<Rightarrow> (case DecodeGroupPayload groupValue of Inl _ \<Rightarrow> False | Inr (_, public) \<Rightarrow> public))
       then ret True
       else bind_sto (lift_res (PeerGroupKey peerID groupID)) (\<lambda>peerGroupKey.
         bind_sto (try_sto (get peerGroupKey)) (\<lambda>p.
           case p of Inr _ \<Rightarrow> ret True | Inl _ \<Rightarrow> permittedLoop peerID ms))))"

definition IsPermittedForCommand :: "bytes \<Rightarrow> bytes \<Rightarrow> bool sto" where
  "IsPermittedForCommand commandID peerID =
     bind_sto (lift_res (GroupCommandKey commandID [])) (\<lambda>p.
     bind_sto (scanPrefix p 0) (\<lambda>matches. permittedLoop peerID matches))"

fun grantLoop :: "bytes \<Rightarrow> bytes list \<Rightarrow> unit sto" where
  "grantLoop peerID [] = ret ()"
| "grantLoop peerID (groupID # gs) =
     bind_sto (lift_res (PeerGroupKey peerID groupID)) (\<lambda>key.
     bind_sto (set_kv key []) (\<lambda>_. grantLoop peerID gs))"

definition grantChannelRelayAccess :: "bytes \<Rightarrow> unit sto" where
  "grantChannelRelayAccess peerID = grantLoop peerID [ReservedGroupChannel, ReservedGroupRelay]"

subsection \<open>What they do on a healthy disk\<close>

lemma errors_is_NotFound [simp]: "errors_is ErrNotFound ErrNotFound" "\<not> errors_is ErrDB ErrNotFound"
  by simp_all

lemma is_system_key_iff: "is_system_key key \<longleftrightarrow> (\<exists>kind status rest. key = SystemKey kind status rest)"
proof
  assume k: "is_system_key key"
  then obtain a b c r where key: "key = a # b # c # r"
    by (cases key; cases "tl key"; cases "tl (tl key)") (auto simp: is_system_key_def)
  with k have "a = 0" by (simp add: is_system_key_def)
  with key show "\<exists>kind status rest. key = SystemKey kind status rest" by (auto simp: SystemKey_def)
qed (auto simp: is_system_key_def SystemKey_def)

lemma is_system_key_SystemKey [simp]: "is_system_key (SystemKey kind status rest)"
  by (simp add: is_system_key_iff)

definition list_count :: "(bytes \<rightharpoonup> bytes) \<Rightarrow> bytes \<Rightarrow> nat" where
  "list_count m p = card {k \<in> dom m. prefix p k}"

lemma checkSystemListCap_other:
  "\<not> is_system_key key \<Longrightarrow> checkSystemListCap lim key s = (Inr (), s)"
  by (simp add: checkSystemListCap_def is_system_key_def)

lemma checkSystemListCap_healthy:
  assumes "healthy s" "wf_store s" "is_system_key key"
  shows "checkSystemListCap lim key s =
    (if contents s key \<noteq> None \<or> list_count (contents s) (take 3 key) < list_limit lim (key ! 1)
     then Inr () else Inl (Errorf ''kvfsm: system list %x is at capacity (%d entries)''), s)"
proof -
  have "length (filter (\<lambda>r. prefix (take 3 key) (fst r)) (kv s)) = list_count (contents s) (take 3 key)"
    using assms(2) card_filter_keys [of "kv s" "prefix (take 3 key)"]
    by (simp add: list_count_def wf_store_def contents_def)
  with assms show ?thesis
    by (cases "contents s key") (simp_all add: checkSystemListCap_def is_system_key_def store_simps Let_def)
qed

lemma nameClash_Inr:
  "nameClash key name ms = Inr () \<longleftrightarrow>
     (\<forall>m \<in> set ms. fst m = key \<or> (\<exists>n p. DecodeGroupPayload (snd m) = Inr (n, p) \<and> n \<noteq> name))"
proof (induction ms)
  case (Cons m ms)
  then show ?case by (cases "DecodeGroupPayload (snd m)") (auto split: if_splits)
qed simp

lemma checkGroupNameUnique_healthy:
  assumes "healthy s" "key = SystemKey KindGroup st rest"
  shows "checkGroupNameUnique key value s =
    (bind_res (DecodeGroupPayload value) (\<lambda>(name, _). nameClash key name
       (filter (\<lambda>r. SystemKey KindGroup 0 [] \<le> fst r \<and> fst r \<le> pad_hi (SystemKey KindGroup 0 [])) (kv s))), s)"
  using assms
  by (cases "DecodeGroupPayload value")
    (auto simp: checkGroupNameUnique_def GroupKeyBounds_def keyListBounds_def Let_def store_simps SystemKey_def)

lemma checkGroupNameUnique_other:
  "\<nexists>st rest. key = SystemKey KindGroup st rest \<Longrightarrow> checkGroupNameUnique key value s = (Inr (), s)"
proof -
  assume a: "\<nexists>st rest. key = SystemKey KindGroup st rest"
  have "\<not> is_system_key key \<or> key ! 1 \<noteq> KindGroup"
    using a by (auto simp: is_system_key_iff SystemKey_def)
  then show ?thesis by (auto simp: checkGroupNameUnique_def is_system_key_def)
qed

lemma preserveCommandSpec_other:
  "\<nexists>st rest. key = SystemKey KindCommand st rest \<Longrightarrow> preserveCommandSpec key value s = (Inr value, s)"
proof -
  assume a: "\<nexists>st rest. key = SystemKey KindCommand st rest"
  have "\<not> is_system_key key \<or> key ! 1 \<noteq> KindCommand"
    using a by (auto simp: is_system_key_iff SystemKey_def)
  then show ?thesis by (auto simp: preserveCommandSpec_def is_system_key_def)
qed

lemma system_key_parts [simp]:
  "\<not> length (SystemKey kind st rest) < 3" "SystemKey kind st rest ! 0 = 0" "SystemKey kind st rest ! Suc 0 = kind"
  "take 3 (SystemKey kind st rest) = [0, kind, st]" "drop 3 (SystemKey kind st rest) = rest"
  by (simp_all add: SystemKey_def)

lemma preserveCommandSpec_mentions:
  assumes "DecodeCommandPayloadSpec value = Inr (Some spec)"
  shows "preserveCommandSpec key value s = (Inr value, s)"
  using assms by (simp add: preserveCommandSpec_def)

lemma preserveCommandSpec_carries:
  assumes "healthy s" "key = SystemKey KindCommand st rest"
    and "DecodeCommandPayloadSpec value = Inr None" "DecodeCommandPayload value = Inr (name, peerID)"
    and "contents s key = Some old" "DecodeCommandPayloadSpec old = Inr (Some spec)" "spec \<noteq> []"
  shows "preserveCommandSpec key value s =
    (wrap_err ''kvfsm: command spec: re-encode: %w'' (EncodeCommandPayloadWithSpec name peerID spec), s)"
  using assms by (simp add: preserveCommandSpec_def store_simps)

text \<open>The permission rule over abstract contents.\<close>

definition group_public :: "(bytes \<rightharpoonup> bytes) \<Rightarrow> bytes \<Rightarrow> bool" where
  "group_public m g \<longleftrightarrow> (\<exists>name. m (GroupKey g) = Some (groupPublicByte # name))"

definition peer_in_group :: "(bytes \<rightharpoonup> bytes) \<Rightarrow> bytes \<Rightarrow> bytes \<Rightarrow> bool" where
  "peer_in_group m p g \<longleftrightarrow> (\<exists>k. PeerGroupKey p g = Inr k \<and> m k \<noteq> None)"

definition command_in_group :: "(bytes \<rightharpoonup> bytes) \<Rightarrow> bytes \<Rightarrow> bytes \<Rightarrow> bool" where
  "command_in_group m c g \<longleftrightarrow> (\<exists>k. GroupCommandKey c g = Inr k \<and> m k \<noteq> None)"

lemma group_public_decode:
  "(case lookup_res s (GroupKey g) of Inl _ \<Rightarrow> False
    | Inr v \<Rightarrow> (case DecodeGroupPayload v of Inl _ \<Rightarrow> False | Inr (_, public) \<Rightarrow> public)) \<longleftrightarrow>
   group_public (contents s) g"
proof (cases "contents s (GroupKey g)")
  case None
  then show ?thesis by (simp add: group_public_def)
next
  case (Some v)
  then show ?thesis
    by (cases v) (auto simp: group_public_def DecodeGroupPayload_def)
qed

lemma permittedLoop_healthy:
  assumes "healthy s" "length peerID \<le> 0xFFFF"
    and "\<forall>m \<in> set ms. \<exists>g. GroupCommandKey c g = Inr (fst m)"
  shows "permittedLoop peerID ms s =
    (Inr (\<exists>m \<in> set ms. \<exists>g. GroupCommandKey c g = Inr (fst m) \<and>
       (group_public (contents s) g \<or> peer_in_group (contents s) peerID g)), s)"
  using assms(3)
proof (induction ms)
  case Nil
  then show ?case by simp
next
  case (Cons m ms)
  then obtain g where g: "GroupCommandKey c g = Inr (fst m)" by auto
  note parse = gc.parse_mk [OF g]
  have uniq: "GroupCommandKey c g' = Inr (fst m) \<longleftrightarrow> g' = g" for g'
    using g gc.mk_inj by blast
  obtain pk where pk: "PeerGroupKey peerID g = Inr pk" using pg.mk_total [OF assms(2)] by blast
  have IH: "permittedLoop peerID ms s = (Inr (\<exists>m \<in> set ms. \<exists>g. GroupCommandKey c g = Inr (fst m) \<and>
      (group_public (contents s) g \<or> peer_in_group (contents s) peerID g)), s)"
    using Cons by simp
  have mem: "peer_in_group (contents s) peerID g \<longleftrightarrow> contents s pk \<noteq> None"
    using pk by (simp add: peer_in_group_def)
  have step: "permittedLoop peerID (m # ms) s =
      (if group_public (contents s) g then (Inr True, s)
       else if contents s pk \<noteq> None then (Inr True, s) else permittedLoop peerID ms s)"
    using assms(1)
    by (cases "contents s pk") (simp_all add: parse pk bind_try_get group_public_decode)
  have ex: "(\<exists>m' \<in> set (m # ms). \<exists>g. GroupCommandKey c g = Inr (fst m') \<and>
        (group_public (contents s) g \<or> peer_in_group (contents s) peerID g)) \<longleftrightarrow>
      group_public (contents s) g \<or> contents s pk \<noteq> None \<or>
      (\<exists>m \<in> set ms. \<exists>g. GroupCommandKey c g = Inr (fst m) \<and>
        (group_public (contents s) g \<or> peer_in_group (contents s) peerID g))"
    by (simp only: set_simps bex_simps uniq simp_thms ex_simps mem) blast
  show ?case unfolding step ex IH by simp
qed

lemma IsPermittedForCommand_healthy:
  assumes "healthy s" "wf_store s" "length commandID \<le> 0xFFFF" "length peerID \<le> 0xFFFF"
  shows "IsPermittedForCommand commandID peerID s =
    (Inr (\<exists>g. command_in_group (contents s) commandID g \<and>
       (group_public (contents s) g \<or> peer_in_group (contents s) peerID g)), s)"
proof -
  obtain h where h: "GroupCommandKey commandID [] = Inr h" using gc.mk_total [OF assms(3)] by blast
  let ?ms = "filter (\<lambda>r. prefix h (fst r)) (kv s)"
  have all: "\<forall>m \<in> set ?ms. \<exists>g. GroupCommandKey commandID g = Inr (fst m)"
    using gc.first_prefix_iff [OF h] by auto
  have linked: "command_in_group (contents s) commandID g \<longleftrightarrow>
      (\<exists>r \<in> set (kv s). GroupCommandKey commandID g = Inr (fst r))" for g
  proof -
    obtain k where "GroupCommandKey commandID g = Inr k" using gc.mk_total [OF assms(3)] by blast
    then show ?thesis by (simp only: command_in_group_def contents_ex sum.inject) simp
  qed
  have pre: "GroupCommandKey commandID g = Inr k \<Longrightarrow> prefix h k" for g k
    using gc.first_prefix_iff [OF h] by blast
  have ex: "(\<exists>m \<in> set ?ms. \<exists>g. GroupCommandKey commandID g = Inr (fst m) \<and> Q g) \<longleftrightarrow>
      (\<exists>g. command_in_group (contents s) commandID g \<and> Q g)" for Q
    unfolding linked set_filter using pre by blast
  have "IsPermittedForCommand commandID peerID s = permittedLoop peerID ?ms s"
    using assms(1) by (simp add: IsPermittedForCommand_def h bind_scanPrefix)
  also have "\<dots> = (Inr (\<exists>m \<in> set ?ms. \<exists>g. GroupCommandKey commandID g = Inr (fst m) \<and>
       (group_public (contents s) g \<or> peer_in_group (contents s) peerID g)), s)"
    by (rule permittedLoop_healthy [OF assms(1,4) all])
  finally show ?thesis unfolding ex .
qed

text \<open>None of the checks writes.\<close>

lemma read_only_permittedLoop [sto_rules]: "read_only (permittedLoop p ms)"
  by (induction ms) (auto intro!: sto_rules split: prod.splits sum.splits)

lemma read_only_checks [sto_rules]:
  "read_only (checkSystemListCap lim key)" "read_only (checkGroupNameUnique key v)"
  "read_only (preserveCommandSpec key v)" "read_only (IsPermittedForCommand c p)"
  unfolding checkSystemListCap_def checkGroupNameUnique_def preserveCommandSpec_def IsPermittedForCommand_def Let_def
  by (auto intro!: sto_rules split: prod.splits sum.splits option.splits)

subsection \<open>Properties\<close>

text \<open>
  C8. The permission check is exact: on a healthy disk a peer is permitted for a command
  if and only if some group is linked to the command and either that group is public or the
  peer holds a membership record in it; the check always answers and changes nothing.
\<close>

theorem permitted_iff_linked_group:
  assumes "healthy s" "wf_store s" "length commandID \<le> 0xFFFF" "length peerID \<le> 0xFFFF"
  shows "IsPermittedForCommand commandID peerID s =
    (Inr (\<exists>g. command_in_group (contents s) commandID g \<and>
       (group_public (contents s) g \<or> peer_in_group (contents s) peerID g)), s)"
  using assms by (rule IsPermittedForCommand_healthy)

theorem permitted_iff_linked_group_witness:
  "fst (IsPermittedForCommand [5] [6] \<lparr>kv = [([0, 6, 0, 9], [1]), ([0, 8, 0, 0, 1, 5, 9], [])], faults = []\<rparr>)
   = Inr True"
proof -
  let ?s = "\<lparr>kv = [([0, 6, 0, 9], [1]), ([0, 8, 0, 0, 1, 5, 9], [])], faults = []\<rparr>"
  have "command_in_group (contents ?s) [5] [9]" "group_public (contents ?s) [9]"
    by (simp_all add: command_in_group_def group_public_def GroupCommandKey_def GroupKey_def SystemKey_def
        contents_def be16_def)
  moreover have "healthy ?s" "wf_store ?s" by (simp_all add: healthy_def wf_store_def tbl_ok_def)
  ultimately show ?thesis using permitted_iff_linked_group [of ?s "[5]" "[6]"] by auto
qed

end
