(* ===== verification/FSM_Cascade.thy ===== *)
theory FSM_Cascade
  imports FSM_ACL
begin

text \<open>
  Cascading deletes of groups and commands (src/pkg/kvfsm/fsm_cascade.go). The lemmas give the
  exact table each loop leaves and show that deleting a command or a group removes its own
  record and every relation that names it, and nothing else.
\<close>

fun deleteAll :: "table \<Rightarrow> unit sto" where
  "deleteAll [] = ret ()"
| "deleteAll (m # ms) = bind_sto (del (fst m)) (\<lambda>_. deleteAll ms)"

fun deleteMatching :: "(bytes \<Rightarrow> (bytes \<times> bytes) res) \<Rightarrow> bytes \<Rightarrow> table \<Rightarrow> unit sto" where
  "deleteMatching parse groupID [] = ret ()"
| "deleteMatching parse groupID (m # ms) =
     bind_sto (lift_res (parse (fst m))) (\<lambda>(_, matchGroupID).
       if matchGroupID \<noteq> groupID then deleteMatching parse groupID ms
       else bind_sto (del (fst m)) (\<lambda>_. deleteMatching parse groupID ms))"

definition deleteRelationsByGroupID ::
    "bytes \<Rightarrow> bytes \<Rightarrow> (bytes \<Rightarrow> (bytes \<times> bytes) res) \<Rightarrow> unit sto" where
  "deleteRelationsByGroupID p groupID parse =
     bind_sto (scanPrefix p 0) (\<lambda>matches. deleteMatching parse groupID matches)"

definition applyCascadeDelete :: "bytes \<Rightarrow> unit sto" where
  "applyCascadeDelete key =
     (if length key < systemKeyPrefixLen \<or> key ! 0 \<noteq> SystemKeyPrefix
      then fail (Errorf ''kvfsm: cascade delete: not a system key'')
      else if key ! 1 = KindCommand then
        let commandID = drop systemKeyPrefixLen key in
        bind_sto (lift_res (GroupCommandKey commandID [])) (\<lambda>p.
        bind_sto (scanPrefix p 0) (\<lambda>matches.
        bind_sto (deleteAll matches) (\<lambda>_. del key)))
      else if key ! 1 = KindGroup then
        let groupID = drop systemKeyPrefixLen key in
        bind_sto (deleteRelationsByGroupID AllGroupCommandsPrefix groupID ParseGroupCommandKey) (\<lambda>_.
        bind_sto (deleteRelationsByGroupID AllPeerGroupsPrefix groupID ParsePeerGroupKey) (\<lambda>_. del key))
      else fail (Errorf ''kvfsm: cascade delete: unsupported kind %d''))"

subsection \<open>The loops\<close>

lemma deleteAll_healthy:
  "healthy s \<Longrightarrow> deleteAll ms s = (Inr (), s\<lparr>kv := filter (\<lambda>r. fst r \<notin> fst ` set ms) (kv s)\<rparr>)"
proof (induction ms arbitrary: s)
  case (Cons m ms)
  have "deleteAll (m # ms) s = deleteAll ms (s\<lparr>kv := tbl_delete (fst m) (kv s)\<rparr>)"
    using Cons.prems by (simp add: bind_del)
  also have "\<dots> = (Inr (), s\<lparr>kv := filter (\<lambda>r. fst r \<notin> fst ` set ms) (tbl_delete (fst m) (kv s))\<rparr>)"
    using Cons by simp
  also have "filter (\<lambda>r. fst r \<notin> fst ` set ms) (tbl_delete (fst m) (kv s)) =
      filter (\<lambda>r. fst r \<notin> fst ` set (m # ms)) (kv s)"
    unfolding tbl_delete_def filter_filter by (rule filter_cong) auto
  finally show ?case .
qed simp

definition parses_to :: "(bytes \<Rightarrow> (bytes \<times> bytes) res) \<Rightarrow> bytes \<Rightarrow> bytes \<Rightarrow> bool" where
  "parses_to parse g k \<longleftrightarrow> (\<exists>f. parse k = Inr (f, g))"

lemma deleteMatching_healthy:
  assumes "healthy s" "\<forall>m \<in> set ms. \<not> isl (parse (fst m))"
  shows "deleteMatching parse g ms s =
    (Inr (), s\<lparr>kv := filter (\<lambda>r. \<not> (fst r \<in> fst ` set ms \<and> parses_to parse g (fst r))) (kv s)\<rparr>)"
  using assms
proof (induction ms arbitrary: s)
  case (Cons m ms)
  from Cons.prems obtain f g' where p: "parse (fst m) = Inr (f, g')"
    by (cases "parse (fst m)") auto
  show ?case
  proof (cases "g' = g")
    case False
    have "deleteMatching parse g (m # ms) s = deleteMatching parse g ms s" using p False by simp
    also have "\<dots> = (Inr (), s\<lparr>kv := filter (\<lambda>r. \<not> (fst r \<in> fst ` set ms \<and> parses_to parse g (fst r))) (kv s)\<rparr>)"
      using Cons by simp
    also have "filter (\<lambda>r. \<not> (fst r \<in> fst ` set ms \<and> parses_to parse g (fst r))) (kv s) =
        filter (\<lambda>r. \<not> (fst r \<in> fst ` set (m # ms) \<and> parses_to parse g (fst r))) (kv s)"
      using p False by (intro filter_cong) (auto simp: parses_to_def)
    finally show ?thesis .
  next
    case True
    have "deleteMatching parse g (m # ms) s = deleteMatching parse g ms (s\<lparr>kv := tbl_delete (fst m) (kv s)\<rparr>)"
      using p True Cons.prems by (simp add: bind_del)
    also have "\<dots> = (Inr (), s\<lparr>kv := filter (\<lambda>r. \<not> (fst r \<in> fst ` set ms \<and> parses_to parse g (fst r)))
        (tbl_delete (fst m) (kv s))\<rparr>)"
      using Cons by simp
    also have "filter (\<lambda>r. \<not> (fst r \<in> fst ` set ms \<and> parses_to parse g (fst r))) (tbl_delete (fst m) (kv s)) =
        filter (\<lambda>r. \<not> (fst r \<in> fst ` set (m # ms) \<and> parses_to parse g (fst r))) (kv s)"
      unfolding tbl_delete_def filter_filter
      using p True by (intro filter_cong) (auto simp: parses_to_def)
    finally show ?thesis .
  qed
qed simp

lemma deleteMatching_error:
  assumes "healthy s" "\<exists>m \<in> set ms. isl (parse (fst m))"
  shows "isl (fst (deleteMatching parse g ms s))"
  using assms
proof (induction ms arbitrary: s)
  case (Cons m ms)
  show ?case
  proof (cases "parse (fst m)")
    case (Inl e)
    then show ?thesis by simp
  next
    case (Inr fg)
    then obtain f g' where p: "parse (fst m) = Inr (f, g')" by (cases fg) auto
    with Cons.prems have "\<exists>m \<in> set ms. isl (parse (fst m))" by auto
    with Cons p show ?thesis by (simp add: bind_del)
  qed
qed simp

definition relations_parse :: "table \<Rightarrow> bytes \<Rightarrow> (bytes \<Rightarrow> (bytes \<times> bytes) res) \<Rightarrow> bool" where
  "relations_parse t p parse \<longleftrightarrow> (\<forall>r \<in> set t. prefix p (fst r) \<longrightarrow> \<not> isl (parse (fst r)))"

lemma deleteRelations_healthy:
  assumes "healthy s"
  shows "deleteRelationsByGroupID p g parse s = deleteMatching parse g (filter (\<lambda>r. prefix p (fst r)) (kv s)) s"
  using assms by (simp add: deleteRelationsByGroupID_def bind_scanPrefix)

lemma deleteRelations_ok:
  assumes "healthy s" "relations_parse (kv s) p parse"
  shows "deleteRelationsByGroupID p g parse s =
    (Inr (), s\<lparr>kv := filter (\<lambda>r. \<not> (prefix p (fst r) \<and> parses_to parse g (fst r))) (kv s)\<rparr>)"
proof -
  let ?ms = "filter (\<lambda>r. prefix p (fst r)) (kv s)"
  have "\<forall>m \<in> set ?ms. \<not> isl (parse (fst m))" using assms(2) by (auto simp: relations_parse_def)
  from deleteMatching_healthy [OF assms(1) this, of g]
  have "deleteRelationsByGroupID p g parse s =
      (Inr (), s\<lparr>kv := filter (\<lambda>r. \<not> (fst r \<in> fst ` set ?ms \<and> parses_to parse g (fst r))) (kv s)\<rparr>)"
    by (simp only: deleteRelations_healthy [OF assms(1)])
  also have "filter (\<lambda>r. \<not> (fst r \<in> fst ` set ?ms \<and> parses_to parse g (fst r))) (kv s) =
      filter (\<lambda>r. \<not> (prefix p (fst r) \<and> parses_to parse g (fst r))) (kv s)"
    by (rule filter_cong) auto
  finally show ?thesis .
qed

lemma deleteRelations_error:
  assumes "healthy s" "\<not> relations_parse (kv s) p parse"
  shows "isl (fst (deleteRelationsByGroupID p g parse s))"
  unfolding deleteRelations_healthy [OF assms(1)]
  by (rule deleteMatching_error [OF assms(1)]) (use assms(2) in \<open>auto simp: relations_parse_def\<close>)

subsection \<open>The cascades\<close>

lemma cascade_command:
  assumes "healthy s" "GroupCommandKey c [] = Inr h"
  shows "applyCascadeDelete (SystemKey KindCommand st c) s =
    (Inr (), s\<lparr>kv := filter (\<lambda>r. fst r \<noteq> SystemKey KindCommand st c \<and> \<not> prefix h (fst r)) (kv s)\<rparr>)"
proof -
  let ?ms = "filter (\<lambda>r. prefix h (fst r)) (kv s)" and ?key = "SystemKey KindCommand st c"
  have "applyCascadeDelete ?key s = bind_sto (deleteAll ?ms) (\<lambda>_. del ?key) s"
    using assms by (simp add: applyCascadeDelete_def bind_scanPrefix)
  also have "\<dots> = (Inr (), s\<lparr>kv := tbl_delete ?key (filter (\<lambda>r. fst r \<notin> fst ` set ?ms) (kv s))\<rparr>)"
    using assms(1) by (simp add: bind_sto_apply_Inr [OF deleteAll_healthy] del_healthy)
  also have "tbl_delete ?key (filter (\<lambda>r. fst r \<notin> fst ` set ?ms) (kv s)) =
      filter (\<lambda>r. fst r \<noteq> ?key \<and> \<not> prefix h (fst r)) (kv s)"
    unfolding tbl_delete_def filter_filter by (rule filter_cong) auto
  finally show ?thesis .
qed

definition group_relation :: "bytes \<Rightarrow> bytes \<Rightarrow> bool" where
  "group_relation g k \<longleftrightarrow> (\<exists>f. GroupCommandKey f g = Inr k) \<or> (\<exists>f. PeerGroupKey f g = Inr k)"

definition relations_ok :: "table \<Rightarrow> bool" where
  "relations_ok t \<longleftrightarrow> relations_parse t AllGroupCommandsPrefix ParseGroupCommandKey \<and>
     relations_parse t AllPeerGroupsPrefix ParsePeerGroupKey"

lemma group_relation_iff:
  "group_relation g k \<longleftrightarrow>
     prefix AllGroupCommandsPrefix k \<and> parses_to ParseGroupCommandKey g k \<or>
     prefix AllPeerGroupsPrefix k \<and> parses_to ParsePeerGroupKey g k"
  unfolding group_relation_def parses_to_def
  using gc.parse_iff gc.all_prefix pg.parse_iff pg.all_prefix by blast

lemma cascade_group:
  assumes "healthy s" "relations_ok (kv s)"
  shows "applyCascadeDelete (SystemKey KindGroup st g) s =
    (Inr (), s\<lparr>kv := filter (\<lambda>r. fst r \<noteq> SystemKey KindGroup st g \<and> \<not> group_relation g (fst r)) (kv s)\<rparr>)"
proof -
  let ?key = "SystemKey KindGroup st g"
  let ?gc = "\<lambda>r::row. prefix AllGroupCommandsPrefix (fst r) \<and> parses_to ParseGroupCommandKey g (fst r)"
  let ?pg = "\<lambda>r::row. prefix AllPeerGroupsPrefix (fst r) \<and> parses_to ParsePeerGroupKey g (fst r)"
  define s1 where "s1 = s\<lparr>kv := filter (\<lambda>r. \<not> ?gc r) (kv s)\<rparr>"
  have 1: "deleteRelationsByGroupID AllGroupCommandsPrefix g ParseGroupCommandKey s = (Inr (), s1)"
    unfolding s1_def using assms by (intro deleteRelations_ok) (simp_all add: relations_ok_def)
  have s1: "healthy s1" "relations_parse (kv s1) AllPeerGroupsPrefix ParsePeerGroupKey"
    using assms by (auto simp: s1_def relations_ok_def relations_parse_def)
  have 2: "deleteRelationsByGroupID AllPeerGroupsPrefix g ParsePeerGroupKey s1 =
      (Inr (), s1\<lparr>kv := filter (\<lambda>r. \<not> ?pg r) (kv s1)\<rparr>)"
    by (rule deleteRelations_ok [OF s1])
  have "applyCascadeDelete ?key s = del ?key (s1\<lparr>kv := filter (\<lambda>r. \<not> ?pg r) (kv s1)\<rparr>)"
    by (simp add: applyCascadeDelete_def bind_sto_def 1 2)
  also have "\<dots> = (Inr (), s1\<lparr>kv := tbl_delete ?key (filter (\<lambda>r. \<not> ?pg r) (kv s1))\<rparr>)"
    using s1(1) by (simp add: del_healthy)
  also have "\<dots> = (Inr (), s\<lparr>kv := filter (\<lambda>r. fst r \<noteq> ?key \<and> \<not> group_relation g (fst r)) (kv s)\<rparr>)"
    unfolding tbl_delete_def s1_def filter_filter group_relation_iff
    by (auto intro!: arg_cong [where f = "\<lambda>t. s\<lparr>kv := t\<rparr>"] filter_cong)
  finally show ?thesis .
qed

lemma cascade_group_error:
  assumes "healthy s" "\<not> relations_ok (kv s)"
  shows "isl (fst (applyCascadeDelete (SystemKey KindGroup st g) s))"
proof (cases "relations_parse (kv s) AllGroupCommandsPrefix ParseGroupCommandKey")
  case False
  from deleteRelations_error [OF assms(1) this, of g] obtain e s' where
    "deleteRelationsByGroupID AllGroupCommandsPrefix g ParseGroupCommandKey s = (Inl e, s')"
    by (metis isl_def prod.collapse)
  then show ?thesis by (simp add: applyCascadeDelete_def bind_sto_apply_Inl)
next
  case True
  define s1 where "s1 = s\<lparr>kv := filter (\<lambda>r. \<not> (prefix AllGroupCommandsPrefix (fst r) \<and>
    parses_to ParseGroupCommandKey g (fst r))) (kv s)\<rparr>"
  have 1: "deleteRelationsByGroupID AllGroupCommandsPrefix g ParseGroupCommandKey s = (Inr (), s1)"
    unfolding s1_def by (rule deleteRelations_ok [OF assms(1) True])
  from assms(2) True obtain r where r: "r \<in> set (kv s)" "prefix AllPeerGroupsPrefix (fst r)"
    "isl (ParsePeerGroupKey (fst r))" by (auto simp: relations_ok_def relations_parse_def)
  then have "\<not> prefix AllGroupCommandsPrefix (fst r)"
    by (auto simp: AllPeerGroupsPrefix_def AllGroupCommandsPrefix_def SystemKey_def prefix_def)
  with r(1) have "r \<in> set (kv s1)" by (simp add: s1_def)
  with r(2,3) have "\<not> relations_parse (kv s1) AllPeerGroupsPrefix ParsePeerGroupKey"
    unfolding relations_parse_def by blast
  moreover have "healthy s1" using assms(1) by (simp add: s1_def)
  ultimately obtain e s' where
    "deleteRelationsByGroupID AllPeerGroupsPrefix g ParsePeerGroupKey s1 = (Inl e, s')"
    using deleteRelations_error by (metis isl_def prod.collapse)
  then show ?thesis by (simp add: applyCascadeDelete_def bind_sto_def 1)
qed

end
