(* ===== verification/Shm_Txn.thy ===== *)
theory Shm_Txn
  imports KV_Prelude
begin

text \<open>
  Transaction payloads (src/pkg/shmevent/txn.go): the four op kinds, the length-prefixed op list
  a transaction's log entry carries, and its decoder. The lemmas show the decoder inverts
  the encoder on every op list the encoder accepts, and that every payload the decoder accepts is
  the encoding of what it returns, so the wire form of a transaction is unique.
\<close>

definition TxnOpSet :: byte where [simp]: "TxnOpSet = 1"
definition TxnOpDelete :: byte where [simp]: "TxnOpDelete = 2"
definition TxnOpCompare :: byte where [simp]: "TxnOpCompare = 3"
definition TxnOpCompareAbsent :: byte where [simp]: "TxnOpCompareAbsent = 4"

record TxnOpSpec =
  Op :: byte
  Key :: bytes
  Value :: bytes

definition IsCompare :: "TxnOpSpec \<Rightarrow> bool" where
  "IsCompare op \<longleftrightarrow> Op op = TxnOpCompare \<or> Op op = TxnOpCompareAbsent"

definition ValidTxnOp :: "byte \<Rightarrow> bool" where
  "ValidTxnOp op \<longleftrightarrow> op \<in> {TxnOpSet, TxnOpDelete, TxnOpCompare, TxnOpCompareAbsent}"

definition checkTxnOp :: "TxnOpSpec \<Rightarrow> unit res" where
  "checkTxnOp op =
     (if length (Key op) = 0 then Inl (Errorf ''shmevent: txn op has an empty key'')
      else if length (Key op) > 0xFFFF then Inl (Errorf ''shmevent: txn op key too long: %d bytes'')
      else if length (Value op) > 0xFFFF then Inl (Errorf ''shmevent: txn op value too long: %d bytes'')
      else if \<not> ValidTxnOp (Op op) then Inl (Errorf ''shmevent: txn op has unknown kind %d'')
      else Inr ())"

fun checkTxnOps :: "TxnOpSpec list \<Rightarrow> unit res" where
  "checkTxnOps [] = Inr ()"
| "checkTxnOps (op # ops) = bind_res (checkTxnOp op) (\<lambda>_. checkTxnOps ops)"

definition txnOpBytes :: "TxnOpSpec \<Rightarrow> bytes" where
  "txnOpBytes op = Op op # be16 (length (Key op)) @ Key op @ be16 (length (Value op)) @ Value op"

definition EncodeTxnPayload :: "TxnOpSpec list \<Rightarrow> bytes res" where
  "EncodeTxnPayload ops =
     (if length ops > 0xFFFF then Inl (Errorf ''shmevent: txn payload has too many ops: %d'')
      else bind_res (checkTxnOps ops) (\<lambda>_. Inr (be16 (length ops) @ concat (map txnOpBytes ops))))"

text \<open>The decoder's loop: \<open>n\<close> ops still to read, from offset \<open>off\<close> of the payload.\<close>

fun decodeTxnOps :: "nat \<Rightarrow> nat \<Rightarrow> bytes \<Rightarrow> (TxnOpSpec list \<times> nat) res" where
  "decodeTxnOps 0 off payload = Inr ([], off)"
| "decodeTxnOps (Suc n) off payload =
     (if off + 1 + 2 > length payload then Inl (Errorf ''shmevent: txn payload truncated at op %d'')
      else let op = payload ! off; keyLen = u16_at (off + 1) payload; koff = off + 3 in
        if koff + keyLen + 2 > length payload
        then Inl (Errorf ''shmevent: txn payload truncated reading op %d key'')
        else let key = slice koff (koff + keyLen) payload;
                 valueLen = u16_at (koff + keyLen) payload; voff = koff + keyLen + 2 in
          if voff + valueLen > length payload
          then Inl (Errorf ''shmevent: txn payload truncated reading op %d value'')
          else let value = slice voff (voff + valueLen) payload in
            bind_res (decodeTxnOps n (voff + valueLen) payload)
              (\<lambda>(ops, off'). Inr (\<lparr>Op = op, Key = key, Value = value\<rparr> # ops, off')))"

declare decodeTxnOps.simps(2) [simp del]

definition DecodeTxnPayload :: "bytes \<Rightarrow> TxnOpSpec list res" where
  "DecodeTxnPayload payload =
     (if length payload < 2 then Inl (Errorf ''shmevent: txn payload too short: %d bytes'')
      else bind_res (decodeTxnOps (u16_at 0 payload) 2 payload) (\<lambda>(ops, off).
        if off \<noteq> length payload then Inl (Errorf ''shmevent: txn payload has %d trailing bytes'')
        else Inr ops))"

subsection \<open>Round trips\<close>

definition txn_op_ok :: "TxnOpSpec \<Rightarrow> bool" where
  "txn_op_ok op \<longleftrightarrow> Key op \<noteq> [] \<and> length (Key op) \<le> 0xFFFF \<and> length (Value op) \<le> 0xFFFF \<and> ValidTxnOp (Op op)"

definition txn_op_sized :: "TxnOpSpec \<Rightarrow> bool" where
  "txn_op_sized op \<longleftrightarrow> length (Key op) \<le> 0xFFFF \<and> length (Value op) \<le> 0xFFFF"

lemma checkTxnOps_iff: "checkTxnOps ops = Inr () \<longleftrightarrow> list_all txn_op_ok ops"
proof (induction ops)
  case Nil
  then show ?case by simp
next
  case (Cons op ops)
  have "checkTxnOp op = Inr () \<longleftrightarrow> txn_op_ok op"
    by (simp add: checkTxnOp_def txn_op_ok_def not_less)
  with Cons show ?case by (cases "checkTxnOp op") auto
qed

lemma EncodeTxnPayload_Inr:
  "EncodeTxnPayload ops = Inr b \<longleftrightarrow>
     length ops \<le> 0xFFFF \<and> list_all txn_op_ok ops \<and> b = be16 (length ops) @ concat (map txnOpBytes ops)"
  using checkTxnOps_iff [of ops] by (cases "checkTxnOps ops") (auto simp: EncodeTxnPayload_def)

lemma length_txnOpBytes [simp]:
  "length (txnOpBytes op) = 5 + length (Key op) + length (Value op)"
  by (simp add: txnOpBytes_def)

lemma decodeTxnOps_step:
  assumes "txn_op_sized op"
  shows "decodeTxnOps (Suc n) (length pre) (pre @ txnOpBytes op @ post) =
    bind_res (decodeTxnOps n (length pre + length (txnOpBytes op)) (pre @ txnOpBytes op @ post))
      (\<lambda>(ops, off'). Inr (op # ops, off'))"
proof -
  let ?p = "pre @ txnOpBytes op @ post" and ?o = "length pre"
  let ?k = "length (Key op)" and ?v = "length (Value op)"
  have sized: "?k \<le> 65535" "?v \<le> 65535" using assms by (simp_all add: txn_op_sized_def)
  have p1: "?p = (pre @ [Op op]) @ be16 ?k @ Key op @ be16 ?v @ Value op @ post"
    and p2: "?p = (pre @ [Op op] @ be16 ?k @ Key op) @ be16 ?v @ Value op @ post"
    and p3: "?p = (pre @ [Op op] @ be16 ?k) @ Key op @ be16 ?v @ Value op @ post"
    and p4: "?p = (pre @ [Op op] @ be16 ?k @ Key op @ be16 ?v) @ Value op @ post"
    by (simp_all add: txnOpBytes_def)
  have "?p ! ?o = Op op" by (simp add: txnOpBytes_def)
  moreover have "u16_at (?o + 1) ?p = ?k"
    unfolding p1 by (subst u16_at_mid) (use sized in simp_all)
  moreover have "u16_at (?o + 3 + ?k) ?p = ?v"
    unfolding p2 by (subst u16_at_mid) (use sized in simp_all)
  moreover have "slice (?o + 3) (?o + 3 + ?k) ?p = Key op"
    unfolding p3 by (rule slice_mid) simp_all
  moreover have "slice (?o + 3 + ?k + 2) (?o + 3 + ?k + 2 + ?v) ?p = Value op"
    unfolding p4 by (rule slice_mid) simp_all
  moreover have "?o + 3 + ?k + 2 + ?v = ?o + length (txnOpBytes op)" by simp
  ultimately show ?thesis
    by (cases op) (simp add: decodeTxnOps.simps(2) Let_def ac_simps)
qed

lemma decodeTxnOps_encode:
  assumes "list_all txn_op_sized ops"
  shows "decodeTxnOps (length ops) (length pre) (pre @ concat (map txnOpBytes ops) @ post) =
    Inr (ops, length pre + length (concat (map txnOpBytes ops)))"
  using assms
proof (induction ops arbitrary: pre)
  case Nil
  then show ?case by simp
next
  case (Cons op ops)
  have "decodeTxnOps (length ops) (length (pre @ txnOpBytes op))
      ((pre @ txnOpBytes op) @ concat (map txnOpBytes ops) @ post) =
      Inr (ops, length (pre @ txnOpBytes op) + length (concat (map txnOpBytes ops)))"
    by (rule Cons.IH) (use Cons.prems in simp)
  with decodeTxnOps_step [of op "length ops" pre "concat (map txnOpBytes ops) @ post"] Cons.prems
  show ?case by simp
qed

lemma DecodeTxn_Encode [codec_simps]:
  assumes "EncodeTxnPayload ops = Inr b"
  shows "DecodeTxnPayload b = Inr ops"
proof -
  from assms have n: "length ops \<le> 65535" and ok: "list_all txn_op_ok ops"
    and b: "b = be16 (length ops) @ concat (map txnOpBytes ops)"
    by (simp_all add: EncodeTxnPayload_Inr)
  have "list_all txn_op_sized ops"
    using ok by (auto simp: list_all_iff txn_op_ok_def txn_op_sized_def)
  from decodeTxnOps_encode [OF this, of "be16 (length ops)" "[]"] n b show ?thesis
    by (simp add: DecodeTxnPayload_def)
qed

interpretation txn: codec EncodeTxnPayload DecodeTxnPayload
  "\<lambda>ops. length ops \<le> 0xFFFF \<and> list_all txn_op_ok ops"
  by unfold_locales (auto simp: codec_simps EncodeTxnPayload_Inr)

lemma decodeTxnOps_sound:
  assumes "decodeTxnOps n off payload = Inr (ops, off')" "off \<le> length payload"
  shows "length ops = n \<and> off' \<le> length payload \<and> list_all txn_op_sized ops
    \<and> drop off payload = concat (map txnOpBytes ops) @ drop off' payload"
  using assms
proof (induction n arbitrary: off ops)
  case 0
  then show ?case by simp
next
  case (Suc n)
  define k where "k = u16_at (off + 1) payload"
  define v where "v = u16_at (off + 3 + k) payload"
  define op where "op = \<lparr>Op = payload ! off, Key = slice (off + 3) (off + 3 + k) payload,
    Value = slice (off + 3 + k + 2) (off + 3 + k + 2 + v) payload\<rparr>"
  from Suc.prems(1) obtain ops' where b: "off + 3 + k + 2 + v \<le> length payload"
    and rest: "decodeTxnOps n (off + 3 + k + 2 + v) payload = Inr (ops', off')" and ops: "ops = op # ops'"
    by (auto simp: decodeTxnOps.simps(2) Let_def bind_res_def k_def v_def op_def split: if_splits sum.splits)
  note IH = Suc.IH [OF rest b]
  have lk: "length (Key op) = k" and lv: "length (Value op) = v"
    using b by (simp_all add: op_def length_slice)
  have sized: "txn_op_sized op"
    using u16_at_less [of "off + 1" payload] u16_at_less [of "off + 3 + k" payload] lk lv
    by (simp add: txn_op_sized_def k_def v_def)
  have "drop off payload = Op op # drop (off + 1) payload"
    using b Cons_nth_drop_Suc [of off payload] by (simp add: op_def)
  also have "drop (off + 1) payload = be16 k @ drop (off + 3) payload"
    using drop_u16 [of "off + 1" payload] b by (simp add: k_def eval_nat_numeral)
  also have "drop (off + 3) payload = Key op @ drop (off + 3 + k) payload"
    unfolding op_def TxnOpSpec.select_convs by (rule drop_slice) simp
  also have "drop (off + 3 + k) payload = be16 v @ drop (off + 3 + k + 2) payload"
    using drop_u16 [of "off + 3 + k" payload] b by (simp only: v_def)
  also have "drop (off + 3 + k + 2) payload = Value op @ drop (off + 3 + k + 2 + v) payload"
    unfolding op_def TxnOpSpec.select_convs by (rule drop_slice) simp
  finally have "drop off payload = txnOpBytes op @ drop (off + 3 + k + 2 + v) payload"
    by (simp add: txnOpBytes_def lk lv)
  with IH sized ops show ?case by simp
qed

lemma Encode_DecodeTxn:
  assumes "DecodeTxnPayload b = Inr ops"
  shows "b = be16 (length ops) @ concat (map txnOpBytes ops)"
proof -
  from assms have l: "2 \<le> length b" and d: "decodeTxnOps (u16_at 0 b) 2 b = Inr (ops, length b)"
    by (auto simp: DecodeTxnPayload_def bind_res_def split: if_splits sum.splits)
  from decodeTxnOps_sound [OF d l] have "length ops = u16_at 0 b" "drop 2 b = concat (map txnOpBytes ops)" by simp_all
  with drop_u16 [of 0 b] l show ?thesis by (simp add: numeral_2_eq_2)
qed

subsection \<open>Properties\<close>

text \<open>
  Transaction payloads round-trip in both directions: every op list the encoder
  accepts decodes to itself, and every payload the decoder accepts is the one byte string that
  encodes the ops it returned, so two replicas that decode the same entry cannot disagree
  and no two payloads mean the same transaction.
\<close>

theorem txn_payload_bijective:
  "(EncodeTxnPayload ops = Inr b \<longrightarrow> DecodeTxnPayload b = Inr ops) \<and>
   (DecodeTxnPayload b = Inr ops \<and> list_all txn_op_ok ops \<longrightarrow> EncodeTxnPayload ops = Inr b)"
proof -
  have "EncodeTxnPayload ops = Inr b" if d: "DecodeTxnPayload b = Inr ops" and ok: "list_all txn_op_ok ops"
  proof -
    from d have "decodeTxnOps (u16_at 0 b) 2 b = Inr (ops, length b)" "2 \<le> length b"
      by (auto simp: DecodeTxnPayload_def bind_res_def split: if_splits sum.splits)
    then have "length ops = u16_at 0 b" using decodeTxnOps_sound by blast
    then have "length ops \<le> 0xFFFF" using u16_at_less [of 0 b] by simp
    with ok Encode_DecodeTxn [OF d] show ?thesis by (simp add: EncodeTxnPayload_Inr)
  qed
  then show ?thesis by (auto simp: codec_simps)
qed

theorem txn_payload_bijective_witness:
  "DecodeTxnPayload [0, 1, 1, 0, 1, 7, 0, 2, 8, 9] = Inr [\<lparr>Op = 1, Key = [7], Value = [8, 9]\<rparr>]"
  using txn_payload_bijective [of "[\<lparr>Op = 1, Key = [7], Value = [8, 9]\<rparr>]" "[0, 1, 1, 0, 1, 7, 0, 2, 8, 9]"]
  by (simp add: EncodeTxnPayload_Inr txn_op_ok_def ValidTxnOp_def txnOpBytes_def be16_def)

end
