(* ===== verification/Shm_Invite.thy ===== *)
theory Shm_Invite
  imports Shm_Catalog
begin

text \<open>
  Invites and command requests (src/pkg/shmevent/joininvite.go, execinvite.go,
  commandrequest.go, bootstrapnode.go): invite keys and records, the kinds of command log
  records, and the payload that carries a command request's authenticated author. The lemmas
  show the round trips, the bound on the command id the exec-invite record needs (which its
  encoder does not check), and that the two log-kind families never overlap.
\<close>

subsection \<open>Join invites\<close>

definition joinInviteStatusPlaceholder :: byte where [simp]: "joinInviteStatusPlaceholder = 0x00"
definition JoinInviteTokenSize :: nat where [simp]: "JoinInviteTokenSize = 16"

definition JoinInviteKey :: "bytes \<Rightarrow> bytes" where
  "JoinInviteKey token = SystemKey KindJoinInvite joinInviteStatusPlaceholder token"

definition EncodeJoinInviteRecord :: "byte \<Rightarrow> bytes" where
  "EncodeJoinInviteRecord suffrage = [suffrage]"

definition DecodeJoinInviteRecord :: "bytes \<Rightarrow> byte res" where
  "DecodeJoinInviteRecord payload =
     (if length payload \<noteq> 1 then Inl (Errorf ''shmevent: join invite record must be 1 byte, got %d'')
      else Inr (payload ! 0))"

subsection \<open>Exec invites\<close>

definition execInviteStatusPlaceholder :: byte where [simp]: "execInviteStatusPlaceholder = 0x00"
definition ExecInviteTokenSize :: nat where [simp]: "ExecInviteTokenSize = 16"

definition ExecInviteKey :: "bytes \<Rightarrow> bytes" where
  "ExecInviteKey token = SystemKey KindExecInvite execInviteStatusPlaceholder token"

definition execInviteRecordV2Marker :: nat where [simp]: "execInviteRecordV2Marker = 0xFFFF"

text \<open>The expiry is a \<^verbatim>\<open>uint64\<close> of unix seconds, 0 for none.\<close>

definition EncodeExecInviteRecord :: "gostring \<Rightarrow> gostring \<Rightarrow> 64 word \<Rightarrow> bytes" where
  "EncodeExecInviteRecord commandID inputsJSON expiresAtUnix =
     (if expiresAtUnix = 0 then be16 (length commandID) @ commandID @ inputsJSON
      else [0xFF, 0xFF] @ be64 (unat expiresAtUnix) @ be16 (length commandID) @ commandID @ inputsJSON)"

definition DecodeExecInviteRecord :: "bytes \<Rightarrow> (gostring \<times> gostring \<times> 64 word) res" where
  "DecodeExecInviteRecord payload =
     (if length payload < 2 then Inl (Errorf ''shmevent: exec invite record too short: %d bytes'')
      else let cmdLen = u16_at 0 payload in
        if cmdLen = execInviteRecordV2Marker then
          (if length payload < 12 then Inl (Errorf ''shmevent: exec invite record too short for v2 header: %d bytes'')
           else let expiresAtUnix = word_of_nat (be_dec (slice 2 10 payload));
                    realCmdLen = u16_at 10 payload; off = 12 in
             if off + realCmdLen > length payload
             then Inl (Errorf ''shmevent: exec invite record commandID length %d exceeds payload size %d'')
             else Inr (slice off (off + realCmdLen) payload, drop (off + realCmdLen) payload, expiresAtUnix))
        else if 2 + cmdLen > length payload
        then Inl (Errorf ''shmevent: exec invite record commandID length %d exceeds payload size %d'')
        else Inr (slice 2 (2 + cmdLen) payload, drop (2 + cmdLen) payload, 0))"

subsection \<open>Command requests\<close>

definition CommandRequestLogKindPrefix :: gostring where
  "CommandRequestLogKindPrefix = str ''cmdreq:''"

definition CommandRequestLogKind :: "gostring \<Rightarrow> gostring" where
  "CommandRequestLogKind commandID = CommandRequestLogKindPrefix @ commandID"

definition ParseCommandRequestLogKind :: "gostring \<Rightarrow> gostring option" where
  "ParseCommandRequestLogKind kind =
     (if \<not> prefix CommandRequestLogKindPrefix kind then None
      else Some (drop (length CommandRequestLogKindPrefix) kind))"

definition CommandExecIndexKindPrefix :: gostring where
  "CommandExecIndexKindPrefix = str ''cmdexec:''"

definition CommandExecIndexKind :: "gostring \<Rightarrow> gostring" where
  "CommandExecIndexKind peerID = CommandExecIndexKindPrefix @ peerID"

definition ParseCommandExecIndexKind :: "gostring \<Rightarrow> gostring option" where
  "ParseCommandExecIndexKind kind =
     (if \<not> prefix CommandExecIndexKindPrefix kind then None
      else Some (drop (length CommandExecIndexKindPrefix) kind))"

definition CommandExecLogKind :: gostring where
  "CommandExecLogKind = str ''cmdlog''"

definition EncodeCommandRequestApplyPayload :: "gostring \<Rightarrow> bytes \<Rightarrow> bytes res" where
  "EncodeCommandRequestApplyPayload authorPeerID recordValue =
     (if 0xFFFF < length authorPeerID
      then Inl (Errorf ''shmevent: command request author peer id too long: %d bytes'')
      else Inr (be16 (length authorPeerID) @ authorPeerID @ recordValue))"

definition DecodeCommandRequestApplyPayload :: "bytes \<Rightarrow> (gostring \<times> bytes) res" where
  "DecodeCommandRequestApplyPayload payload =
     (if length payload < 2 then Inl (Errorf ''shmevent: command request apply payload too short: %d bytes'')
      else let idLen = u16_at 0 payload in
        if 2 + idLen > length payload
        then Inl (Errorf ''shmevent: command request author peer id length %d exceeds payload size %d'')
        else Inr (slice 2 (2 + idLen) payload, drop (2 + idLen) payload))"

definition bootstrapNodeStatusPlaceholder :: byte where
  [simp]: "bootstrapNodeStatusPlaceholder = StatusConfirmed"

definition BootstrapNodeKeyBounds :: "bytes \<times> bytes" where
  "BootstrapNodeKeyBounds =
     (let p = SystemKey KindBootstrapNode bootstrapNodeStatusPlaceholder [] in (p, pad_hi p))"

subsection \<open>Round trips\<close>

lemma DecodeJoinInvite_Encode [codec_simps]:
  "DecodeJoinInviteRecord (EncodeJoinInviteRecord suffrage) = Inr suffrage"
  by (simp add: DecodeJoinInviteRecord_def EncodeJoinInviteRecord_def)

interpretation joininvite: codec "\<lambda>s. Inr (EncodeJoinInviteRecord s)" DecodeJoinInviteRecord "\<lambda>_. True"
  by unfold_locales (auto simp: codec_simps)

lemma word64_of_nat_unat: "word_of_nat (unat w mod 18446744073709551616) = (w :: 64 word)"
proof -
  have "unat w < 18446744073709551616" using unsigned_less [of w, where ?'a = nat] by simp
  then show ?thesis by simp
qed

text \<open>
  The record round-trips for command ids shorter than 0xFFFF bytes; without an expiry, a
  command id of exactly 0xFFFF bytes is read back as the versioned layout.
\<close>

lemma DecodeExecInvite_Encode [codec_simps]:
  assumes "length commandID < 0xFFFF"
  shows "DecodeExecInviteRecord (EncodeExecInviteRecord commandID inputsJSON expires) =
    Inr (commandID, inputsJSON, expires)"
proof (cases "expires = 0")
  case True
  with assms show ?thesis
    by (simp add: DecodeExecInviteRecord_def EncodeExecInviteRecord_def slice_def Let_def)
next
  case False
  let ?b = "be16 0xFFFF @ be64 (unat expires) @ be16 (length commandID) @ commandID @ inputsJSON"
  have b: "EncodeExecInviteRecord commandID inputsJSON expires = ?b"
    using False by (simp add: EncodeExecInviteRecord_def be16_sentinel [symmetric])
  have e: "word_of_nat (be_dec (slice 2 10 ?b)) = expires"
    by (subst slice_mid) (simp_all add: word64_of_nat_unat)
  have l: "u16_at 10 ?b = length commandID" using assms by (simp add: u16_at_append)
  have c: "slice 12 (12 + length commandID) ?b = commandID" by (simp add: slice_append)
  show ?thesis unfolding b using e l c by (simp add: DecodeExecInviteRecord_def Let_def)
qed

interpretation execinvite: codec "\<lambda>(c, i, e). Inr (EncodeExecInviteRecord c i e)" DecodeExecInviteRecord
  "\<lambda>(c, i, e). length c < 0xFFFF"
  by unfold_locales (auto simp: codec_simps)

lemma DecodeCommandRequest_Encode [codec_simps]:
  "EncodeCommandRequestApplyPayload author v = Inr b \<Longrightarrow> DecodeCommandRequestApplyPayload b = Inr (author, v)"
  by (auto simp: EncodeCommandRequestApplyPayload_def DecodeCommandRequestApplyPayload_def slice_def Let_def
      split: if_splits)

interpretation cmdreq: codec "\<lambda>(a, v). EncodeCommandRequestApplyPayload a v" DecodeCommandRequestApplyPayload
  "\<lambda>(a, v). length a \<le> 0xFFFF"
  by unfold_locales (auto simp: codec_simps EncodeCommandRequestApplyPayload_def)

lemma ParseCommandRequestLogKind_iff [codec_simps]:
  "ParseCommandRequestLogKind kind = Some c \<longleftrightarrow> kind = CommandRequestLogKind c"
  by (auto simp: ParseCommandRequestLogKind_def CommandRequestLogKind_def prefix_def)

lemma ParseCommandExecIndexKind_iff [codec_simps]:
  "ParseCommandExecIndexKind kind = Some p \<longleftrightarrow> kind = CommandExecIndexKind p"
  by (auto simp: ParseCommandExecIndexKind_def CommandExecIndexKind_def prefix_def)

lemma log_kinds_disjoint:
  "CommandRequestLogKind c \<noteq> CommandExecIndexKind p" "CommandRequestLogKind c \<noteq> CommandExecLogKind"
  "CommandExecIndexKind p \<noteq> CommandExecLogKind"
  by (simp_all add: CommandRequestLogKind_def CommandExecIndexKind_def CommandRequestLogKindPrefix_def
      CommandExecIndexKindPrefix_def CommandExecLogKind_def str_Cons)

end
