(* ===== verification/Log_Record.thy ===== *)
theory Log_Record
  imports KV_Prelude
begin

text \<open>
  Keys of the replicated log records (src/pkg/logrecord/key.go): one log stream per kind and
  unit, ordered by time, with random trailing bytes. A timestamp is its \<^verbatim>\<open>UnixNano\<close>, a
  64-bit two's-complement word. The lemmas show the key parses back, that distinct streams
  never share a prefix, and that \<^verbatim>\<open>ScanBounds\<close> selects exactly a time window of one stream.
\<close>

definition LogKeyPrefix :: byte where [simp]: "LogKeyPrefix = 0x01"
definition maxFieldLen :: nat where [simp]: "maxFieldLen = 0xFFFF"
definition RandSize :: nat where [simp]: "RandSize = 8"

definition BuildKey :: "gostring \<Rightarrow> gostring \<Rightarrow> 64 word \<Rightarrow> bytes \<Rightarrow> bytes res" where
  "BuildKey kind unitID ts rnd =
     (if length kind > maxFieldLen then Inl (Errorf ''logrecord: kind too long: %d bytes'')
      else if length unitID > maxFieldLen then Inl (Errorf ''logrecord: unitID too long: %d bytes'')
      else Inr ([LogKeyPrefix] @ be16 (length kind) @ kind @ be16 (length unitID) @ unitID @
                be64 (unat ts) @ rnd))"

definition ParseKey :: "bytes \<Rightarrow> (gostring \<times> gostring \<times> 64 word) res" where
  "ParseKey key =
     (if length key < 1 \<or> key ! 0 \<noteq> LogKeyPrefix then Inl (Errorf ''logrecord: key missing LogKeyPrefix'')
      else if 1 + 2 > length key then Inl (Errorf ''logrecord: key truncated before kind length'')
      else let kindLen = u16_at 1 key; off = 3 in
        if off + kindLen > length key then Inl (Errorf ''logrecord: key truncated in kind'')
        else let kind = slice off (off + kindLen) key; off = off + kindLen in
          if off + 2 > length key then Inl (Errorf ''logrecord: key truncated before unitID length'')
          else let unitIDLen = u16_at off key; off = off + 2 in
            if off + unitIDLen > length key then Inl (Errorf ''logrecord: key truncated in unitID'')
            else let unitID = slice off (off + unitIDLen) key; off = off + unitIDLen in
              if off + 8 > length key then Inl (Errorf ''logrecord: key truncated before timestamp'')
              else Inr (kind, unitID, word_of_nat (be_dec (slice off (off + 8) key))))"

definition kindUnitPrefix :: "gostring \<Rightarrow> gostring \<Rightarrow> bytes" where
  "kindUnitPrefix kind unitID =
     [LogKeyPrefix] @ be16 (length kind) @ kind @ be16 (length unitID) @ unitID"

definition nonNegativeUnixNano :: "64 word \<Rightarrow> 64 word" where
  "nonNegativeUnixNano ns = (if 0 < sint ns then ns else 0)"

definition ScanBounds :: "gostring \<Rightarrow> gostring \<Rightarrow> 64 word \<Rightarrow> 64 word \<Rightarrow> bytes \<times> bytes" where
  "ScanBounds kind unitID start stop =
     (let p = kindUnitPrefix kind unitID in
      (p @ be64 (unat (nonNegativeUnixNano start)),
       p @ be64 (unat (nonNegativeUnixNano stop)) @ replicate RandSize 0xFF))"

definition KindPrefix :: "gostring \<Rightarrow> bytes" where
  "KindPrefix kind = [LogKeyPrefix] @ be16 (length kind) @ kind"

definition AllPrefix :: bytes where
  "AllPrefix = [LogKeyPrefix]"

subsection \<open>Lemmas\<close>

lemma unat_64_less [simp]: "unat (w :: 64 word) < 18446744073709551616"
  using unsigned_less [of w, where ?'a = nat] by simp

lemma be_dec_be64_unat [simp]: "word_of_nat (be_dec (be64 (unat w))) = (w :: 64 word)"
  by simp

lemma BuildKey_Inr:
  "BuildKey kind unitID ts rnd = Inr k \<longleftrightarrow> length kind \<le> 0xFFFF \<and> length unitID \<le> 0xFFFF \<and>
     k = kindUnitPrefix kind unitID @ be64 (unat ts) @ rnd"
  by (auto simp: BuildKey_def kindUnitPrefix_def)

lemma kindUnitPrefix_inject:
  assumes "length kind \<le> 0xFFFF" "length kind' \<le> 0xFFFF" "length u \<le> 0xFFFF" "length u' \<le> 0xFFFF"
  shows "kindUnitPrefix kind u @ r = kindUnitPrefix kind' u' @ r' \<longleftrightarrow> kind = kind' \<and> u = u' \<and> r = r'"
  using assms by (simp add: kindUnitPrefix_def field16_inject del: append_eq_append_conv)

lemma ParseKey_BuildKey [codec_simps]:
  assumes "BuildKey kind unitID ts rnd = Inr k"
  shows "ParseKey k = Inr (kind, unitID, ts)"
proof -
  let ?n = "length kind" and ?u = "length unitID"
  from assms have l: "?n \<le> 65535" "?u \<le> 65535"
    and k: "k = [1] @ be16 ?n @ kind @ be16 ?u @ unitID @ be64 (unat ts) @ rnd"
    by (auto simp: BuildKey_Inr kindUnitPrefix_def)
  have k2: "k = ([1] @ be16 ?n @ kind) @ be16 ?u @ unitID @ be64 (unat ts) @ rnd"
    and k3: "k = ([1] @ be16 ?n @ kind @ be16 ?u) @ unitID @ be64 (unat ts) @ rnd"
    and k4: "k = ([1] @ be16 ?n @ kind @ be16 ?u @ unitID) @ be64 (unat ts) @ rnd"
    and k5: "k = ([1] @ be16 ?n) @ kind @ be16 ?u @ unitID @ be64 (unat ts) @ rnd"
    by (simp_all add: k)
  have "u16_at 1 k = ?n" unfolding k by (subst u16_at_mid) (use l in simp_all)
  moreover have "slice 3 (3 + ?n) k = kind" unfolding k5 by (rule slice_mid) simp_all
  moreover have "u16_at (3 + ?n) k = ?u" unfolding k2 by (subst u16_at_mid) (use l in simp_all)
  moreover have "slice (3 + ?n + 2) (3 + ?n + 2 + ?u) k = unitID" unfolding k3 by (rule slice_mid) simp_all
  moreover have "slice (3 + ?n + 2 + ?u) (3 + ?n + 2 + ?u + 8) k = be64 (unat ts)"
    unfolding k4 by (rule slice_mid) simp_all
  moreover have "length k = 1 + 2 + ?n + 2 + ?u + 8 + length rnd" "k ! 0 = 1" unfolding k by simp_all
  ultimately show ?thesis by (simp add: ParseKey_def Let_def)
qed

lemma log_key_head:
  "BuildKey kind unitID ts rnd = Inr k \<Longrightarrow> prefix AllPrefix k \<and> prefix (KindPrefix kind) k"
  by (auto simp: BuildKey_Inr kindUnitPrefix_def AllPrefix_def KindPrefix_def)

lemma KindPrefix_iff:
  assumes "length kind \<le> 0xFFFF" "BuildKey kind' unitID ts rnd = Inr k"
  shows "prefix (KindPrefix kind) k \<longleftrightarrow> kind = kind'"
proof
  assume "prefix (KindPrefix kind) k"
  then obtain r where "k = KindPrefix kind @ r" by (auto simp: prefix_def)
  with assms show "kind = kind'"
    by (auto simp: BuildKey_Inr kindUnitPrefix_def KindPrefix_def field16_inject simp del: append_eq_append_conv)
next
  assume "kind = kind'"
  with log_key_head [OF assms(2)] show "prefix (KindPrefix kind) k" by simp
qed

lemma be64_less_iff: "m < 18446744073709551616 \<Longrightarrow> n < 18446744073709551616 \<Longrightarrow> be64 m < be64 n \<longleftrightarrow> m < n"
  unfolding be64_enc by (rule be_enc_less_iff) simp_all

lemma be64_eq_iff:
  assumes "m < 18446744073709551616" "n < 18446744073709551616"
  shows "be64 m = be64 n \<longleftrightarrow> m = n"
proof
  assume "be64 m = be64 n"
  then have "be_dec (be64 m) = be_dec (be64 n)" by simp
  with assms show "m = n" by (simp only: be_dec_64 mod_less)
qed simp

text \<open>In the unsigned order of the key bytes, clamped bounds compare as signed timestamps do.\<close>

lemma uint_of_sint: "uint (w :: 64 word) = (if 0 \<le> sint w then sint w else sint w + 18446744073709551616)"
proof -
  have lo: "- (2 ^ 63) \<le> sint w" and hi: "sint w < 2 ^ 63"
    using sint_greater_eq [of w] sint_less [of w] by simp_all
  have m: "uint w = sint w mod 18446744073709551616"
    using uint_sint [of w] by (simp add: take_bit_eq_mod)
  show ?thesis
  proof (cases "0 \<le> sint w")
    case True
    with m hi show ?thesis by (simp add: mod_pos_pos_trivial)
  next
    case False
    have "sint w mod 18446744073709551616 = (sint w + 18446744073709551616) mod 18446744073709551616" by simp
    also have "\<dots> = sint w + 18446744073709551616" using False lo by (intro mod_pos_pos_trivial) simp_all
    finally show ?thesis using m False by simp
  qed
qed

lemma nonNegativeUnixNano_le:
  fixes s t e :: "64 word"
  shows "unat (nonNegativeUnixNano s) \<le> unat t \<and> unat t \<le> unat (nonNegativeUnixNano e) \<longleftrightarrow>
     0 \<le> sint t \<and> max 0 (sint s) \<le> sint t \<and> sint t \<le> max 0 (sint e)"
proof -
  have n: "uint (nonNegativeUnixNano w) = max 0 (sint w)" for w
    using uint_of_sint [of w] by (simp add: nonNegativeUnixNano_def)
  have u: "unat a \<le> unat b \<longleftrightarrow> uint a \<le> uint b" for a b :: "64 word"
    by (simp only: word_le_nat_alt [symmetric] word_le_def)
  have hi: "sint e < 2 ^ 63" and lo: "- (2 ^ 63) \<le> sint t"
    using sint_less [of e] sint_greater_eq [of t] by simp_all
  show ?thesis unfolding u n uint_of_sint [of t] using hi lo by auto
qed

lemma ScanBounds_iff:
  assumes "length kind \<le> 0xFFFF" "length unitID \<le> 0xFFFF"
    and "BuildKey kind' unitID' ts rnd = Inr k" "length rnd = RandSize"
    and "ScanBounds kind unitID start stop = (lo, hi)"
  shows "lo \<le> k \<and> k \<le> hi \<longleftrightarrow> kind' = kind \<and> unitID' = unitID \<and>
    unat (nonNegativeUnixNano start) \<le> unat ts \<and> unat ts \<le> unat (nonNegativeUnixNano stop)"
proof -
  let ?p = "kindUnitPrefix kind unitID"
  let ?s = "unat (nonNegativeUnixNano start)" and ?e = "unat (nonNegativeUnixNano stop)"
  have lo: "lo = ?p @ be64 ?s @ []" and hi: "hi = ?p @ be64 ?e @ replicate 8 0xFF"
    using assms(5) by (auto simp: ScanBounds_def Let_def)
  have k: "k = kindUnitPrefix kind' unitID' @ be64 (unat ts) @ rnd"
    and l': "length kind' \<le> 0xFFFF" "length unitID' \<le> 0xFFFF"
    using assms(3) by (simp_all add: BuildKey_Inr)
  have same: "kind' = kind \<and> unitID' = unitID" if "prefix ?p k"
  proof -
    from that obtain r where "kindUnitPrefix kind' unitID' @ be64 (unat ts) @ rnd = ?p @ r"
      by (auto simp: prefix_def k)
    then show ?thesis using assms(1,2) l' by (simp only: kindUnitPrefix_inject)
  qed
  have inside: "lo \<le> k \<and> k \<le> hi \<longleftrightarrow> ?s \<le> unat ts \<and> unat ts \<le> ?e" if "kind' = kind" "unitID' = unitID"
  proof -
    have "lo \<le> k \<longleftrightarrow> be64 ?s < be64 (unat ts) \<or> be64 ?s = be64 (unat ts)"
      unfolding lo k that append_le_cancel by (subst append_le_same_length) simp_all
    moreover have "rnd \<le> replicate 8 0xFF" using assms(4) by (simp add: le_replicate_FF)
    then have "k \<le> hi \<longleftrightarrow> be64 (unat ts) < be64 ?e \<or> be64 (unat ts) = be64 ?e"
      unfolding hi k that append_le_cancel by (subst append_le_same_length) simp_all
    ultimately show ?thesis by (simp add: be64_less_iff be64_eq_iff le_less)
  qed
  show ?thesis
  proof (cases "kind' = kind \<and> unitID' = unitID")
    case True
    with inside show ?thesis by simp
  next
    case False
    with same have "\<not> prefix ?p k" by blast
    with between_prefix [of ?p] lo hi have "\<not> (lo \<le> k \<and> k \<le> hi)" by blast
    with False show ?thesis by auto
  qed
qed

subsection \<open>Properties\<close>

text \<open>
  A log key parses back to the kind, unit and timestamp it was built from, for every
  64-bit timestamp and whatever bytes the kind and unit contain, so no two streams share a key.
\<close>

theorem log_key_round_trip:
  assumes "length kind \<le> 0xFFFF" "length unitID \<le> 0xFFFF"
  shows "bind_res (BuildKey kind unitID ts rnd) ParseKey = Inr (kind, unitID, ts)"
proof -
  obtain k where k: "BuildKey kind unitID ts rnd = Inr k" using assms by (simp add: BuildKey_Inr)
  with ParseKey_BuildKey [OF k] show ?thesis by simp
qed

theorem log_key_round_trip_witness:
  "bind_res (BuildKey [1, 0] [] (- 5) (replicate 8 0)) ParseKey = Inr ([1, 0], [], - 5)"
  using log_key_round_trip [of "[1, 0]" "[]" "- 5" "replicate 8 0"] by simp

text \<open>
  C30. ScanBounds is exact: a log key lies in the range for a kind, a unit and a time window
  precisely when it belongs to that very stream and its timestamp is in the window, bounds
  included, where a bound before 1970 counts as the epoch. A stream whose kind merely
  extends another's never leaks into its range.
\<close>

theorem ScanBounds_exact:
  assumes "length kind \<le> 0xFFFF" "length unitID \<le> 0xFFFF"
    and "BuildKey kind' unitID' ts rnd = Inr k" "length rnd = RandSize"
    and "ScanBounds kind unitID start stop = (lo, hi)"
  shows "lo \<le> k \<and> k \<le> hi \<longleftrightarrow> kind' = kind \<and> unitID' = unitID \<and>
    0 \<le> sint ts \<and> max 0 (sint start) \<le> sint ts \<and> sint ts \<le> max 0 (sint stop)"
  using ScanBounds_iff [OF assms] nonNegativeUnixNano_le [of start ts stop] by simp

theorem ScanBounds_exact_witness:
  "\<exists>k. BuildKey [7] [8] 20 (replicate 8 0xFF) = Inr k \<and> fst (ScanBounds [7] [8] 10 20) \<le> k
     \<and> k \<le> snd (ScanBounds [7] [8] 10 20)"
proof -
  obtain k where k: "BuildKey [7] [8] 20 (replicate 8 0xFF) = Inr k" by (simp add: BuildKey_Inr)
  obtain lo hi where b: "ScanBounds [7] [8] 10 20 = (lo, hi)" by fastforce
  from ScanBounds_exact [OF _ _ k _ b] k b show ?thesis by simp
qed

end
