(* ===== verification/FSM_Apply.thy ===== *)
theory FSM_Apply
  imports FSM_Encoding FSM_Cascade Shm_Txn Shm_Invite Log_Record
begin

text \<open>
  The replicated state machine (src/pkg/kvfsm/fsm.go): one definition per operation of
  \<^verbatim>\<open>Apply\<close>, the dispatcher, and snapshot and restore. An \<^verbatim>\<open>ApplyResult\<close> is a sum:
  \<open>Inl\<close> its error, \<open>Inr\<close> its value. The lemmas show that no operation leaves a half-written
  table under any fault schedule, that the table's key order is kept, what each
  operation does on a healthy disk, and that a log run and a snapshot restore agree.
\<close>

text \<open>\<open>AppendedAt\<close> is \<^verbatim>\<open>uint64(l.AppendedAt.Unix())\<close>, the leader's clock in seconds.\<close>

record raft_log =
  Data :: bytes
  AppendedAt :: "64 word"

subsection \<open>The operations\<close>

definition applySet :: "limits \<Rightarrow> bytes \<Rightarrow> bytes \<Rightarrow> bytes sto" where
  "applySet lim key value =
     bind_sto (checkSystemListCap lim key) (\<lambda>_.
     bind_sto (checkGroupNameUnique key value) (\<lambda>_.
     bind_sto (preserveCommandSpec key value) (\<lambda>v.
     bind_sto (set_kv key v) (\<lambda>_. ret []))))"

definition applyDel :: "bytes \<Rightarrow> bytes sto" where
  "applyDel key = bind_sto (del key) (\<lambda>_. ret [])"

definition applyConfirm :: "limits \<Rightarrow> bytes \<Rightarrow> bytes \<Rightarrow> bytes sto" where
  "applyConfirm lim key value =
     bind_sto (wrap_sto ''kvfsm: confirm: no pending record at key: %w'' (get key)) (\<lambda>v.
     bind_sto (checkSystemListCap lim value) (\<lambda>_.
     bind_sto (WithTx (bind_sto (set_kv value v) (\<lambda>_. del key))) (\<lambda>_. ret [])))"

definition applyCascade :: "bytes \<Rightarrow> bytes sto" where
  "applyCascade key = bind_sto (WithTx (applyCascadeDelete key)) (\<lambda>_. ret [])"

definition applyConsumeInvite :: "bytes \<Rightarrow> bytes sto" where
  "applyConsumeInvite key =
     bind_sto (wrap_sto ''kvfsm: consume invite: no such invite: %w'' (get key)) (\<lambda>v.
     bind_sto (del key) (\<lambda>_. ret v))"

definition token_expired :: error where
  "token_expired = Errorf ''kvfsm: consume exec invite: token expired''"

definition applyConsumeExecInvite :: "64 word \<Rightarrow> bytes \<Rightarrow> bytes \<Rightarrow> bytes sto" where
  "applyConsumeExecInvite now key value =
     bind_sto (wrap_sto ''kvfsm: consume exec invite: no such invite: %w'' (get key)) (\<lambda>v.
     bind_sto (lift_res (wrap_err ''kvfsm: consume exec invite: decode record: %w'' (DecodeExecInviteRecord v)))
       (\<lambda>(commandID, _, expiresAtUnix).
       if expiresAtUnix \<noteq> 0 \<and> now \<ge> expiresAtUnix then bind_sto (del key) (\<lambda>_. fail token_expired)
       else bind_sto (wrap_sto ''kvfsm: consume exec invite: acl check: %w'' (IsPermittedForCommand commandID value))
         (\<lambda>permitted.
         if \<not> permitted
         then fail (Errorf ''kvfsm: consume exec invite: %s is not permitted for command %s'')
         else bind_sto (del key) (\<lambda>_. ret v))))"

definition applyAppendCommandRequest :: "limits \<Rightarrow> bytes \<Rightarrow> bytes \<Rightarrow> bytes sto" where
  "applyAppendCommandRequest lim key value =
     bind_sto (lift_res (wrap_err ''kvfsm: append command request: decode payload: %w''
       (DecodeCommandRequestApplyPayload value))) (\<lambda>(authorPeerID, recordValue).
     bind_sto (lift_res (wrap_err ''kvfsm: append command request: parse key: %w'' (ParseKey key))) (\<lambda>(kind, _, _).
       case ParseCommandRequestLogKind kind of
         None \<Rightarrow> fail (Errorf ''kvfsm: append command request: kind %q is not a command-request kind'')
       | Some commandID \<Rightarrow>
           bind_sto (wrap_sto ''kvfsm: append command request: acl check: %w''
             (IsPermittedForCommand commandID authorPeerID)) (\<lambda>permitted.
           if \<not> permitted then fail (Errorf ''kvfsm: %s is not permitted to submit command %s'')
           else bind_sto (checkSystemListCap lim key) (\<lambda>_.
             bind_sto (WithTx (bind_sto (set_kv key recordValue) (\<lambda>_.
               if commandID = DefaultPublicCommandID
               then wrap_sto ''kvfsm: grant channel/relay access to %s: %w'' (grantChannelRelayAccess authorPeerID)
               else ret ()))) (\<lambda>_. ret [])))))"

fun checkOpKinds :: "TxnOpSpec list \<Rightarrow> unit res" where
  "checkOpKinds [] = Inr ()"
| "checkOpKinds (op # ops) =
     (if \<not> ValidTxnOp (Op op) then Inl (Errorf ''kvfsm: txn: op %d has unknown kind %d'') else checkOpKinds ops)"

fun checkCompares :: "TxnOpSpec list \<Rightarrow> unit sto" where
  "checkCompares [] = ret ()"
| "checkCompares (op # ops) =
     (if \<not> IsCompare op then checkCompares ops
      else bind_sto (try_sto (get (Key op))) (\<lambda>current.
        if Op op = TxnOpCompareAbsent then
          (case current of
             Inr _ \<Rightarrow> fail (Wrap ''%w: op %d: key %q exists'' ErrCompareFailed)
           | Inl e \<Rightarrow> if \<not> errors_is e ErrNotFound then fail (Wrap ''kvfsm: txn: op %d: read key %q: %w'' e)
                      else checkCompares ops)
        else
          (case current of
             Inl e \<Rightarrow> if errors_is e ErrNotFound
                      then fail (Wrap ''%w: op %d: key %q does not exist'' ErrCompareFailed)
                      else fail (Wrap ''kvfsm: txn: op %d: read key %q: %w'' e)
           | Inr v \<Rightarrow> if v \<noteq> Value op
                      then fail (Wrap ''%w: op %d: key %q holds a different value'' ErrCompareFailed)
                      else checkCompares ops)))"

fun applyWrites :: "TxnOpSpec list \<Rightarrow> unit sto" where
  "applyWrites [] = ret ()"
| "applyWrites (op # ops) =
     (if IsCompare op then applyWrites ops
      else bind_sto (wrap_sto ''kvfsm: txn: op on key %x: %w''
             (if Op op = TxnOpSet then set_kv (Key op) (Value op) else del (Key op))) (\<lambda>_. applyWrites ops))"

definition applyTxn :: "bytes \<Rightarrow> bytes sto" where
  "applyTxn value =
     bind_sto (lift_res (wrap_err ''kvfsm: txn: decode payload: %w'' (DecodeTxnPayload value))) (\<lambda>ops.
     bind_sto (lift_res (checkOpKinds ops)) (\<lambda>_.
     bind_sto (checkCompares ops) (\<lambda>_.
     bind_sto (WithTx (applyWrites ops)) (\<lambda>_. ret []))))"

definition applyOp :: "limits \<Rightarrow> 64 word \<Rightarrow> byte \<Rightarrow> bytes \<Rightarrow> bytes \<Rightarrow> bytes sto" where
  "applyOp lim now op key value =
     (if op = OpSet then applySet lim key value
      else if op = OpDel then applyDel key
      else if op = OpConfirm then applyConfirm lim key value
      else if op = OpCascadeDelete then applyCascade key
      else if op = OpConsumeInvite then applyConsumeInvite key
      else if op = OpConsumeExecInvite then applyConsumeExecInvite now key value
      else if op = OpAppendCommandRequest then applyAppendCommandRequest lim key value
      else if op = OpTxn then applyTxn value
      else fail (Errorf ''kvfsm: unknown op %d''))"

definition Apply :: "limits \<Rightarrow> raft_log \<Rightarrow> bytes sto" where
  "Apply lim l = bind_sto (lift_res (decodeCommand (Data l))) (\<lambda>(op, key, value).
     applyOp lim (AppendedAt l) op key value)"

definition Restore :: "bytes \<Rightarrow> unit sto" where
  "Restore rc = LoadAll rc"

definition Persist :: "(table \<Rightarrow> table) \<Rightarrow> bytes sto" where
  "Persist row_order = DumpAll row_order"

lemmas apply_defs [op_defs] = applySet_def applyDel_def applyConfirm_def applyCascade_def
  applyConsumeInvite_def applyConsumeExecInvite_def applyAppendCommandRequest_def applyTxn_def

subsection \<open>Atomicity under faults\<close>

lemma read_only_checkCompares: "read_only (checkCompares ops)"
  by (induction ops) (simp_all only: checkCompares.simps, (intro read_only_intros | assumption)+)

lemmas check_read_only = read_only_checks read_only_checkCompares

lemma atomic_applyOps:
  "atomic (applySet lim key value)" "atomic (applyDel key)" "atomic (applyConfirm lim key value)"
  "atomic (applyCascade key)" "atomic (applyConsumeInvite key)"
  "atomic (applyAppendCommandRequest lim key value)" "atomic (applyTxn value)"
  unfolding apply_defs by (intro atomic_intros read_only_intros check_read_only)+

text \<open>
  The one operation that may report an error after writing is the redemption of an exec
  invite that has expired: it deletes the invite on purpose.
\<close>

definition atomic_but :: "error \<Rightarrow> 'a sto \<Rightarrow> bool" where
  "atomic_but E m \<longleftrightarrow> (\<forall>s e. fst (m s) = Inl e \<and> e \<noteq> E \<longrightarrow> kv (snd (m s)) = kv s)"

lemma atomic_butI: "atomic m \<Longrightarrow> atomic_but E m"
  by (auto simp: atomic_def atomic_but_def)

lemma atomic_but_branch:
  "(c \<Longrightarrow> atomic_but E a) \<Longrightarrow> (\<not> c \<Longrightarrow> atomic_but E b) \<Longrightarrow> atomic_but E (if c then a else b)"
  "(\<And>x y. atomic_but E (f x y)) \<Longrightarrow> atomic_but E (case p of (x, y) \<Rightarrow> f x y)"
  by (simp_all split: prod.splits)

lemma atomic_but_bind:
  assumes "read_only m" "\<And>x. atomic_but E (f x)"
  shows "atomic_but E (bind_sto m f)"
  unfolding atomic_but_def
proof (intro allI impI)
  fix s :: store and e
  assume i: "fst (bind_sto m f s) = Inl e \<and> e \<noteq> E"
  obtain r s' where m: "m s = (r, s')" by fastforce
  then have k: "kv s' = kv s" using assms(1) by (auto simp: read_only_def dest: spec [of _ s])
  show "kv (snd (bind_sto m f s)) = kv s"
  proof (cases r)
    case (Inl x)
    with m k show ?thesis by (simp add: bind_sto_def)
  next
    case (Inr x)
    with m k i assms(2) [of x] show ?thesis by (auto simp: bind_sto_def atomic_but_def)
  qed
qed

lemma atomic_but_then_fail:
  assumes "atomic m"
  shows "atomic_but E (bind_sto m (\<lambda>_. fail E))"
  unfolding atomic_but_def
proof (intro allI impI)
  fix s :: store and e
  assume i: "fst (bind_sto m (\<lambda>_. fail E) s) = Inl e \<and> e \<noteq> E"
  obtain r s' where m: "m s = (r, s')" by fastforce
  with i assms show "kv (snd (bind_sto m (\<lambda>_. fail E) s)) = kv s"
    by (cases r) (auto simp: bind_sto_def atomic_def dest: spec [of _ s])
qed

lemma atomic_but_applyOp: "atomic_but token_expired (applyOp lim now op key value)"
proof -
  have "atomic_but token_expired (applyConsumeExecInvite now key value)"
    unfolding applyConsumeExecInvite_def
    by (intro atomic_but_branch atomic_but_bind read_only_intros check_read_only atomic_but_then_fail atomic_writes
        atomic_butI [OF atomic_leaf(2)] atomic_butI [OF atomic_bind_ret])
  then show ?thesis
    unfolding applyOp_def
    by (intro atomic_but_branch atomic_applyOps [THEN atomic_butI] atomic_butI [OF atomic_leaf(2)])
qed

lemma atomic_but_Apply: "atomic_but token_expired (Apply lim l)"
  unfolding Apply_def by (intro atomic_but_branch atomic_but_bind read_only_intros atomic_but_applyOp)

subsection \<open>The table stays well-formed and the disk healthy\<close>

lemma keeps_loops:
  "keeps tbl_ok (deleteAll ms)" "keeps tbl_ok (deleteMatching parse g ms)"
  "keeps tbl_ok (grantLoop peer gs)" "keeps tbl_ok (applyWrites ops)"
proof -
  show "keeps tbl_ok (deleteAll ms)"
    by (induction ms) (simp_all only: deleteAll.simps, (intro keeps_intros keeps_ok_writes | assumption)+)
  show "keeps tbl_ok (deleteMatching parse g ms)"
    by (induction ms) (simp_all only: deleteMatching.simps, (intro keeps_intros keeps_ok_writes | assumption)+)
  show "keeps tbl_ok (grantLoop peer gs)"
    by (induction gs) (simp_all only: grantLoop.simps, (intro keeps_intros keeps_ok_writes | assumption)+)
  show "keeps tbl_ok (applyWrites ops)"
    by (induction ops) (simp_all only: applyWrites.simps, (intro keeps_intros keeps_ok_writes | assumption)+)
qed

lemmas check_keeps = read_only_checks [THEN read_only_keeps] read_only_checkCompares [THEN read_only_keeps]
  read_only_ops [THEN read_only_keeps]

lemma keeps_cascade: "keeps tbl_ok (applyCascadeDelete key)"
  unfolding applyCascadeDelete_def deleteRelationsByGroupID_def Let_def
  by (intro keeps_intros check_keeps keeps_loops keeps_ok_writes)

lemma keeps_applyOp: "keeps tbl_ok (applyOp lim now op key value)"
  unfolding applyOp_def apply_defs grantChannelRelayAccess_def
  by (intro keeps_intros check_keeps keeps_loops keeps_cascade keeps_ok_writes)

lemma keeps_Apply: "keeps tbl_ok (Apply lim l)"
  unfolding Apply_def by (intro keeps_intros keeps_applyOp)

lemma healthy_loops:
  "stays_healthy (deleteAll ms)" "stays_healthy (deleteMatching parse g ms)"
  "stays_healthy (grantLoop peer gs)" "stays_healthy (applyWrites ops)"
  "stays_healthy (permittedLoop peer ms)" "stays_healthy (checkCompares ops)"
proof -
  show "stays_healthy (deleteAll ms)"
    by (induction ms) (simp_all only: deleteAll.simps, (intro healthy_intros | assumption)+)
  show "stays_healthy (deleteMatching parse g ms)"
    by (induction ms) (simp_all only: deleteMatching.simps, (intro healthy_intros | assumption)+)
  show "stays_healthy (grantLoop peer gs)"
    by (induction gs) (simp_all only: grantLoop.simps, (intro healthy_intros | assumption)+)
  show "stays_healthy (applyWrites ops)"
    by (induction ops) (simp_all only: applyWrites.simps, (intro healthy_intros | assumption)+)
  show "stays_healthy (permittedLoop peer ms)"
    by (induction ms) (simp_all only: permittedLoop.simps, (intro healthy_intros | assumption)+)
  show "stays_healthy (checkCompares ops)"
    by (induction ops) (simp_all only: checkCompares.simps, (intro healthy_intros | assumption)+)
qed

lemma healthy_applyOp: "stays_healthy (applyOp lim now op key value)"
  unfolding applyOp_def apply_defs grantChannelRelayAccess_def applyCascadeDelete_def deleteRelationsByGroupID_def
    checkSystemListCap_def checkGroupNameUnique_def preserveCommandSpec_def IsPermittedForCommand_def Let_def
  by (intro healthy_intros healthy_loops)

lemma healthy_Apply: "stays_healthy (Apply lim l)"
  unfolding Apply_def by (intro healthy_intros healthy_applyOp)

lemma Apply_wf: "wf_store s \<Longrightarrow> wf_store (snd (Apply lim l s))"
  using keeps_Apply [of lim l] by (simp add: keeps_def wf_store_def)

lemma Apply_healthy: "healthy s \<Longrightarrow> healthy (snd (Apply lim l s))"
  using healthy_Apply [of lim l] by (simp add: stays_healthy_def)

subsection \<open>What each operation does on a healthy disk\<close>

text \<open>Transactions: the precondition check and the writes, over abstract contents.\<close>

definition txn_holds :: "(bytes \<rightharpoonup> bytes) \<Rightarrow> TxnOpSpec \<Rightarrow> bool" where
  "txn_holds m op \<longleftrightarrow> (Op op = TxnOpCompare \<longrightarrow> m (Key op) = Some (Value op)) \<and>
     (Op op = TxnOpCompareAbsent \<longrightarrow> m (Key op) = None)"

fun txn_write :: "(bytes \<rightharpoonup> bytes) \<Rightarrow> TxnOpSpec \<Rightarrow> (bytes \<rightharpoonup> bytes)" where
  "txn_write m op = (if Op op = TxnOpSet then m(Key op \<mapsto> Value op)
     else if Op op = TxnOpDelete then m(Key op := None) else m)"

declare txn_write.simps [simp del]

lemma checkOpKinds_Inr: "checkOpKinds ops = Inr () \<longleftrightarrow> list_all (\<lambda>op. ValidTxnOp (Op op)) ops"
  by (induction ops) auto

lemma checkCompares_ok:
  assumes "healthy s" "list_all (txn_holds (contents s)) ops"
  shows "checkCompares ops s = (Inr (), s)"
  using assms(2)
proof (induction ops)
  case (Cons op ops)
  then have IH: "checkCompares ops s = (Inr (), s)" and h: "txn_holds (contents s) op" by simp_all
  show ?case
    using assms(1) h IH
    by (cases "contents s (Key op)") (auto simp: store_simps IsCompare_def txn_holds_def)
qed simp

lemma checkCompares_failed:
  assumes "healthy s" "\<not> list_all (txn_holds (contents s)) ops"
  shows "\<exists>e. checkCompares ops s = (Inl e, s) \<and> errors_is e ErrCompareFailed"
  using assms(2)
proof (induction ops)
  case (Cons op ops)
  show ?case
  proof (cases "txn_holds (contents s) op")
    case True
    with Cons obtain e where IH: "checkCompares ops s = (Inl e, s)" "errors_is e ErrCompareFailed" by auto
    with True assms(1) show ?thesis
      by (cases "contents s (Key op)") (auto simp: store_simps IsCompare_def txn_holds_def)
  next
    case False
    with assms(1) show ?thesis
      by (cases "contents s (Key op)") (auto simp: store_simps IsCompare_def txn_holds_def)
  qed
qed simp

lemma wrap_write_healthy:
  "healthy s \<Longrightarrow> bind_sto (wrap_sto w (set_kv k v)) f s = f () (s\<lparr>kv := tbl_upsert k v (kv s)\<rparr>)"
  "healthy s \<Longrightarrow> bind_sto (wrap_sto w (del k)) f s = f () (s\<lparr>kv := tbl_delete k (kv s)\<rparr>)"
  by (simp_all add: bind_sto_def wrap_sto_def set_kv_healthy del_healthy)

lemma applyWrites_healthy:
  assumes "healthy s" "wf_store s" "list_all (\<lambda>op. ValidTxnOp (Op op)) ops"
  shows "\<exists>s'. applyWrites ops s = (Inr (), s') \<and> healthy s' \<and> wf_store s' \<and>
    contents s' = foldl txn_write (contents s) ops"
  using assms
proof (induction ops arbitrary: s)
  case (Cons op ops)
  from Cons.prems(3) have v: "Op op \<in> {1, 2, 3, 4}" and vs: "list_all (\<lambda>op. ValidTxnOp (Op op)) ops"
    by (simp_all add: ValidTxnOp_def)
  have wf: "tbl_ok (kv s)" using Cons.prems(2) by (simp add: wf_store_def)
  from v consider "IsCompare op" | "Op op = 1" | "Op op = 2" by (auto simp: IsCompare_def)
  then show ?case
  proof cases
    case 1
    then have "txn_write (contents s) op = contents s" by (auto simp: txn_write.simps IsCompare_def)
    with 1 Cons.IH [OF Cons.prems(1,2) vs] show ?thesis by simp
  next
    case 2
    let ?s = "s\<lparr>kv := tbl_upsert (Key op) (Value op) (kv s)\<rparr>"
    have "healthy ?s" "wf_store ?s" "contents ?s = txn_write (contents s) op"
      using Cons.prems(1) wf 2 by (simp_all add: txn_write.simps contents_def)
    moreover have "applyWrites (op # ops) s = applyWrites ops ?s"
      using 2 Cons.prems(1) by (simp add: IsCompare_def wrap_write_healthy)
    ultimately show ?thesis using Cons.IH [of ?s] vs by simp
  next
    case 3
    let ?s = "s\<lparr>kv := tbl_delete (Key op) (kv s)\<rparr>"
    have "healthy ?s" "wf_store ?s" "contents ?s = txn_write (contents s) op"
      using Cons.prems(1) wf 3 by (simp_all add: txn_write.simps contents_def)
    moreover have "applyWrites (op # ops) s = applyWrites ops ?s"
      using 3 Cons.prems(1) by (simp add: IsCompare_def wrap_write_healthy)
    ultimately show ?thesis using Cons.IH [of ?s] vs by simp
  qed
qed simp

lemma applyTxn_ok:
  assumes "healthy s" "wf_store s" "DecodeTxnPayload value = Inr ops"
    and "list_all (\<lambda>op. ValidTxnOp (Op op)) ops" "list_all (txn_holds (contents s)) ops"
  shows "\<exists>s'. applyTxn value s = (Inr [], s') \<and> healthy s' \<and> wf_store s' \<and>
    contents s' = foldl txn_write (contents s) ops"
proof -
  from applyWrites_healthy [OF assms(1,2,4)] obtain s' where
    s': "applyWrites ops s = (Inr (), s')" "healthy s'" "wf_store s'" "contents s' = foldl txn_write (contents s) ops"
    by blast
  have k: "checkOpKinds ops = Inr ()" using assms(4) by (simp add: checkOpKinds_Inr)
  have "applyTxn value s = bind_sto (WithTx (applyWrites ops)) (\<lambda>_. ret []) s"
    using assms(3) k checkCompares_ok [OF assms(1,5)] by (simp add: applyTxn_def bind_sto_def)
  also have "\<dots> = ret [] s'" by (rule bind_WithTx_ok [where fn = "applyWrites ops", OF assms(1) s'(1,2)])
  finally show ?thesis using s' by simp
qed

lemma applyTxn_compare_failed:
  assumes "healthy s" "DecodeTxnPayload value = Inr ops"
    and "list_all (\<lambda>op. ValidTxnOp (Op op)) ops" "\<not> list_all (txn_holds (contents s)) ops"
  shows "\<exists>e. applyTxn value s = (Inl e, s) \<and> errors_is e ErrCompareFailed"
proof -
  have k: "checkOpKinds ops = Inr ()" using assms(3) by (simp add: checkOpKinds_Inr)
  from checkCompares_failed [OF assms(1,4)] obtain e where
    "checkCompares ops s = (Inl e, s)" "errors_is e ErrCompareFailed" by blast
  then show ?thesis using assms(2) k by (simp add: applyTxn_def bind_sto_def)
qed

text \<open>Confirming a pending record moves it.\<close>

lemma applyConfirm_ok:
  assumes "healthy s" "wf_store s" "contents s key = Some v" "checkSystemListCap lim value s = (Inr (), s)"
  shows "\<exists>s'. applyConfirm lim key value s = (Inr [], s') \<and> healthy s' \<and> wf_store s' \<and>
    contents s' = (contents s)(value \<mapsto> v, key := None)"
proof -
  let ?s = "s\<lparr>kv := tbl_delete key (tbl_upsert value v (kv s))\<rparr>"
  have wf: "tbl_ok (kv s)" using assms(2) by (simp add: wf_store_def)
  have "bind_sto (set_kv value v) (\<lambda>_. del key) s = (Inr (), ?s)"
    using assms(1) by (simp add: bind_set del_healthy)
  from bind_WithTx_ok [where fn = "bind_sto (set_kv value v) (\<lambda>_. del key)" and f = "\<lambda>_. ret []", OF assms(1) this]
  have "bind_sto (WithTx (bind_sto (set_kv value v) (\<lambda>_. del key))) (\<lambda>_. ret []) s = (Inr [], ?s)"
    using assms(1) by simp
  then have "applyConfirm lim key value s = (Inr [], ?s)"
    using assms(1,3,4) by (simp add: applyConfirm_def bind_wrap_get bind_sto_apply_Inr)
  moreover have "contents ?s = (contents s)(value \<mapsto> v, key := None)"
    using wf by (simp add: contents_def)
  ultimately show ?thesis using assms(1) wf by simp
qed

lemma applyConfirm_missing:
  "healthy s \<Longrightarrow> contents s key = None \<Longrightarrow>
     applyConfirm lim key value s = (Inl (Wrap ''kvfsm: confirm: no pending record at key: %w'' ErrNotFound), s)"
  by (simp add: applyConfirm_def bind_wrap_get)

text \<open>Invites.\<close>

lemma applyConsumeInvite_healthy:
  "healthy s \<Longrightarrow> applyConsumeInvite key s =
     (case contents s key of
        None \<Rightarrow> (Inl (Wrap ''kvfsm: consume invite: no such invite: %w'' ErrNotFound), s)
      | Some v \<Rightarrow> (Inr v, s\<lparr>kv := tbl_delete key (kv s)\<rparr>))"
  by (simp add: applyConsumeInvite_def bind_wrap_get bind_del split: option.splits)

definition permitted :: "(bytes \<rightharpoonup> bytes) \<Rightarrow> bytes \<Rightarrow> bytes \<Rightarrow> bool" where
  "permitted m commandID peerID \<longleftrightarrow>
     (\<exists>g. command_in_group m commandID g \<and> (group_public m g \<or> peer_in_group m peerID g))"

lemma IsPermitted_permitted:
  "healthy s \<Longrightarrow> wf_store s \<Longrightarrow> length commandID \<le> 0xFFFF \<Longrightarrow> length peerID \<le> 0xFFFF \<Longrightarrow>
     IsPermittedForCommand commandID peerID s = (Inr (permitted (contents s) commandID peerID), s)"
  by (simp add: IsPermittedForCommand_healthy permitted_def)

lemma DecodeExecInvite_length:
  "DecodeExecInviteRecord v = Inr (commandID, i, x) \<Longrightarrow> length commandID \<le> 0xFFFF"
  using u16_at_less [of 0 v] u16_at_less [of 10 v]
  by (auto simp: DecodeExecInviteRecord_def Let_def length_slice split: if_splits)

lemma applyConsumeExecInvite_healthy:
  assumes "healthy s" "wf_store s" "length peer \<le> 0xFFFF"
    and "contents s key = Some v" "DecodeExecInviteRecord v = Inr (commandID, inputs, expires)"
  shows "applyConsumeExecInvite now key peer s =
    (if expires \<noteq> 0 \<and> now \<ge> expires then (Inl token_expired, s\<lparr>kv := tbl_delete key (kv s)\<rparr>)
     else if permitted (contents s) commandID peer then (Inr v, s\<lparr>kv := tbl_delete key (kv s)\<rparr>)
     else (Inl (Errorf ''kvfsm: consume exec invite: %s is not permitted for command %s''), s))"
proof -
  note l = DecodeExecInvite_length [OF assms(5)]
  have "wrap_sto w (IsPermittedForCommand commandID peer) s = (Inr (permitted (contents s) commandID peer), s)" for w
    by (simp add: wrap_sto_def IsPermitted_permitted [OF assms(1,2) l assms(3)])
  with assms(1,4,5) show ?thesis
    by (simp add: applyConsumeExecInvite_def bind_wrap_get bind_del bind_sto_apply_Inr)
qed

text \<open>Command requests.\<close>

lemma DecodeCommandRequest_length:
  "DecodeCommandRequestApplyPayload value = Inr (author, rec) \<Longrightarrow> length author \<le> 0xFFFF"
  using u16_at_less [of 0 "value"]
  by (auto simp: DecodeCommandRequestApplyPayload_def Let_def length_slice split: if_splits)

lemma ParseKey_Inr:
  "ParseKey key = Inr (kind, u, ts) \<Longrightarrow> length kind \<le> 0xFFFF \<and> key \<noteq> [] \<and> key ! 0 = 1"
  using u16_at_less [of 1 key]
  by (auto simp: ParseKey_def Let_def length_slice split: if_splits)

lemma log_key_not_system: "key ! 0 = 1 \<Longrightarrow> \<not> is_system_key key"
  by (simp add: is_system_key_def)

definition granted :: "bytes \<Rightarrow> (bytes \<rightharpoonup> bytes) \<Rightarrow> (bytes \<rightharpoonup> bytes)" where
  "granted peer m = (\<lambda>k. if PeerGroupKey peer ReservedGroupChannel = Inr k \<or> PeerGroupKey peer ReservedGroupRelay = Inr k
     then Some [] else m k)"

lemma grantChannelRelayAccess_healthy:
  assumes "healthy s" "wf_store s" "length peer \<le> 0xFFFF"
  shows "\<exists>s'. grantChannelRelayAccess peer s = (Inr (), s') \<and> healthy s' \<and> wf_store s' \<and>
    contents s' = granted peer (contents s)"
proof -
  obtain k1 k2 where k: "PeerGroupKey peer ReservedGroupChannel = Inr k1" "PeerGroupKey peer ReservedGroupRelay = Inr k2"
    using pg.mk_total [OF assms(3)] by blast
  let ?s = "s\<lparr>kv := tbl_upsert k2 [] (tbl_upsert k1 [] (kv s))\<rparr>"
  have wf: "tbl_ok (kv s)" using assms(2) by (simp add: wf_store_def)
  have "grantChannelRelayAccess peer s = (Inr (), ?s)"
    using assms(1) k by (simp add: grantChannelRelayAccess_def bind_set)
  moreover have "contents ?s = granted peer (contents s)"
    using wf k by (auto simp: granted_def contents_def fun_eq_iff)
  ultimately show ?thesis using assms(1) wf by simp
qed

lemma applyAppend_ok:
  assumes "healthy s" "wf_store s"
    and "DecodeCommandRequestApplyPayload value = Inr (author, rec)"
    and "ParseKey key = Inr (CommandRequestLogKind c, u, ts)"
    and "permitted (contents s) c author"
  shows "\<exists>s'. applyAppendCommandRequest lim key value s = (Inr [], s') \<and> healthy s' \<and> wf_store s' \<and>
    contents s' = (if c = DefaultPublicCommandID then granted author ((contents s)(key \<mapsto> rec))
                   else (contents s)(key \<mapsto> rec))"
proof -
  note la = DecodeCommandRequest_length [OF assms(3)]
  have k1: "key ! 0 = 1" and lc: "length c \<le> 0xFFFF"
    using ParseKey_Inr [OF assms(4)] by (simp_all add: CommandRequestLogKind_def)
  let ?s1 = "s\<lparr>kv := tbl_upsert key rec (kv s)\<rparr>"
  define fn where "fn = bind_sto (set_kv key rec) (\<lambda>_. if c = DefaultPublicCommandID
     then wrap_sto ''kvfsm: grant channel/relay access to %s: %w'' (grantChannelRelayAccess author) else ret ())"
  have s1: "healthy ?s1" "wf_store ?s1" "contents ?s1 = (contents s)(key \<mapsto> rec)"
    using assms(1,2) by (simp_all add: wf_store_def contents_def)
  obtain s' where s': "fn s = (Inr (), s')" "healthy s'" "wf_store s'"
    "contents s' = (if c = DefaultPublicCommandID then granted author ((contents s)(key \<mapsto> rec))
       else (contents s)(key \<mapsto> rec))"
  proof (cases "c = DefaultPublicCommandID")
    case True
    from grantChannelRelayAccess_healthy [OF s1(1,2) la] obtain s' where
      g: "grantChannelRelayAccess author ?s1 = (Inr (), s')" "healthy s'" "wf_store s'"
        "contents s' = granted author (contents ?s1)" by blast
    have "fn s = (Inr (), s')" using True g(1) assms(1) by (simp add: fn_def bind_set wrap_sto_def)
    with g True s1(3) show ?thesis by (intro that) simp_all
  next
    case False
    then have "fn s = (Inr (), ?s1)" using assms(1) by (simp add: fn_def bind_set)
    with False s1 show ?thesis using that [of ?s1] by simp
  qed
  have acl: "wrap_sto w (IsPermittedForCommand c author) s = (Inr True, s)" for w
    using assms(5) by (simp add: wrap_sto_def IsPermitted_permitted [OF assms(1,2) lc la])
  have cap: "checkSystemListCap lim key s = (Inr (), s)"
    by (rule checkSystemListCap_other) (rule log_key_not_system [OF k1])
  have kind: "ParseCommandRequestLogKind (CommandRequestLogKind c) = Some c" by (simp add: codec_simps)
  have "applyAppendCommandRequest lim key value s = bind_sto (WithTx fn) (\<lambda>_. ret []) s"
    unfolding fn_def using assms(3,4) acl cap kind
    by (simp add: applyAppendCommandRequest_def bind_sto_apply_Inr split del: if_split)
  also have "\<dots> = ret [] s'" by (rule bind_WithTx_ok [where fn = fn, OF assms(1) s'(1,2)])
  finally show ?thesis using s' by simp
qed

lemma applyAppend_denied:
  assumes "healthy s" "wf_store s"
    and "DecodeCommandRequestApplyPayload value = Inr (author, rec)"
    and "ParseKey key = Inr (CommandRequestLogKind c, u, ts)"
    and "\<not> permitted (contents s) c author"
  shows "applyAppendCommandRequest lim key value s =
    (Inl (Errorf ''kvfsm: %s is not permitted to submit command %s''), s)"
proof -
  note la = DecodeCommandRequest_length [OF assms(3)]
  have lc: "length c \<le> 0xFFFF"
    using ParseKey_Inr [OF assms(4)] by (simp add: CommandRequestLogKind_def)
  have "wrap_sto w (IsPermittedForCommand c author) s = (Inr False, s)" for w
    using assms(5) by (simp add: wrap_sto_def IsPermitted_permitted [OF assms(1,2) lc la])
  moreover have "ParseCommandRequestLogKind (CommandRequestLogKind c) = Some c" by (simp add: codec_simps)
  ultimately show ?thesis
    using assms(3,4) by (simp add: applyAppendCommandRequest_def bind_sto_def split del: if_split)
qed

text \<open>Plain writes.\<close>

lemma applySet_user:
  assumes "healthy s" "wf_store s" "\<not> is_system_key key"
  shows "applySet lim key value s = (Inr [], s\<lparr>kv := tbl_upsert key value (kv s)\<rparr>)"
proof -
  have n: "\<nexists>st rest. key = SystemKey kind st rest" for kind using assms(3) by (auto simp: is_system_key_iff)
  show ?thesis
    using assms(1) checkSystemListCap_other [OF assms(3)] checkGroupNameUnique_other [OF n] preserveCommandSpec_other [OF n]
    by (simp add: applySet_def bind_sto_def set_kv_healthy)
qed

lemma applySet_command_keeps_spec:
  assumes "healthy s" "wf_store s" "contents s (CommandKey c) = Some old"
    and "DecodeCommandPayloadSpec old = Inr (Some spec)" "spec \<noteq> []"
    and "EncodeCommandPayload name peerID = Inr v" "length peerID \<le> 0xFFFF"
  shows "\<exists>s' stored. applySet lim (CommandKey c) v s = (Inr [], s') \<and> contents s' = (contents s)(CommandKey c \<mapsto> stored) \<and>
    DecodeCommandPayloadFull stored = Inr (name, peerID, spec)"
proof -
  have len: "length name < 0xFFFF" using assms(6) by (simp add: EncodeCommandPayload_Inr)
  obtain stored where st: "EncodeCommandPayloadWithSpec name peerID spec = Inr stored"
    using len assms(5,7) by (simp add: EncodeCommandPayloadWithSpec_def checkCommandNameLen_def)
  have dec: "DecodeCommandPayload v = Inr (name, peerID)"
    using assms(6) by (auto simp: EncodeCommandPayload_Inr DecodeCommandPayload_def DecodeCommandFull_v1)
  have sys: "is_system_key (CommandKey c)" by (simp add: CommandKey_def)
  have "checkSystemListCap lim (CommandKey c) s = (Inr (), s)"
    using checkSystemListCap_healthy [OF assms(1,2) sys, of lim] assms(3) by simp
  moreover have "checkGroupNameUnique (CommandKey c) v s = (Inr (), s)"
    by (rule checkGroupNameUnique_other) (simp add: CommandKey_def)
  moreover have "preserveCommandSpec (CommandKey c) v s = (Inr stored, s)"
    using preserveCommandSpec_carries [OF assms(1) CommandKey_def [of c, unfolded catalogStatusPlaceholder_def]
        DecodeSpec_v1 [OF assms(6)] dec assms(3,4,5)] st by simp
  ultimately have "applySet lim (CommandKey c) v s = (Inr [], s\<lparr>kv := tbl_upsert (CommandKey c) stored (kv s)\<rparr>)"
    using assms(1) by (simp add: applySet_def bind_sto_def set_kv_healthy)
  moreover have "contents (s\<lparr>kv := tbl_upsert (CommandKey c) stored (kv s)\<rparr>) = (contents s)(CommandKey c \<mapsto> stored)"
    using assms(2) by (simp add: wf_store_def contents_def)
  ultimately show ?thesis using DecodeCommandFull_Encode [OF st] by blast
qed

subsection \<open>Everything a redemption may write\<close>

definition deletes_at_most :: "bytes \<Rightarrow> 'a sto \<Rightarrow> bool" where
  "deletes_at_most key m \<longleftrightarrow> (\<forall>s. kv (snd (m s)) = kv s \<or> kv (snd (m s)) = tbl_delete key (kv s))"

lemma deletes_at_most_read_only: "read_only m \<Longrightarrow> deletes_at_most key m"
  by (simp add: deletes_at_most_def read_only_def)

lemma deletes_at_most_bind:
  assumes "read_only m" "\<And>x. deletes_at_most key (f x)"
  shows "deletes_at_most key (bind_sto m f)"
  unfolding deletes_at_most_def
proof
  fix s :: store
  obtain r s' where m: "m s = (r, s')" by fastforce
  with assms(1) have k: "kv s' = kv s" by (auto simp: read_only_def dest: spec [of _ s])
  show "kv (snd (bind_sto m f s)) = kv s \<or> kv (snd (bind_sto m f s)) = tbl_delete key (kv s)"
  proof (cases r)
    case (Inl e)
    with m k show ?thesis by (simp add: bind_sto_def)
  next
    case (Inr x)
    with m k assms(2) [of x] show ?thesis by (simp add: bind_sto_def deletes_at_most_def) metis
  qed
qed

lemma deletes_at_most_del:
  assumes "\<And>x. read_only (f x)"
  shows "deletes_at_most key (bind_sto (del key) f)"
  unfolding deletes_at_most_def
proof
  fix s :: store
  obtain r s' where m: "del key s = (r, s')" by fastforce
  then have "kv s' = kv s \<or> kv s' = tbl_delete key (kv s)"
    by (auto simp: del_def db_exec_def stmt_def split: list.splits if_splits)
  with m assms show "kv (snd (bind_sto (del key) f s)) = kv s \<or> kv (snd (bind_sto (del key) f s)) = tbl_delete key (kv s)"
    by (cases r) (simp_all add: bind_sto_def read_only_def)
qed

lemma deletes_at_most_branch:
  "(c \<Longrightarrow> deletes_at_most key a) \<Longrightarrow> (\<not> c \<Longrightarrow> deletes_at_most key b) \<Longrightarrow> deletes_at_most key (if c then a else b)"
  "(\<And>x y. deletes_at_most key (f x y)) \<Longrightarrow> deletes_at_most key (case p of (x, y) \<Rightarrow> f x y)"
  by (simp_all split: prod.splits)

lemma exec_invite_deletes_at_most: "deletes_at_most key (applyConsumeExecInvite now key value)"
  unfolding applyConsumeExecInvite_def
  by (intro deletes_at_most_branch deletes_at_most_del deletes_at_most_read_only [OF read_only_basic(2)]
      deletes_at_most_bind read_only_intros check_read_only)

lemma Apply_Encode:
  "length key + length value + 4 < 2 ^ 32 \<Longrightarrow>
     Apply lim \<lparr>Data = EncodeCommand op key value, AppendedAt = now\<rparr> = applyOp lim now op key value"
  by (simp add: Apply_def codec_simps fun_eq_iff)

subsection \<open>Properties\<close>

text \<open>
  C1. Applying a log entry is all or nothing under every schedule of database faults: when it
  reports an error, the table is exactly what it was before the entry, with one deliberate
  exception, an expired exec invite, whose record alone is deleted.
\<close>

theorem Apply_error_leaves_table:
  assumes "fst (Apply lim l s) = Inl e"
  shows "kv (snd (Apply lim l s)) = kv s \<or>
    (e = token_expired \<and> (\<exists>key value. decodeCommand (Data l) = Inr (OpConsumeExecInvite, key, value) \<and>
       kv (snd (Apply lim l s)) = tbl_delete key (kv s)))"
proof (cases "decodeCommand (Data l)")
  case (Inl e')
  then show ?thesis by (simp add: Apply_def)
next
  case (Inr c)
  obtain op key v where c: "c = (op, key, v)" using prod_cases3 by blast
  have A: "Apply lim l s = applyOp lim (AppendedAt l) op key v s" by (simp add: Apply_def Inr c)
  show ?thesis
  proof (cases "op = OpConsumeExecInvite")
    case True
    have x: "Apply lim l s = applyConsumeExecInvite (AppendedAt l) key v s" using A True by (simp add: applyOp_def)
    have "e \<noteq> token_expired \<Longrightarrow> kv (snd (Apply lim l s)) = kv s"
      using atomic_but_Apply [of lim l] assms by (simp add: atomic_but_def)
    then show ?thesis
      using exec_invite_deletes_at_most [of key "AppendedAt l" v] True Inr c unfolding deletes_at_most_def x by blast
  next
    case False
    then have "atomic (applyOp lim (AppendedAt l) op key v)"
      unfolding applyOp_def by (simp add: atomic_applyOps atomic_leaf(2))
    with A assms show ?thesis by (simp add: atomic_def)
  qed
qed

theorem Apply_error_leaves_table_witness:
  "kv (snd (Apply default_limits \<lparr>Data = [5], AppendedAt = 0\<rparr> \<lparr>kv = [([1], [2])], faults = [True]\<rparr>)) = [([1], [2])]"
  using Apply_error_leaves_table [of default_limits "\<lparr>Data = [5], AppendedAt = 0\<rparr>" "\<lparr>kv = [([1], [2])], faults = [True]\<rparr>"]
  by (simp add: Apply_def decodeCommand_def)

text \<open>
  C3. A transaction is an atomic compare-and-swap: if every precondition holds in the store
  the entry finds, all its writes are applied in order; otherwise nothing changes and the
  error is recognisable as a failed compare.
\<close>

theorem txn_compare_and_swap:
  assumes "healthy s" "wf_store s" "DecodeTxnPayload value = Inr ops" "list_all (\<lambda>op. ValidTxnOp (Op op)) ops"
  shows "if list_all (txn_holds (contents s)) ops
    then (\<exists>s'. applyOp lim now OpTxn key value s = (Inr [], s') \<and> contents s' = foldl txn_write (contents s) ops)
    else (\<exists>e. applyOp lim now OpTxn key value s = (Inl e, s) \<and> errors_is e ErrCompareFailed)"
  using applyTxn_ok [OF assms] applyTxn_compare_failed [OF assms(1,3,4)]
  by (auto simp: applyOp_def)

theorem txn_compare_and_swap_witness:
  "\<exists>s'. applyOp default_limits 0 OpTxn [] [0, 2, 4, 0, 1, 7, 0, 0, 1, 0, 1, 7, 0, 1, 9] empty_store = (Inr [], s')
     \<and> contents s' [7] = Some [9]"
proof -
  let ?ops = "[\<lparr>Op = 4, Key = [7], Value = []\<rparr>, \<lparr>Op = 1, Key = [7], Value = [9]\<rparr>]"
  have "EncodeTxnPayload ?ops = Inr [0, 2, 4, 0, 1, 7, 0, 0, 1, 0, 1, 7, 0, 1, 9]"
    by (simp add: EncodeTxnPayload_Inr txn_op_ok_def ValidTxnOp_def txnOpBytes_def be16_def)
  from txn_compare_and_swap [OF _ _ DecodeTxn_Encode [OF this], of empty_store default_limits 0 "[]"]
  show ?thesis
    by (auto simp: healthy_def wf_store_def empty_store_def ValidTxnOp_def txn_holds_def contents_def txn_write.simps)
qed

text \<open>
  Confirming moves a record: the value stored at the pending key ends up under the
  confirmed key, the pending key is gone and nothing else changes; with no pending record, or with
  the confirmed list full, the entry fails and changes nothing.
\<close>

theorem confirm_moves_record:
  assumes "healthy s" "wf_store s"
  shows "case contents s key of
      None \<Rightarrow> (\<exists>e. applyOp lim now OpConfirm key value s = (Inl e, s) \<and> errors_is e ErrNotFound)
    | Some v \<Rightarrow>
        if \<not> is_system_key value \<or> contents s value \<noteq> None \<or>
           list_count (contents s) (take 3 value) < list_limit lim (value ! 1)
        then (\<exists>s'. applyOp lim now OpConfirm key value s = (Inr [], s') \<and>
                contents s' = (contents s)(value \<mapsto> v, key := None))
        else (\<exists>e. applyOp lim now OpConfirm key value s = (Inl e, s))"
proof (cases "contents s key")
  case None
  then show ?thesis using applyConfirm_missing [OF assms(1) None] by (simp add: applyOp_def)
next
  case (Some v)
  let ?free = "\<not> is_system_key value \<or> contents s value \<noteq> None \<or>
    list_count (contents s) (take 3 value) < list_limit lim (value ! 1)"
  have cap: "checkSystemListCap lim value s = (if ?free then Inr () else
      Inl (Errorf ''kvfsm: system list %x is at capacity (%d entries)''), s)"
    using checkSystemListCap_healthy [OF assms, of "value" lim] checkSystemListCap_other [of "value" lim s]
    by (cases "is_system_key value") auto
  show ?thesis
  proof (cases ?free)
    case True
    with applyConfirm_ok [OF assms Some] cap Some show ?thesis by (auto simp: applyOp_def)
  next
    case False
    then have "applyConfirm lim key value s = (Inl (Errorf ''kvfsm: system list %x is at capacity (%d entries)''), s)"
      using cap Some assms(1) by (simp add: applyConfirm_def bind_wrap_get bind_sto_apply_Inl)
    with False Some show ?thesis by (simp add: applyOp_def)
  qed
qed

theorem confirm_moves_record_witness:
  "\<exists>s'. applyOp default_limits 0 OpConfirm [0, 5, 1, 9] [0, 5, 2, 9] \<lparr>kv = [([0, 5, 1, 9], [8])], faults = []\<rparr> = (Inr [], s')
     \<and> contents s' [0, 5, 2, 9] = Some [8] \<and> contents s' [0, 5, 1, 9] = None"
  using confirm_moves_record [of "\<lparr>kv = [([0, 5, 1, 9], [8])], faults = []\<rparr>" default_limits 0 "[0, 5, 1, 9]" "[0, 5, 2, 9]"]
  by (auto simp: healthy_def wf_store_def tbl_ok_def contents_def list_count_def list_limit_def default_limits_def
      Collect_conv_if)

text \<open>
  Redeeming an exec invite: the ticket is handed out, and deleted, exactly when it has
  not expired at the leader's append time and the redeeming peer is permitted for the ticket's
  command; an unpermitted attempt leaves the ticket in place for a legitimate peer; an expired
  ticket is deleted and refused.
\<close>

theorem exec_invite_redemption:
  assumes "healthy s" "wf_store s" "length peer \<le> 0xFFFF"
    and "contents s key = Some v" "DecodeExecInviteRecord v = Inr (commandID, inputs, expires)"
  shows "\<exists>r s'. applyOp lim now OpConsumeExecInvite key peer s = (r, s') \<and>
    (if expires \<noteq> 0 \<and> expires \<le> now then r = Inl token_expired \<and> contents s' = (contents s)(key := None)
     else if permitted (contents s) commandID peer then r = Inr v \<and> contents s' = (contents s)(key := None)
     else isl r \<and> s' = s)"
  using applyConsumeExecInvite_healthy [OF assms, of now]
  by (simp add: applyOp_def contents_def)

theorem exec_invite_redemption_witness:
  "\<exists>r s'. applyOp default_limits 100 OpConsumeExecInvite [0, 11, 0, 1] [6]
      \<lparr>kv = [([0, 11, 0, 1], EncodeExecInviteRecord [5] [] 99)], faults = []\<rparr> = (r, s') \<and> r = Inl token_expired"
  using exec_invite_redemption [of "\<lparr>kv = [([0, 11, 0, 1], EncodeExecInviteRecord [5] [] 99)], faults = []\<rparr>"
      "[6]" "[0, 11, 0, 1]" "EncodeExecInviteRecord [5] [] 99" "[5]" "[]" 99 default_limits 100]
  by (auto simp: healthy_def wf_store_def tbl_ok_def contents_def codec_simps)



text \<open>
  Renaming a command or moving it to another peer with a put that carries no spec keeps
  the stored form definition: the record afterwards decodes to the new name and peer with the
  old spec.
\<close>

theorem command_put_keeps_spec:
  assumes "healthy s" "wf_store s" "contents s (CommandKey c) = Some old"
    and "DecodeCommandPayloadSpec old = Inr (Some spec)" "spec \<noteq> []"
    and "EncodeCommandPayload name peerID = Inr v" "length peerID \<le> 0xFFFF"
  shows "\<exists>s' stored. applyOp lim now OpSet (CommandKey c) v s = (Inr [], s') \<and>
    contents s' = (contents s)(CommandKey c \<mapsto> stored) \<and>
    DecodeCommandPayloadFull stored = Inr (name, peerID, spec)"
  using applySet_command_keeps_spec [OF assms, of lim] by (simp add: applyOp_def)

theorem command_put_keeps_spec_witness:
  "\<exists>s' stored. applyOp default_limits 0 OpSet (CommandKey [1]) [0, 1, 66, 4]
      \<lparr>kv = [(CommandKey [1], [255, 255, 0, 1, 65, 0, 1, 3, 9])], faults = []\<rparr> = (Inr [], s') \<and>
    DecodeCommandPayloadFull stored = Inr ([66], [4], [9])"
proof -
  let ?old = "[255, 255, 0, 1, 65, 0, 1, 3, 9] :: bytes"
  let ?s = "\<lparr>kv = [(CommandKey [1], ?old)], faults = []\<rparr>"
  have old: "EncodeCommandPayloadWithSpec [65] [3] [9] = Inr ?old"
    by (simp add: EncodeCommandPayloadWithSpec_def checkCommandNameLen_def be16_def)
  have new: "EncodeCommandPayload [66] [4] = Inr [0, 1, 66, 4]"
    by (simp add: EncodeCommandPayload_Inr be16_def)
  have "healthy ?s" "wf_store ?s" "contents ?s (CommandKey [1]) = Some ?old"
    by (simp_all add: healthy_def wf_store_def tbl_ok_def contents_def)
  from command_put_keeps_spec [OF this DecodeSpec_v2 [OF old] _ new, of default_limits 0] show ?thesis by auto
qed

text \<open>
  C26. Deleting a group leaves nothing dangling: on success exactly the group's record and
  every relation that names it, command links and memberships alike, are gone and all other
  records are untouched; it can fail only if some stored relation key is malformed, and then
  nothing changes.
\<close>

theorem group_delete_cascades:
  assumes "healthy s" "wf_store s"
  shows "if relations_ok (kv s)
    then (\<exists>s'. applyOp lim now OpCascadeDelete (GroupKey g) value s = (Inr [], s') \<and>
      contents s' = (\<lambda>k. if k = GroupKey g \<or> group_relation g k then None else contents s k))
    else (\<exists>e s'. applyOp lim now OpCascadeDelete (GroupKey g) value s = (Inl e, s') \<and> kv s' = kv s)"
proof (cases "relations_ok (kv s)")
  case True
  let ?t = "filter (\<lambda>r. fst r \<noteq> GroupKey g \<and> \<not> group_relation g (fst r)) (kv s)"
  have c: "applyCascadeDelete (GroupKey g) s = (Inr (), s\<lparr>kv := ?t\<rparr>)"
    using cascade_group [OF assms(1) True, of 0 g] by (simp add: GroupKey_def)
  have "applyCascade (GroupKey g) s = (Inr [], s\<lparr>kv := ?t\<rparr>)"
    using bind_WithTx_ok [where fn = "applyCascadeDelete (GroupKey g)" and f = "\<lambda>_. ret []", OF assms(1) c] assms(1)
    by (simp add: applyCascade_def)
  moreover have "map_of ?t = (\<lambda>k. if k = GroupKey g \<or> group_relation g k then None else contents s k)"
    using map_of_filter_keys [OF tbl_ok_distinct, of "kv s" "\<lambda>k. k \<noteq> GroupKey g \<and> \<not> group_relation g k"] assms(2)
    by (auto simp: wf_store_def contents_def fun_eq_iff restrict_map_def)
  ultimately show ?thesis using True by (auto simp: applyOp_def)
next
  case False
  from cascade_group_error [OF assms(1) False, of 0 g] obtain e s1 where
    c: "applyCascadeDelete (GroupKey g) s = (Inl e, s1)"
    by (cases "applyCascadeDelete (GroupKey g) s") (auto simp: GroupKey_def isl_def)
  have "applyCascade (GroupKey g) s = (Inl e, s1\<lparr>kv := kv s\<rparr>)"
    using assms(1) c by (simp add: applyCascade_def bind_sto_def WithTx_healthy)
  with False show ?thesis by (auto simp: applyOp_def)
qed

theorem group_delete_cascades_witness:
  "\<exists>s'. applyOp default_limits 0 OpCascadeDelete (GroupKey [9]) []
      \<lparr>kv = [([0, 6, 0, 9], [1]), ([0, 8, 0, 0, 1, 5, 9], [])], faults = []\<rparr> = (Inr [], s')
     \<and> contents s' [0, 8, 0, 0, 1, 5, 9] = None"
proof -
  let ?s = "\<lparr>kv = [([0, 6, 0, 9], [1]), ([0, 8, 0, 0, 1, 5, 9], [])], faults = []\<rparr>"
  have key: "GroupCommandKey [5] [9] = Inr [0, 8, 0, 0, 1, 5, 9]" by (simp add: GroupCommandKey_def be16_def)
  have rel: "group_relation [9] [0, 8, 0, 0, 1, 5, 9]"
    using key unfolding group_relation_def by blast
  have "relations_ok (kv ?s)"
    using gc.parse_mk [OF key]
    by (simp add: relations_ok_def relations_parse_def AllGroupCommandsPrefix_def AllPeerGroupsPrefix_def SystemKey_def)
  with group_delete_cascades [of ?s default_limits 0 "[9]" "[]"] rel show ?thesis
    by (auto simp: healthy_def wf_store_def tbl_ok_def)
qed

end
