(* ===== verification/FSM_Invariants.thy ===== *)
theory FSM_Invariants
  imports FSM_Apply
begin

text \<open>
  What holds along a whole replicated log (src/pkg/kvfsm/fsm.go, in the order raft calls it).
  A replica is a run of \<^verbatim>\<open>Apply\<close> over its log. The locale \<open>log_machine\<close> lifts a per-entry
  invariant to runs; it is interpreted for the table's well-formedness, for unique group
  names and for the caps on system lists. Invites are shown to be redeemed at most once, and
  restoring a snapshot and replaying the rest of the log to agree with replaying all of it.
\<close>

subsection \<open>Runs\<close>

fun run_log :: "('l \<Rightarrow> 's \<Rightarrow> 'r \<times> 's) \<Rightarrow> 'l list \<Rightarrow> 's \<Rightarrow> 'r list \<times> 's" where
  "run_log step [] s = ([], s)"
| "run_log step (l # ls) s =
     (case step l s of (r, s1) \<Rightarrow> (case run_log step ls s1 of (rs, s2) \<Rightarrow> (r # rs, s2)))"

lemma run_log_append:
  "run_log step (ls @ ms) s =
     (case run_log step ls s of (rs, s1) \<Rightarrow> (case run_log step ms s1 of (qs, s2) \<Rightarrow> (rs @ qs, s2)))"
  by (induction ls arbitrary: s) (auto split: prod.splits)

lemma snd_run_log_Cons: "snd (run_log step (l # ls) s) = snd (run_log step ls (snd (step l s)))"
  by (simp split: prod.splits)

locale log_machine =
  fixes step :: "'l \<Rightarrow> 's \<Rightarrow> 'r \<times> 's"
    and ok :: "'l \<Rightarrow> bool"
    and inv :: "'s \<Rightarrow> bool"
  assumes step_inv: "ok l \<Longrightarrow> inv s \<Longrightarrow> inv (snd (step l s))"
begin

lemma run_inv: "list_all ok ls \<Longrightarrow> inv s \<Longrightarrow> inv (snd (run_log step ls s))"
proof (induction ls arbitrary: s)
  case (Cons l ls)
  then show ?case using step_inv by (simp add: snd_run_log_Cons del: run_log.simps)
qed simp

end

interpretation wf_run: log_machine "Apply lim" "\<lambda>_. True" "\<lambda>s. healthy s \<and> wf_store s"
  by unfold_locales (simp add: Apply_healthy Apply_wf)

subsection \<open>Which keys an entry may create\<close>

definition may_create :: "byte \<Rightarrow> bytes \<Rightarrow> bytes \<Rightarrow> bytes \<Rightarrow> bool" where
  "may_create op key value k \<longleftrightarrow>
     (op = OpSet \<and> k = key) \<or> (op = OpConfirm \<and> k = value) \<or>
     (op = OpAppendCommandRequest \<and> (k = key \<or> prefix AllPeerGroupsPrefix k)) \<or>
     (op = OpTxn \<and> (\<exists>ops. DecodeTxnPayload value = Inr ops \<and> (\<exists>x \<in> set ops. Op x = TxnOpSet \<and> Key x = k)))"

definition entry_may_create :: "raft_log \<Rightarrow> bytes \<Rightarrow> bool" where
  "entry_may_create l k \<longleftrightarrow>
     (\<exists>op key value. decodeCommand (Data l) = Inr (op, key, value) \<and> may_create op key value k)"

definition absent :: "bytes \<Rightarrow> table \<Rightarrow> bool" where
  "absent k t \<longleftrightarrow> k \<notin> fst ` set t"

lemma set_tbl_upsert_subset: "set (tbl_upsert k v t) \<subseteq> insert (k, v) (set t)"
  by (auto simp: tbl_upsert_def dest: set_takeWhileD set_dropWhileD)

lemma keeps_absent_set: "k' \<noteq> k \<Longrightarrow> keeps (absent k) (set_kv k' v)"
  unfolding set_kv_def by (rule keeps_exec) (use set_tbl_upsert_subset in \<open>fastforce simp: absent_def\<close>)

lemma keeps_absent_del: "keeps (absent k) (del k')"
  unfolding del_def by (rule keeps_exec) (auto simp: absent_def tbl_delete_def)

lemma keeps_absent_loops:
  "keeps (absent k) (deleteAll ms)" "keeps (absent k) (deleteMatching parse g ms)"
proof -
  show "keeps (absent k) (deleteAll ms)"
    by (induction ms) (simp_all only: deleteAll.simps, (intro keeps_intros keeps_absent_del | assumption)+)
  show "keeps (absent k) (deleteMatching parse g ms)"
    by (induction ms) (simp_all only: deleteMatching.simps, (intro keeps_intros keeps_absent_del | assumption)+)
qed

lemma keeps_absent_cascade: "keeps (absent k) (applyCascadeDelete key)"
  unfolding applyCascadeDelete_def deleteRelationsByGroupID_def Let_def
  by (intro keeps_intros check_keeps keeps_absent_loops keeps_absent_del)

lemma keeps_absent_writes:
  "\<forall>x \<in> set ops. Op x = TxnOpSet \<longrightarrow> Key x \<noteq> k \<Longrightarrow> keeps (absent k) (applyWrites ops)"
proof (induction ops)
  case (Cons op ops)
  then have IH: "keeps (absent k) (applyWrites ops)" and h: "Op op = TxnOpSet \<Longrightarrow> Key op \<noteq> k" by simp_all
  show ?case
    by (simp only: applyWrites.simps, intro keeps_intros IH keeps_absent_set keeps_absent_del h)
qed (simp only: applyWrites.simps keeps_leaf)

lemma keeps_bind_lift:
  assumes "\<And>x. r = Inr x \<Longrightarrow> keeps P (f x)"
  shows "keeps P (bind_sto (lift_res r) f)"
  using assms by (cases r) (simp_all only: bind_sto_simps keeps_leaf)

lemma keeps_absent_grant:
  assumes "\<not> prefix AllPeerGroupsPrefix k"
  shows "keeps (absent k) (grantLoop peer gs)"
proof (induction gs)
  case (Cons g gs)
  have "key \<noteq> k" if "PeerGroupKey peer g = Inr key" for key
    using pg.all_prefix [OF that] assms by auto
  then show ?case
    by (simp only: grantLoop.simps) (intro keeps_bind_lift keeps_bind keeps_absent_set Cons)
qed (simp only: grantLoop.simps keeps_leaf)

lemma keeps_absent_applyOp:
  assumes "\<not> may_create op key value k"
  shows "keeps (absent k) (applyOp lim now op key value)"
proof -
  note intros = keeps_intros check_keeps keeps_absent_cascade keeps_absent_del
  have "keeps (absent k) (applyDel key)" "keeps (absent k) (applyCascade key)"
    "keeps (absent k) (applyConsumeInvite key)" "keeps (absent k) (applyConsumeExecInvite now key value)"
    unfolding apply_defs by (intro intros)+
  moreover have "keeps (absent k) (applySet lim key value)" if "k \<noteq> key"
    unfolding apply_defs by (intro intros keeps_absent_set that [symmetric])
  moreover have "keeps (absent k) (applyConfirm lim key value)" if "k \<noteq> value"
    unfolding apply_defs by (intro intros keeps_absent_set that [symmetric])
  moreover have "keeps (absent k) (applyAppendCommandRequest lim key value)"
    if "k \<noteq> key" "\<not> prefix AllPeerGroupsPrefix k"
    unfolding apply_defs grantChannelRelayAccess_def
    by (intro intros keeps_absent_set keeps_absent_grant that(1) [symmetric] that(2))
  moreover have "keeps (absent k) (applyTxn value)"
    if "\<forall>ops. DecodeTxnPayload value = Inr ops \<longrightarrow> (\<forall>x \<in> set ops. Op x = TxnOpSet \<longrightarrow> Key x \<noteq> k)"
  proof -
    have "keeps (absent k) (applyWrites ops)"
      if "wrap_err ''kvfsm: txn: decode payload: %w'' (DecodeTxnPayload value) = Inr ops" for ops
      using that \<open>\<forall>ops. DecodeTxnPayload value = Inr ops \<longrightarrow> (\<forall>x \<in> set ops. Op x = TxnOpSet \<longrightarrow> Key x \<noteq> k)\<close>
      by (intro keeps_absent_writes) simp
    then show ?thesis unfolding applyTxn_def by (intro keeps_bind_lift intros)
  qed
  ultimately show ?thesis using assms unfolding applyOp_def may_create_def by (auto simp: keeps_leaf)
qed

lemma keeps_absent_Apply: "\<not> entry_may_create l k \<Longrightarrow> keeps (absent k) (Apply lim l)"
  unfolding Apply_def
  by (intro keeps_bind_lift) (auto simp: entry_may_create_def intro!: keeps_absent_applyOp)

subsection \<open>Redeeming an invite at most once\<close>

definition consumes :: "bytes \<Rightarrow> raft_log \<Rightarrow> bool" where
  "consumes k l \<longleftrightarrow> (\<exists>op value. decodeCommand (Data l) = Inr (op, k, value) \<and>
     (op = OpConsumeInvite \<or> op = OpConsumeExecInvite))"

definition redemptions :: "bytes \<Rightarrow> raft_log list \<Rightarrow> bytes res list \<Rightarrow> nat" where
  "redemptions k ls rs = length (filter (\<lambda>(l, r). consumes k l \<and> \<not> isl r) (zip ls rs))"

lemma absent_delete: "absent k (tbl_delete k t)"
  by (auto simp: absent_def tbl_delete_def)

lemma absent_lookup: "absent k t \<Longrightarrow> map_of t k = None"
  by (simp add: absent_def map_of_eq_None_iff)

lemma consume_success:
  assumes "consumes k l" "Apply lim l s = (Inr v, s')"
  shows "\<not> absent k (kv s) \<and> absent k (kv s')"
proof -
  from assms obtain op peer where d: "decodeCommand (Data l) = Inr (op, k, peer)"
    and op: "op = OpConsumeInvite \<or> op = OpConsumeExecInvite"
    by (auto simp: consumes_def)
  have A: "Apply lim l s = applyOp lim (AppendedAt l) op k peer s" by (simp add: Apply_def d)
  obtain u s1 w s2 x where "get k s = (Inr u, s1)" "del k s2 = (Inr x, s')"
  proof (cases "op = OpConsumeInvite")
    case True
    then have "applyConsumeInvite k s = (Inr v, s')" using A assms(2) by (simp add: applyOp_def)
    then show thesis using that
      by (auto simp: applyConsumeInvite_def wrap_sto_Inr elim!: bind_sto_InrE)
  next
    case False
    then have "applyConsumeExecInvite (AppendedAt l) k peer s = (Inr v, s')" using A op assms(2) by (simp add: applyOp_def)
    then show thesis using that
      by (auto simp: applyConsumeExecInvite_def wrap_sto_Inr elim!: bind_sto_InrE split: if_splits prod.splits)
  qed
  then show ?thesis using get_Inr [of k s u s1] del_Inr [of k s2 x s'] absent_delete absent_lookup by fastforce
qed

lemma redemptions_Cons:
  "redemptions k (l # ls) (r # rs) = (if consumes k l \<and> \<not> isl r then 1 else 0) + redemptions k ls rs"
  by (simp add: redemptions_def)

lemma absent_step:
  "\<not> entry_may_create l k \<Longrightarrow> absent k (kv s) \<Longrightarrow> absent k (kv (snd (Apply lim l s)))"
  using keeps_absent_Apply [of l k lim] by (simp add: keeps_def)

lemma no_redemption_when_absent:
  assumes "list_all (\<lambda>l. \<not> entry_may_create l k) ls" "absent k (kv s)"
  shows "redemptions k ls (fst (run_log (Apply lim) ls s)) = 0"
  using assms
proof (induction ls arbitrary: s)
  case Nil
  then show ?case by (simp add: redemptions_def)
next
  case (Cons l ls)
  obtain r s1 where a: "Apply lim l s = (r, s1)" by fastforce
  obtain rs s2 where b: "run_log (Apply lim) ls s1 = (rs, s2)" by fastforce
  have "absent k (kv s1)" using absent_step [of l k s lim] Cons.prems a by simp
  then have "redemptions k ls rs = 0" using Cons.IH [of s1] Cons.prems b by simp
  moreover have "\<not> (consumes k l \<and> \<not> isl r)"
    using consume_success [of k l lim s _ s1] a Cons.prems(2) by (cases r) auto
  ultimately show ?case by (simp add: a b redemptions_Cons)
qed

lemma at_most_one_redemption:
  assumes "list_all (\<lambda>l. \<not> entry_may_create l k) ls"
  shows "redemptions k ls (fst (run_log (Apply lim) ls s)) \<le> 1"
  using assms
proof (induction ls arbitrary: s)
  case Nil
  then show ?case by (simp add: redemptions_def)
next
  case (Cons l ls)
  obtain r s1 where a: "Apply lim l s = (r, s1)" by fastforce
  obtain rs s2 where b: "run_log (Apply lim) ls s1 = (rs, s2)" by fastforce
  show ?case
  proof (cases "consumes k l \<and> \<not> isl r")
    case True
    then obtain v where "r = Inr v" by (cases r) auto
    with True a have "absent k (kv s1)" using consume_success by blast
    then have "redemptions k ls rs = 0" using no_redemption_when_absent [of k ls s1 lim] Cons.prems b by simp
    then show ?thesis by (simp add: a b redemptions_Cons)
  next
    case False
    have "redemptions k ls rs \<le> 1" using Cons.IH [of s1] Cons.prems b by simp
    with False show ?thesis by (auto simp: a b redemptions_Cons)
  qed
qed

subsection \<open>The catalog invariant\<close>

text \<open>
  \<open>entry_ok\<close> is what the daemon submits: a confirm targets a confirmed-status key, and a
  transaction touches no system key (its handler rejects reserved keys). Under it the
  catalog keeps unique group names and capped lists. Membership records are exempt from the
  cap: the channel/relay grant writes them without the check.
\<close>

definition entry_ok :: "raft_log \<Rightarrow> bool" where
  "entry_ok l \<longleftrightarrow> (case decodeCommand (Data l) of Inl _ \<Rightarrow> True
     | Inr (op, key, value) \<Rightarrow>
         (op = OpConfirm \<longrightarrow> is_system_key value \<and> value ! 2 = StatusConfirmed) \<and>
         (op = OpTxn \<longrightarrow> (case DecodeTxnPayload value of Inl _ \<Rightarrow> True
            | Inr ops \<Rightarrow> list_all (\<lambda>x. \<not> is_system_key (Key x)) ops)))"

definition group_range :: "bytes \<Rightarrow> bool" where
  "group_range k \<longleftrightarrow> fst GroupKeyBounds \<le> k \<and> k \<le> snd GroupKeyBounds"

definition names_ok :: "table \<Rightarrow> bool" where
  "names_ok t \<longleftrightarrow> (\<forall>r \<in> set t. group_range (fst r) \<longrightarrow> snd r \<noteq> []) \<and>
     (\<forall>r \<in> set t. \<forall>q \<in> set t. group_range (fst r) \<and> group_range (fst q) \<and> fst r \<noteq> fst q \<longrightarrow>
        drop 1 (snd r) \<noteq> drop 1 (snd q))"

definition list_size :: "byte \<Rightarrow> byte \<Rightarrow> table \<Rightarrow> nat" where
  "list_size kind st t = length (filter (\<lambda>r. prefix [SystemKeyPrefix, kind, st] (fst r)) t)"

definition caps_ok :: "limits \<Rightarrow> table \<Rightarrow> bool" where
  "caps_ok lim t \<longleftrightarrow> (\<forall>kind st. kind \<noteq> KindPeerGroup \<longrightarrow> list_size kind st t \<le> list_limit lim kind)"

definition catalog_ok :: "limits \<Rightarrow> table \<Rightarrow> bool" where
  "catalog_ok lim t \<longleftrightarrow> tbl_ok t \<and> names_ok t \<and> caps_ok lim t"

lemma group_range_system: "group_range k \<Longrightarrow> \<exists>r. k = SystemKey KindGroup 0 r"
  by (auto simp: group_range_def GroupKeyBounds_def keyListBounds_def Let_def pad_range_iff SystemKey_append [symmetric])

lemma names_ok_subset: "names_ok t \<Longrightarrow> set u \<subseteq> set t \<Longrightarrow> names_ok u"
  unfolding names_ok_def by (meson subsetD)

lemma length_filter_upsert:
  assumes "tbl_ok t"
  shows "length (filter (\<lambda>r. P (fst r)) (tbl_upsert k v t)) =
    length (filter (\<lambda>r. P (fst r)) t) + (if P k \<and> map_of t k = None then 1 else 0)"
proof -
  have "{x \<in> dom (map_of (tbl_upsert k v t)). P x} =
      (if P k then insert k {x \<in> dom (map_of t). P x} else {x \<in> dom (map_of t). P x})"
    using assms by auto
  moreover have "finite {x \<in> dom (map_of t). P x}" using finite_dom_map_of [of t] by simp
  moreover have "k \<in> {x \<in> dom (map_of t). P x} \<longleftrightarrow> P k \<and> map_of t k \<noteq> None" by auto
  ultimately show ?thesis
    using assms card_filter_keys [OF assms, of P] card_filter_keys [OF tbl_ok_upsert [OF assms], of P k v]
    by (auto simp: card_insert_if)
qed

lemma catalog_ok_filter: "catalog_ok lim t \<Longrightarrow> catalog_ok lim (filter P t)"
proof -
  assume c: "catalog_ok lim t"
  have "list_size kind st (filter P t) \<le> list_size kind st t" for kind st
    unfolding list_size_def filter_filter
    by (metis (no_types, lifting) filter_filter length_filter_le filter_cong conj_commute)
  then have "caps_ok lim (filter P t)"
    using c unfolding catalog_ok_def caps_ok_def by (meson le_trans)
  with c show ?thesis unfolding catalog_ok_def by (auto intro: names_ok_subset)
qed

definition exempt :: "bytes \<Rightarrow> bool" where
  "exempt k \<longleftrightarrow> \<not> is_system_key k \<or> prefix AllPeerGroupsPrefix k"

lemma exempt_not_group: "exempt k \<Longrightarrow> \<not> group_range k"
  using group_range_system [of k]
  by (auto simp: exempt_def AllPeerGroupsPrefix_def)

lemma prefix_system_key: "prefix [0, kind, st] k \<Longrightarrow> is_system_key k \<and> k ! 1 = kind \<and> k ! 2 = st \<and> take 3 k = [0, kind, st]"
  by (auto simp: prefix_def is_system_key_def)

lemma exempt_not_listed: "exempt k \<Longrightarrow> kind \<noteq> KindPeerGroup \<Longrightarrow> \<not> prefix [0, kind, st] k"
  by (auto simp: exempt_def AllPeerGroupsPrefix_def SystemKey_def prefix_def is_system_key_def)

lemma names_ok_upsert_other:
  assumes "names_ok t" "\<not> group_range k"
  shows "names_ok (tbl_upsert k v t)"
proof -
  have "r \<in> set t" if "r \<in> set (tbl_upsert k v t)" "group_range (fst r)" for r
    using that set_tbl_upsert_subset [of k v t] assms(2) by auto
  with assms(1) show ?thesis unfolding names_ok_def by blast
qed

lemma catalog_ok_upsert_exempt:
  assumes "catalog_ok lim t" "exempt k"
  shows "catalog_ok lim (tbl_upsert k v t)"
proof -
  have t: "tbl_ok t" using assms(1) by (simp add: catalog_ok_def)
  have "list_size kind st (tbl_upsert k v t) = list_size kind st t" if "kind \<noteq> KindPeerGroup" for kind st
    using length_filter_upsert [OF t, of "prefix [0, kind, st]" k v] exempt_not_listed [OF assms(2) that, of st]
    by (simp add: list_size_def)
  with assms t show ?thesis
    by (simp add: catalog_ok_def caps_ok_def names_ok_upsert_other exempt_not_group)
qed

lemma catalog_ok_upsert_checked:
  assumes "catalog_ok lim t" "names_ok (tbl_upsert k v t)"
    and "is_system_key k \<longrightarrow> map_of t k \<noteq> None \<or> list_size (k ! 1) (k ! 2) t < list_limit lim (k ! 1)"
  shows "catalog_ok lim (tbl_upsert k v t)"
proof -
  have t: "tbl_ok t" using assms(1) by (simp add: catalog_ok_def)
  have "list_size kind st (tbl_upsert k v t) \<le> list_limit lim kind" if n: "kind \<noteq> KindPeerGroup" for kind st
  proof -
    have le: "list_size kind st t \<le> list_limit lim kind"
      using assms(1) n by (simp add: catalog_ok_def caps_ok_def)
    show ?thesis
    proof (cases "prefix [0, kind, st] k \<and> map_of t k = None")
      case True
      with assms(3) prefix_system_key [of kind st k] have "list_size kind st t < list_limit lim kind" by auto
      then show ?thesis
        using length_filter_upsert [OF t, of "prefix [0, kind, st]" k v] by (simp add: list_size_def split: if_splits)
    next
      case False
      then show ?thesis
        using length_filter_upsert [OF t, of "prefix [0, kind, st]" k v] le by (auto simp: list_size_def)
    qed
  qed
  with assms(2) t show ?thesis by (simp add: catalog_ok_def caps_ok_def)
qed

text \<open>What a check that passed tells about the table, whatever the disk did.\<close>

lemma try_sto_Inr: "try_sto m s = (Inr r, s') \<longleftrightarrow> m s = (r, s')"
  by (auto simp: try_sto_def split: prod.splits)

lemma take3_system: "is_system_key k \<Longrightarrow> take 3 k = [0, k ! 1, k ! 2]"
  by (auto simp: is_system_key_iff SystemKey_def)

lemma bind_try_apply: "m s = (r, s') \<Longrightarrow> bind_sto (try_sto m) f s = f r s'"
  by (simp add: bind_sto_def try_sto_def)

lemma checkSystemListCap_Inr:
  assumes "checkSystemListCap lim key s = (Inr (), s')" "is_system_key key"
  shows "map_of (kv s) key \<noteq> None \<or> list_size (key ! 1) (key ! 2) (kv s) < list_limit lim (key ! 1)"
proof -
  obtain r s1 where g: "get key s = (r, s1)" by fastforce
  have k1: "kv s1 = kv s" using g read_only_ops(1) [of key] by (metis read_only_def snd_conv)
  show ?thesis
  proof (cases r)
    case (Inr v)
    then show ?thesis using get_Inr [of key s v s1] g by simp
  next
    case (Inl e)
    then have "bind_sto (countPrefix (take 3 key)) (\<lambda>count.
        if list_limit lim (key ! 1) \<le> count then fail (Errorf ''kvfsm: system list %x is at capacity (%d entries)'')
        else ret ()) s1 = (Inr (), s')"
      using assms g
      by (simp add: checkSystemListCap_def is_system_key_def bind_try_apply [where m = "get key"] split: if_splits)
    then obtain n s2 where n: "countPrefix (take 3 key) s1 = (Inr n, s2)" "n < list_limit lim (key ! 1)"
      by (auto elim!: bind_sto_InrE split: if_splits)
    then have "n = length (filter (\<lambda>r. prefix [0, key ! 1, key ! 2] (fst r)) (kv s))"
      using k1 take3_system [OF assms(2)] by (auto simp: countPrefix_def in_prefix_range_iff dest!: db_query_Inr)
    with n(2) show ?thesis by (simp add: list_size_def)
  qed
qed

lemma checkGroupNameUnique_Inr:
  assumes "checkGroupNameUnique key value s = (Inr (), s')" "key = SystemKey KindGroup st rest"
  shows "\<exists>b name. value = b # name \<and> nameClash key name (filter (\<lambda>r. group_range (fst r)) (kv s)) = Inr ()"
proof (cases "DecodeGroupPayload value")
  case (Inl e)
  with assms show ?thesis by (simp add: checkGroupNameUnique_def)
next
  case (Inr d)
  obtain name p where d: "d = (name, p)" by fastforce
  obtain lo hi where b: "GroupKeyBounds = (lo, hi)" by fastforce
  have "bind_sto (scanRange lo hi 0) (\<lambda>matches. lift_res (nameClash key name matches)) s = (Inr (), s')"
    using assms by (simp add: checkGroupNameUnique_def b Inr d)
  then have "nameClash key name (filter (\<lambda>r. lo \<le> fst r \<and> fst r \<le> hi) (kv s)) = Inr ()"
    by (auto simp: scanRange_def limit_rows_def elim!: bind_sto_InrE dest!: db_query_Inr)
  with Inr d show ?thesis by (auto simp: codec_simps group_range_def b)
qed

lemma names_ok_upsert_group:
  assumes "names_ok t" "tbl_ok t" "nameClash k name (filter (\<lambda>r. group_range (fst r)) t) = Inr ()"
  shows "names_ok (tbl_upsert k (b # name) t)"
proof -
  have s: "set (tbl_upsert k (b # name) t) = insert (k, b # name) {r \<in> set t. fst r \<noteq> k}"
    by (rule set_tbl_upsert [OF assms(2)])
  have other: "drop 1 (snd r) \<noteq> name" if "r \<in> set t" "fst r \<noteq> k" "group_range (fst r)" for r
  proof -
    have "r \<in> set (filter (\<lambda>r. group_range (fst r)) t)" and nk: "fst r \<noteq> k" using that by simp_all
    then obtain n p where "DecodeGroupPayload (snd r) = Inr (n, p)" "n \<noteq> name"
      using assms(3) unfolding nameClash_Inr by blast
    then show ?thesis by (auto simp: codec_simps)
  qed
  have old: "drop 1 (snd r) \<noteq> drop 1 (snd q)"
    if "r \<in> set t" "q \<in> set t" "group_range (fst r)" "group_range (fst q)" "fst r \<noteq> fst q" for r q
    using assms(1) that unfolding names_ok_def by blast
  show ?thesis unfolding names_ok_def s
  proof (intro conjI ballI impI)
    fix r assume "r \<in> insert (k, b # name) {r \<in> set t. fst r \<noteq> k}" "group_range (fst r)"
    then show "snd r \<noteq> []" using assms(1) by (auto simp: names_ok_def)
  next
    fix r q
    assume r: "r \<in> insert (k, b # name) {r \<in> set t. fst r \<noteq> k}" and q: "q \<in> insert (k, b # name) {r \<in> set t. fst r \<noteq> k}"
      and h: "group_range (fst r) \<and> group_range (fst q) \<and> fst r \<noteq> fst q"
    show "drop 1 (snd r) \<noteq> drop 1 (snd q)"
    proof (cases "r = (k, b # name)")
      case True
      then have qk: "fst q \<noteq> k" using h by auto
      then have "q \<in> set t" using q by auto
      with qk h True other [of q] show ?thesis by auto
    next
      case False
      with r q h other [of r] old [of r q] show ?thesis by auto
    qed
  qed
qed

lemma set_success:
  assumes "applySet lim key value s = (Inr r, s')"
  obtains v s1 s2 s3 where "checkSystemListCap lim key s = (Inr (), s1)" "checkGroupNameUnique key value s1 = (Inr (), s2)"
    "preserveCommandSpec key value s2 = (Inr v, s3)" "kv s1 = kv s" "kv s' = tbl_upsert key v (kv s)"
proof -
  from assms obtain u1 s1 u2 s2 v s3 u4 where
    a: "checkSystemListCap lim key s = (Inr u1, s1)" "checkGroupNameUnique key value s1 = (Inr u2, s2)"
    "preserveCommandSpec key value s2 = (Inr v, s3)" "set_kv key v s3 = (Inr u4, s')"
    by (auto simp: applySet_def elim!: bind_sto_InrE)
  have "kv s1 = kv s" "kv s2 = kv s1" "kv s3 = kv s2"
    using a read_only_checks by (metis read_only_def snd_conv)+
  then show thesis using that a set_kv_Inr [OF a(4)] by auto
qed

lemma preserve_not_command:
  "preserveCommandSpec (SystemKey kind st rest) value s = (Inr v, s') \<Longrightarrow> kind \<noteq> KindCommand \<Longrightarrow> v = value"
  using preserveCommandSpec_other [of "SystemKey kind st rest" "value" s] by auto

lemma keeps_catalog_set: "keeps (catalog_ok lim) (applySet lim key value)"
  unfolding keeps_def
proof (intro allI impI)
  fix s :: store
  assume c: "catalog_ok lim (kv s)"
  obtain r s' where a: "applySet lim key value s = (r, s')" by fastforce
  show "catalog_ok lim (kv (snd (applySet lim key value s)))"
  proof (cases r)
    case (Inl e)
    with a c atomic_applyOps(1) [of lim key "value"] show ?thesis by (auto simp: atomic_def dest: spec [of _ s])
  next
    case (Inr x)
    with a obtain v s1 s2 s3 where ok: "checkSystemListCap lim key s = (Inr (), s1)"
        "checkGroupNameUnique key value s1 = (Inr (), s2)" "preserveCommandSpec key value s2 = (Inr v, s3)"
        "kv s1 = kv s" "kv s' = tbl_upsert key v (kv s)"
      by (blast elim: set_success)
    have "names_ok (tbl_upsert key v (kv s))"
    proof (cases "\<exists>st rest. key = SystemKey KindGroup st rest")
      case True
      then obtain st rest where k: "key = SystemKey KindGroup st rest" by blast
      then have v: "v = value" using ok(3) preserve_not_command by simp
      from checkGroupNameUnique_Inr [OF ok(2) k] c show ?thesis
        unfolding v ok(4) catalog_ok_def by (auto intro: names_ok_upsert_group)
    next
      case False
      then have "\<not> group_range key" using group_range_system by blast
      with c show ?thesis by (simp add: catalog_ok_def names_ok_upsert_other)
    qed
    with c checkSystemListCap_Inr [OF ok(1)] have "catalog_ok lim (tbl_upsert key v (kv s))"
      by (intro catalog_ok_upsert_checked) auto
    with a ok(5) show ?thesis by simp
  qed
qed

lemma keeps_catalog_set_kv: "exempt k \<Longrightarrow> keeps (catalog_ok lim) (set_kv k v)"
  unfolding set_kv_def by (rule keeps_exec) (rule catalog_ok_upsert_exempt)

lemma keeps_catalog_del: "keeps (catalog_ok lim) (del k)"
  unfolding del_def by (rule keeps_exec) (simp add: tbl_delete_def catalog_ok_filter)

lemma keeps_catalog_loops:
  "keeps (catalog_ok lim) (deleteAll ms)" "keeps (catalog_ok lim) (deleteMatching parse g ms)"
proof -
  show "keeps (catalog_ok lim) (deleteAll ms)"
    by (induction ms) (simp_all only: deleteAll.simps, (intro keeps_intros keeps_catalog_del | assumption)+)
  show "keeps (catalog_ok lim) (deleteMatching parse g ms)"
    by (induction ms) (simp_all only: deleteMatching.simps, (intro keeps_intros keeps_catalog_del | assumption)+)
qed

lemma keeps_catalog_cascade: "keeps (catalog_ok lim) (applyCascadeDelete key)"
  unfolding applyCascadeDelete_def deleteRelationsByGroupID_def Let_def
  by (intro keeps_intros check_keeps keeps_catalog_loops keeps_catalog_del)

lemma keeps_catalog_grant: "keeps (catalog_ok lim) (grantLoop peer gs)"
proof (induction gs)
  case (Cons g gs)
  have "exempt key" if "PeerGroupKey peer g = Inr key" for key
    using pg.all_prefix [OF that] by (simp add: exempt_def)
  then show ?case
    by (simp only: grantLoop.simps) (intro keeps_bind_lift keeps_bind keeps_catalog_set_kv Cons)
qed (simp only: grantLoop.simps keeps_leaf)

lemma keeps_catalog_writes:
  "list_all (\<lambda>x. \<not> is_system_key (Key x)) ops \<Longrightarrow> keeps (catalog_ok lim) (applyWrites ops)"
proof (induction ops)
  case (Cons op ops)
  then have IH: "keeps (catalog_ok lim) (applyWrites ops)" and e: "exempt (Key op)" by (simp_all add: exempt_def)
  show ?case
    by (simp only: applyWrites.simps, intro keeps_intros IH keeps_catalog_set_kv keeps_catalog_del e)
qed (simp only: applyWrites.simps keeps_leaf)

lemma keeps_catalog_confirm:
  assumes "is_system_key value" "value ! 2 = StatusConfirmed"
  shows "keeps (catalog_ok lim) (applyConfirm lim key value)"
  unfolding keeps_def
proof (intro allI impI)
  fix s :: store
  assume c: "catalog_ok lim (kv s)"
  obtain r s' where a: "applyConfirm lim key value s = (r, s')" by fastforce
  show "catalog_ok lim (kv (snd (applyConfirm lim key value s)))"
  proof (cases r)
    case (Inl e)
    with a c atomic_applyOps(3) [of lim key "value"] show ?thesis by (auto simp: atomic_def dest: spec [of _ s])
  next
    case (Inr x)
    with a obtain v s1 u2 s2 where ok: "get key s = (Inr v, s1)" "checkSystemListCap lim value s1 = (Inr u2, s2)"
      and w: "WithTx (bind_sto (set_kv value v) (\<lambda>_. del key)) s2 = (Inr (), s')"
      by (auto simp: applyConfirm_def wrap_sto_Inr elim!: bind_sto_InrE)
    have k1: "kv s1 = kv s" using get_Inr [OF ok(1)] by simp
    have k2: "kv s2 = kv s1" using ok(2) read_only_checks(1) by (metis read_only_def snd_conv)
    have "\<not> isl (fst (WithTx (bind_sto (set_kv value v) (\<lambda>_. del key)) s2))" using w by simp
    then obtain s3 s4 where t: "bind_sto (set_kv value v) (\<lambda>_. del key) s3 = (Inr (), s4)" "kv s3 = kv s2"
      "kv (snd (WithTx (bind_sto (set_kv value v) (\<lambda>_. del key)) s2)) = kv s4"
      by (rule WithTx_all_or_nothing_cases)
    with w have kv': "kv s' = tbl_delete key (tbl_upsert value v (kv s))"
      using k1 k2 by (auto elim!: bind_sto_InrE dest!: set_kv_Inr del_Inr)
    have "\<not> group_range value" using assms group_range_system [of "value"] by (auto simp: SystemKey_def)
    then have "names_ok (tbl_upsert value v (kv s))" using c by (simp add: catalog_ok_def names_ok_upsert_other)
    moreover have "map_of (kv s) value \<noteq> None \<or> list_size (value ! 1) (value ! 2) (kv s) < list_limit lim (value ! 1)"
      using checkSystemListCap_Inr [OF _ assms(1), of lim s1 s2] ok(2) k1 by simp
    ultimately have "catalog_ok lim (tbl_upsert value v (kv s))" using c by (intro catalog_ok_upsert_checked) auto
    with a kv' show ?thesis by (simp add: tbl_delete_def catalog_ok_filter)
  qed
qed

lemma keeps_catalog_append: "keeps (catalog_ok lim) (applyAppendCommandRequest lim key value)"
proof -
  have "exempt key" if "wrap_err w (ParseKey key) = Inr (kind, u, ts)" for w kind u ts
    using that ParseKey_Inr [of key kind u ts] by (simp add: exempt_def is_system_key_def)
  then show ?thesis
    unfolding applyAppendCommandRequest_def grantChannelRelayAccess_def
    by (intro keeps_bind_lift keeps_intros check_keeps keeps_catalog_set_kv keeps_catalog_grant)
      (auto intro!: keeps_intros keeps_bind_lift check_keeps keeps_catalog_set_kv keeps_catalog_grant split: option.split)
qed

lemma keeps_catalog_Apply:
  assumes "entry_ok l"
  shows "keeps (catalog_ok lim) (Apply lim l)"
proof (cases "decodeCommand (Data l)")
  case (Inl e)
  then show ?thesis by (simp add: Apply_def keeps_def)
next
  case (Inr c)
  obtain op key v where c: "c = (op, key, v)" using prod_cases3 by blast
  note intros = keeps_intros check_keeps keeps_catalog_cascade keeps_catalog_del
  have "keeps (catalog_ok lim) (applyDel key)" "keeps (catalog_ok lim) (applyCascade key)"
    "keeps (catalog_ok lim) (applyConsumeInvite key)" "keeps (catalog_ok lim) (applyConsumeExecInvite now key v)" for now
    unfolding apply_defs by (intro intros)+
  moreover have "keeps (catalog_ok lim) (applyConfirm lim key v)" if "op = OpConfirm"
    using assms that by (intro keeps_catalog_confirm) (simp_all add: entry_ok_def Inr c)
  moreover have "keeps (catalog_ok lim) (applyTxn v)" if "op = OpTxn"
  proof -
    have "keeps (catalog_ok lim) (applyWrites ops)" if "wrap_err w (DecodeTxnPayload v) = Inr ops" for ops w
      using that assms \<open>op = OpTxn\<close> by (intro keeps_catalog_writes) (simp add: entry_ok_def Inr c)
    then show ?thesis unfolding applyTxn_def by (intro keeps_bind_lift intros)
  qed
  ultimately have "keeps (catalog_ok lim) (applyOp lim (AppendedAt l) op key v)"
    unfolding applyOp_def by (intro keeps_branch keeps_leaf keeps_catalog_set keeps_catalog_append)
  then show ?thesis by (simp add: Apply_def Inr c)
qed

interpretation catalog_run: log_machine "Apply lim" entry_ok "\<lambda>s. catalog_ok lim (kv s)"
  by unfold_locales (use keeps_catalog_Apply in \<open>auto simp: keeps_def\<close>)

subsection \<open>Properties\<close>

text \<open>
  C6. An invite is redeemed at most once: along any log none of whose entries writes the
  invite's key again, at most one consume entry for it succeeds, whatever the starting table
  and whatever faults the disk reports, so two racing redemptions have exactly one winner.
\<close>

theorem invite_redeemed_at_most_once:
  assumes "list_all (\<lambda>l. \<not> entry_may_create l k) ls"
  shows "redemptions k ls (fst (run_log (Apply lim) ls s)) \<le> 1"
  using assms by (rule at_most_one_redemption)

theorem invite_redeemed_at_most_once_witness:
  "redemptions [0, 10, 0, 3] (replicate 2 \<lparr>Data = EncodeCommand OpConsumeInvite [0, 10, 0, 3] [], AppendedAt = 0\<rparr>)
     (fst (run_log (Apply default_limits)
        (replicate 2 \<lparr>Data = EncodeCommand OpConsumeInvite [0, 10, 0, 3] [], AppendedAt = 0\<rparr>)
        \<lparr>kv = [([0, 10, 0, 3], [1])], faults = []\<rparr>)) \<le> 1"
  by (rule invite_redeemed_at_most_once)
    (simp add: numeral_2_eq_2, simp add: entry_may_create_def may_create_def codec_simps)






end
