(* ===== verification/Web_Learner.thy ===== *)
theory Web_Learner
  imports FSM_Invariants
begin

text \<open>
  The browser's raft learner (src/web-app/src/fsm.rs, sqlite_store.rs, learner.rs), written in Rust beside
  the Go state machine it follows: the log and state tables of its database, the handlers of the
  raft requests, and the application of committed entries. Every SQL statement may fail. Indices
  and terms are natural numbers; the code keeps them in 64-bit columns. Memory offsets are of the 32 bits of
  \<^verbatim>\<open>usize\<close> in WebAssembly. The lemmas relate the learner's log and table to the cluster's, its votes to
  raft's rule of one vote a term, and its table to the one a Go voter builds from the same log.
\<close>

subsection \<open>Commands and snapshots\<close>

datatype WebOp = Op_Set | Op_Del

definition from_byte :: "byte \<Rightarrow> WebOp option" where
  "from_byte b = (if b = 1 then Some Op_Set else if b = 2 then Some Op_Del else None)"

record web_command =
  c_op :: WebOp
  c_key :: bytes
  c_value :: bytes

text \<open>\<open>usize_add\<close> wraps; \<open>range_index\<close> is \<^verbatim>\<open>data[a..b]\<close>, where \<open>None\<close> stands for the panic. So \<open>decode_command\<close> yields \<open>None\<close> when it panics.\<close>

definition usize_add :: "nat \<Rightarrow> nat \<Rightarrow> nat" where
  "usize_add a b = (a + b) mod 2 ^ 32"

definition range_index :: "nat \<Rightarrow> nat \<Rightarrow> bytes \<Rightarrow> bytes option" where
  "range_index a b data = (if a \<le> b \<and> b \<le> length data then Some (slice a b data) else None)"

definition decode_command :: "bytes \<Rightarrow> web_command res option" where
  "decode_command data =
     (if length data < 5 then Some (Inl (Errorf ''fsm: command too short''))
      else case from_byte (data ! 0) of
        None \<Rightarrow> Some (Inl (Errorf ''fsm: unknown op''))
      | Some op \<Rightarrow> let klen = be_dec (slice 1 5 data); off = 5 in
          if length data < usize_add off klen then Some (Inl (Errorf ''fsm: truncated key''))
          else case range_index off (usize_add off klen) data of
            None \<Rightarrow> None
          | Some key \<Rightarrow> let off = off + klen in
              if length data < usize_add off 4 then Some (Inl (Errorf ''fsm: missing value length''))
              else case range_index off (usize_add off 4) data of
                None \<Rightarrow> None
              | Some vl \<Rightarrow> let vlen = be_dec vl; off = off + 4 in
                  if length data < usize_add off vlen then Some (Inl (Errorf ''fsm: truncated value''))
                  else case range_index off (usize_add off vlen) data of
                    None \<Rightarrow> None
                  | Some val \<Rightarrow> Some (Inr \<lparr>c_op = op, c_key = key, c_value = val\<rparr>))"

function decode_snapshot_entries :: "bytes \<Rightarrow> (bytes \<times> bytes) list res" where
  "decode_snapshot_entries data =
     (if data = [] then Inr []
      else if length data < 4 then Inl (Errorf ''fsm: truncated snapshot key length'')
      else let klen = be_dec (take 4 data); data = drop 4 data in
        if length data < klen then Inl (Errorf ''fsm: truncated snapshot key'')
        else let key = take klen data; data = drop klen data in
          if length data < 4 then Inl (Errorf ''fsm: truncated snapshot value length'')
          else let vlen = be_dec (take 4 data); data = drop 4 data in
            if length data < vlen then Inl (Errorf ''fsm: truncated snapshot value'')
            else let val = take vlen data; data = drop vlen data in
              bind_res (decode_snapshot_entries data) (\<lambda>out. Inr ((key, val) # out)))"
  by pat_completeness auto
termination
  by (relation "measure length") auto

declare decode_snapshot_entries.simps [simp del]

subsection \<open>The database\<close>

text \<open>
  \<open>d_log\<close> is the table \<^verbatim>\<open>raft_log\<close>, one row per index; the fields after it are the row of \<^verbatim>\<open>raft_state\<close>. \<open>d_txn\<close> says whether
  a transaction is open, and \<open>d_faults\<close> which of the next statements fail.
\<close>

record webdb =
  d_kv :: table
  d_log :: "(nat \<times> nat \<times> bytes) list"
  d_term :: nat
  d_included :: "nat \<times> nat"
  d_commit :: nat
  d_applied :: nat
  d_voted :: "bytes option"
  d_txn :: bool
  d_faults :: "bool list"

text \<open>A database the schema has just created.\<close>

definition web_fresh :: webdb where
  "web_fresh = \<lparr>d_kv = [], d_log = [], d_term = 0, d_included = (0, 0), d_commit = 0, d_applied = 0, d_voted = None, d_txn = False, d_faults = []\<rparr>"

type_synonym 'a web = "(webdb, 'a) comp"

definition sql :: "(webdb \<Rightarrow> ('a \<times> webdb) option) \<Rightarrow> 'a web" where
  "sql f d = (case d_faults d of
      True # fs \<Rightarrow> (Inl ErrDB, d\<lparr>d_faults := fs\<rparr>)
    | fs \<Rightarrow> (case f (d\<lparr>d_faults := tl fs\<rparr>) of
        None \<Rightarrow> (Inl ErrDB, d\<lparr>d_faults := tl fs\<rparr>)
      | Some (x, d') \<Rightarrow> (Inr x, d')))"

definition sql_query :: "(webdb \<Rightarrow> 'a) \<Rightarrow> 'a web" where
  "sql_query q = sql (\<lambda>d. Some (q d, d))"

definition sql_exec :: "(webdb \<Rightarrow> webdb) \<Rightarrow> unit web" where
  "sql_exec u = sql (\<lambda>d. Some ((), u d))"

definition kv_get :: "bytes \<Rightarrow> bytes option web" where
  "kv_get key = sql_query (\<lambda>d. map_of (d_kv d) key)"

definition kv_set :: "bytes \<Rightarrow> bytes \<Rightarrow> unit web" where
  "kv_set key val = sql_exec (\<lambda>d. d\<lparr>d_kv := tbl_upsert key val (d_kv d)\<rparr>)"

definition kv_delete :: "bytes \<Rightarrow> unit web" where
  "kv_delete key = sql_exec (\<lambda>d. d\<lparr>d_kv := tbl_delete key (d_kv d)\<rparr>)"

definition kv_scan_range :: "bytes \<Rightarrow> bytes \<Rightarrow> (bytes \<times> bytes) option web" where
  "kv_scan_range start stop = sql_query (\<lambda>d. case filter (\<lambda>r. start \<le> fst r \<and> fst r \<le> stop) (d_kv d) of [] \<Rightarrow> None | r # _ \<Rightarrow> Some r)"

definition begin_txn :: "unit web" where
  "begin_txn = sql (\<lambda>d. if d_txn d then None else Some ((), d\<lparr>d_txn := True\<rparr>))"

definition commit_txn :: "unit web" where
  "commit_txn = sql (\<lambda>d. if d_txn d then Some ((), d\<lparr>d_txn := False\<rparr>) else None)"

fun insert_all :: "(bytes \<times> bytes) list \<Rightarrow> unit web" where
  "insert_all [] = ret ()"
| "insert_all ((k, v) # es) =
     bind_sto (sql (\<lambda>d. if k \<in> fst ` set (d_kv d) then None else Some ((), d\<lparr>d_kv := tbl_upsert k v (d_kv d)\<rparr>))) (\<lambda>_. insert_all es)"

definition kv_replace_all :: "(bytes \<times> bytes) list \<Rightarrow> unit web" where
  "kv_replace_all entries =
     bind_sto begin_txn (\<lambda>_.
     bind_sto (sql_exec (\<lambda>d. d\<lparr>d_kv := []\<rparr>)) (\<lambda>_.
     bind_sto (insert_all entries) (\<lambda>_.
     commit_txn)))"

definition log_append :: "nat \<Rightarrow> nat \<Rightarrow> bytes \<Rightarrow> unit web" where
  "log_append i t data = sql_exec (\<lambda>d. d\<lparr>d_log := (i, t, data) # filter (\<lambda>r. fst r \<noteq> i) (d_log d)\<rparr>)"

definition log_get :: "nat \<Rightarrow> (nat \<times> bytes) option web" where
  "log_get i = sql_query (\<lambda>d. map_of (d_log d) i)"

definition log_get_term :: "nat \<Rightarrow> nat option web" where
  "log_get_term i = bind_sto (log_get i) (\<lambda>r. ret (map_option fst r))"

definition log_truncate_from :: "nat \<Rightarrow> unit web" where
  "log_truncate_from from = sql_exec (\<lambda>d. d\<lparr>d_log := filter (\<lambda>r. fst r < from) (d_log d)\<rparr>)"

definition log_truncate_through :: "nat \<Rightarrow> unit web" where
  "log_truncate_through through = sql_exec (\<lambda>d. d\<lparr>d_log := filter (\<lambda>r. fst r > through) (d_log d)\<rparr>)"

definition log_last_index :: "nat web" where
  "log_last_index = sql_query (\<lambda>d. foldr (\<lambda>r m. max (fst r) m) (d_log d) 0)"

definition current_term :: "nat web" where "current_term = sql_query d_term"
definition set_current_term :: "nat \<Rightarrow> unit web" where "set_current_term t = sql_exec (\<lambda>d. d\<lparr>d_term := t\<rparr>)"
definition last_included :: "(nat \<times> nat) web" where "last_included = sql_query d_included"
definition set_last_included :: "nat \<Rightarrow> nat \<Rightarrow> unit web" where "set_last_included i t = sql_exec (\<lambda>d. d\<lparr>d_included := (i, t)\<rparr>)"
definition commit_index :: "nat web" where "commit_index = sql_query d_commit"
definition set_commit_index :: "nat \<Rightarrow> unit web" where "set_commit_index i = sql_exec (\<lambda>d. d\<lparr>d_commit := i\<rparr>)"
definition last_applied :: "nat web" where "last_applied = sql_query d_applied"
definition set_last_applied :: "nat \<Rightarrow> unit web" where "set_last_applied i = sql_exec (\<lambda>d. d\<lparr>d_applied := i\<rparr>)"
definition voted_for :: "bytes option web" where "voted_for = sql_query d_voted"
definition set_voted_for :: "bytes option \<Rightarrow> unit web" where "set_voted_for c = sql_exec (\<lambda>d. d\<lparr>d_voted := c\<rparr>)"

subsection \<open>Requests and responses\<close>

record RpcHeader =
  protocol_version :: int
  rpc_id :: "bytes option"
  rpc_addr :: "bytes option"

definition PROTOCOL_VERSION :: int where "PROTOCOL_VERSION = 3"

record Log =
  lg_index :: nat
  lg_term :: nat
  log_type :: byte
  lg_data :: "bytes option"
  extensions :: "bytes option"

record AppendEntriesRequest =
  ae_header :: RpcHeader
  ae_term :: nat
  ae_leader :: "bytes option"
  prev_log_entry :: nat
  prev_log_term :: nat
  entries :: "Log list"
  leader_commit_index :: nat

record AppendEntriesResponse =
  aer_header :: RpcHeader
  aer_term :: nat
  last_log :: nat
  aer_success :: bool
  no_retry_backoff :: bool

record RequestVoteRequest =
  rv_header :: RpcHeader
  rv_term :: nat
  candidate :: "bytes option"
  rv_last_index :: nat
  rv_last_term :: nat
  leadership_transfer :: bool

record RequestVoteResponse =
  rvr_header :: RpcHeader
  rvr_term :: nat
  rvr_peers :: "bytes option"
  rvr_granted :: bool

record RequestPreVoteRequest =
  pv_header :: RpcHeader
  pv_term :: nat
  pv_last_index :: nat
  pv_last_term :: nat

record RequestPreVoteResponse =
  pvr_header :: RpcHeader
  pvr_term :: nat
  pvr_granted :: bool

record InstallSnapshotRequest =
  is_header :: RpcHeader
  snapshot_version :: int
  is_term :: nat
  is_leader :: "bytes option"
  is_last_index :: nat
  is_last_term :: nat
  is_peers :: "bytes option"
  configuration :: "bytes option"
  configuration_index :: nat
  is_size :: int

record InstallSnapshotResponse =
  isr_header :: RpcHeader
  isr_term :: nat
  isr_success :: bool

subsection \<open>The learner\<close>

record Learner =
  self_id :: bytes
  self_addr :: bytes

definition my_header :: "Learner \<Rightarrow> RpcHeader" where
  "my_header me = \<lparr>protocol_version = PROTOCOL_VERSION, rpc_id = Some (self_id me), rpc_addr = Some (self_addr me)\<rparr>"

definition last_log_index_term :: "(nat \<times> nat) web" where
  "last_log_index_term = bind_sto log_last_index (\<lambda>last_index.
     if last_index = 0 then last_included
     else bind_sto (log_get_term last_index) (\<lambda>t. ret (last_index, case t of None \<Rightarrow> 0 | Some x \<Rightarrow> x)))"

text \<open>An entry that does not decode is skipped; one that makes the decoder panic takes the learner with it.\<close>

definition apply_entry :: "bytes \<Rightarrow> unit web" where
  "apply_entry data = (case decode_command data of
      None \<Rightarrow> fail (Errorf ''panic'')
    | Some (Inl _) \<Rightarrow> ret ()
    | Some (Inr cmd) \<Rightarrow> (case c_op cmd of
        Op_Set \<Rightarrow> kv_set (c_key cmd) (c_value cmd)
      | Op_Del \<Rightarrow> kv_delete (c_key cmd)))"

text \<open>The loop of \<^verbatim>\<open>apply_committed\<close> runs once for each index between the last applied and the commit index.\<close>

fun apply_loop :: "nat \<Rightarrow> nat \<Rightarrow> unit web" where
  "apply_loop 0 a = ret ()"
| "apply_loop (Suc k) a =
     bind_sto (log_get (a + 1)) (\<lambda>r.
     bind_sto (case r of None \<Rightarrow> ret () | Some (_, data) \<Rightarrow> apply_entry data) (\<lambda>_.
     bind_sto (set_last_applied (a + 1)) (\<lambda>_.
     apply_loop k (a + 1))))"

definition apply_committed :: "unit web" where
  "apply_committed =
     bind_sto commit_index (\<lambda>commit.
     bind_sto last_included (\<lambda>(included, _).
     bind_sto last_applied (\<lambda>a.
     let a = max a included in apply_loop (commit - a) a)))"

definition entry_data :: "Log \<Rightarrow> bytes" where
  "entry_data e = (case lg_data e of None \<Rightarrow> [] | Some d \<Rightarrow> d)"

fun append_loop :: "nat \<Rightarrow> Log list \<Rightarrow> nat \<Rightarrow> nat web" where
  "append_loop included [] last_new = ret last_new"
| "append_loop included (e # es) last_new =
     (if lg_index e \<le> included then append_loop included es (max last_new (lg_index e))
      else
        bind_sto (log_get_term (lg_index e)) (\<lambda>existing.
        bind_sto (case existing of
            Some t \<Rightarrow> if t = lg_term e then ret ()
              else bind_sto (log_truncate_from (lg_index e)) (\<lambda>_. log_append (lg_index e) (lg_term e) (entry_data e))
          | None \<Rightarrow> log_append (lg_index e) (lg_term e) (entry_data e)) (\<lambda>_.
        append_loop included es (lg_index e))))"

definition reject :: "Learner \<Rightarrow> nat \<Rightarrow> AppendEntriesResponse web" where
  "reject me t = bind_sto log_last_index (\<lambda>l.
     ret \<lparr>aer_header = my_header me, aer_term = t, last_log = l, aer_success = False, no_retry_backoff = False\<rparr>)"

text \<open>Taking a newer term forgets the vote.\<close>

definition adopt_term :: "nat \<Rightarrow> nat \<Rightarrow> nat web" where
  "adopt_term t cur = (if t > cur
     then bind_sto (set_current_term t) (\<lambda>_. bind_sto (set_voted_for None) (\<lambda>_. ret t))
     else ret cur)"

text \<open>The check of the entry before the new ones: \<open>Some False\<close> where there is no such entry, \<open>Some True\<close> where its term differs.\<close>

definition check_prev :: "AppendEntriesRequest \<Rightarrow> nat \<times> nat \<Rightarrow> bool option web" where
  "check_prev req inc = (if prev_log_entry req = 0 then ret None
     else bind_sto (if prev_log_entry req = fst inc then ret (Some (snd inc)) else log_get_term (prev_log_entry req)) (\<lambda>t.
       ret (case t of None \<Rightarrow> Some False | Some t \<Rightarrow> if t \<noteq> prev_log_term req then Some True else None)))"

definition accept_entries :: "Learner \<Rightarrow> AppendEntriesRequest \<Rightarrow> nat \<Rightarrow> nat \<Rightarrow> AppendEntriesResponse web" where
  "accept_entries me req included cur =
     bind_sto (append_loop included (entries req) (max (prev_log_entry req) included)) (\<lambda>last_new.
     bind_sto commit_index (\<lambda>c.
     bind_sto (if leader_commit_index req > c then set_commit_index (min (leader_commit_index req) last_new) else ret ()) (\<lambda>_.
     bind_sto apply_committed (\<lambda>_.
     bind_sto log_last_index (\<lambda>l.
     ret \<lparr>aer_header = my_header me, aer_term = cur, last_log = l, aer_success = True, no_retry_backoff = False\<rparr>)))))"

definition handle_append_entries :: "Learner \<Rightarrow> AppendEntriesRequest \<Rightarrow> AppendEntriesResponse web" where
  "handle_append_entries me req =
     bind_sto current_term (\<lambda>cur.
     if ae_term req < cur then reject me cur
     else bind_sto (adopt_term (ae_term req) cur) (\<lambda>cur.
       bind_sto last_included (\<lambda>inc.
       bind_sto (check_prev req inc) (\<lambda>bad. case bad of
           Some False \<Rightarrow> reject me cur
         | Some True \<Rightarrow> bind_sto (log_truncate_from (prev_log_entry req)) (\<lambda>_. reject me cur)
         | None \<Rightarrow> accept_entries me req (fst inc) cur))))"

definition up_to_date :: "nat \<Rightarrow> nat \<Rightarrow> nat \<times> nat \<Rightarrow> bool" where
  "up_to_date i t own = (t > snd own \<or> (t = snd own \<and> i \<ge> fst own))"

definition candidate_id :: "RequestVoteRequest \<Rightarrow> bytes option" where
  "candidate_id req = (case rpc_id (rv_header req) of None \<Rightarrow> candidate req | Some c \<Rightarrow> Some c)"

definition cast_vote :: "Learner \<Rightarrow> RequestVoteRequest \<Rightarrow> nat \<Rightarrow> RequestVoteResponse web" where
  "cast_vote me req cur = bind_sto last_log_index_term (\<lambda>own.
     bind_sto voted_for (\<lambda>voted.
     let granted = ((voted = None \<or> voted = candidate_id req) \<and> up_to_date (rv_last_index req) (rv_last_term req) own) in
     bind_sto (if granted then set_voted_for (candidate_id req) else ret ()) (\<lambda>_.
     ret \<lparr>rvr_header = my_header me, rvr_term = cur, rvr_peers = None, rvr_granted = granted\<rparr>)))"

definition handle_request_vote :: "Learner \<Rightarrow> RequestVoteRequest \<Rightarrow> RequestVoteResponse web" where
  "handle_request_vote me req =
     bind_sto current_term (\<lambda>cur.
     if rv_term req < cur then ret \<lparr>rvr_header = my_header me, rvr_term = cur, rvr_peers = None, rvr_granted = False\<rparr>
     else bind_sto (adopt_term (rv_term req) cur) (cast_vote me req))"

definition handle_request_pre_vote :: "Learner \<Rightarrow> RequestPreVoteRequest \<Rightarrow> RequestPreVoteResponse web" where
  "handle_request_pre_vote me req =
     bind_sto current_term (\<lambda>cur.
     if pv_term req < cur then ret \<lparr>pvr_header = my_header me, pvr_term = cur, pvr_granted = False\<rparr>
     else bind_sto last_log_index_term (\<lambda>own.
       ret \<lparr>pvr_header = my_header me, pvr_term = max cur (pv_term req),
         pvr_granted = up_to_date (pv_last_index req) (pv_last_term req) own\<rparr>))"

definition handle_install_snapshot :: "Learner \<Rightarrow> InstallSnapshotRequest \<Rightarrow> bytes \<Rightarrow> InstallSnapshotResponse web" where
  "handle_install_snapshot me req body = (case decode_snapshot_entries body of
      Inl _ \<Rightarrow> bind_sto current_term (\<lambda>cur. ret \<lparr>isr_header = my_header me, isr_term = cur, isr_success = False\<rparr>)
    | Inr es \<Rightarrow>
        bind_sto (kv_replace_all es) (\<lambda>_.
        bind_sto (log_truncate_through (is_last_index req)) (\<lambda>_.
        bind_sto (set_last_included (is_last_index req) (is_last_term req)) (\<lambda>_.
        bind_sto current_term (\<lambda>cur.
        bind_sto (if is_term req > cur then bind_sto (set_current_term (is_term req)) (\<lambda>_. ret (is_term req)) else ret cur) (\<lambda>cur.
        bind_sto commit_index (\<lambda>c.
        bind_sto (if is_last_index req > c then set_commit_index (is_last_index req) else ret ()) (\<lambda>_.
        bind_sto (set_last_applied (is_last_index req)) (\<lambda>_.
        ret \<lparr>isr_header = my_header me, isr_term = cur, isr_success = True\<rparr>)))))))))"

definition handle_timeout_now :: "Learner \<Rightarrow> RpcHeader \<Rightarrow> RpcHeader web" where
  "handle_timeout_now me req = ret (my_header me)"

definition learner_get :: "bytes \<Rightarrow> bytes option web" where
  "learner_get key = kv_get key"

definition scan_range :: "bytes \<Rightarrow> bytes \<Rightarrow> (bytes \<times> bytes) option web" where
  "scan_range start stop = kv_scan_range start stop"

subsection \<open>Statements that succeed\<close>

definition sound :: "webdb \<Rightarrow> bool" where
  "sound d \<longleftrightarrow> d_faults d = []"

lemma sound_upd [simp]:
  "sound (d\<lparr>d_kv := a\<rparr>) = sound d" "sound (d\<lparr>d_log := b\<rparr>) = sound d" "sound (d\<lparr>d_term := c\<rparr>) = sound d"
  "sound (d\<lparr>d_included := x\<rparr>) = sound d" "sound (d\<lparr>d_commit := e\<rparr>) = sound d" "sound (d\<lparr>d_applied := f\<rparr>) = sound d"
  "sound (d\<lparr>d_voted := g\<rparr>) = sound d" "sound (d\<lparr>d_txn := h\<rparr>) = sound d"
  by (simp_all add: sound_def)

lemma sql_sound: "sound d \<Longrightarrow> sql f d = (case f d of None \<Rightarrow> (Inl ErrDB, d) | Some (x, d') \<Rightarrow> (Inr x, d'))"
  by (cases d) (simp add: sql_def sound_def split: option.split)

lemma query_sound [simp]: "sound d \<Longrightarrow> sql_query q d = (Inr (q d), d)"
  by (simp add: sql_query_def sql_sound)

lemma exec_sound [simp]: "sound d \<Longrightarrow> sql_exec u d = (Inr (), u d)"
  by (simp add: sql_exec_def sql_sound)

lemma bind_sound [simp]:
  "sound d \<Longrightarrow> bind_sto (sql_query q) f d = f (q d) d" "sound d \<Longrightarrow> bind_sto (sql_exec u) g d = g () (u d)"
  by (simp_all add: bind_sto_def)

lemmas web_ops = kv_get_def kv_set_def kv_delete_def kv_scan_range_def log_append_def log_get_def log_truncate_from_def
  log_truncate_through_def log_last_index_def current_term_def set_current_term_def last_included_def set_last_included_def
  commit_index_def set_commit_index_def last_applied_def set_last_applied_def voted_for_def set_voted_for_def

lemma log_get_term_sound [simp]: "sound d \<Longrightarrow> bind_sto (log_get_term i) f d = f (map_option fst (map_of (d_log d) i)) d"
  by (simp add: log_get_term_def web_ops bind_assoc)

subsection \<open>Replaying a log\<close>

definition web_apply :: "bytes \<Rightarrow> table \<Rightarrow> table" where
  "web_apply data t = (case decode_command data of
      Some (Inr cmd) \<Rightarrow> (case c_op cmd of Op_Set \<Rightarrow> tbl_upsert (c_key cmd) (c_value cmd) t | Op_Del \<Rightarrow> tbl_delete (c_key cmd) t)
    | _ \<Rightarrow> t)"

lemma tbl_ok_web_apply [simp]: "tbl_ok t \<Longrightarrow> tbl_ok (web_apply data t)"
  by (simp add: web_apply_def split: option.split sum.split WebOp.split)

lemma apply_entry_sound:
  "sound d \<Longrightarrow> decode_command data \<noteq> None \<Longrightarrow> apply_entry data d = (Inr (), d\<lparr>d_kv := web_apply data (d_kv d)\<rparr>)"
  by (auto simp: apply_entry_def web_apply_def web_ops split: sum.split WebOp.split)

type_synonym log_fun = "nat \<Rightarrow> (nat \<times> bytes) option"

fun replay :: "log_fun \<Rightarrow> nat \<Rightarrow> table" where
  "replay L 0 = []"
| "replay L (Suc n) = (case L (Suc n) of None \<Rightarrow> replay L n | Some (_, data) \<Rightarrow> web_apply data (replay L n))"

lemma tbl_ok_replay [simp]: "tbl_ok (replay L n)"
  by (induction n) (auto split: option.split)

definition decodable :: "log_fun \<Rightarrow> bool" where
  "decodable L \<longleftrightarrow> (\<forall>i t data. L i = Some (t, data) \<longrightarrow> decode_command data \<noteq> None)"

lemma apply_loop_sound:
  assumes "sound d" "decodable L" "d_applied d = a" "d_kv d = replay L a" "\<And>j. a < j \<Longrightarrow> j \<le> a + k \<Longrightarrow> map_of (d_log d) j = L j"
  shows "apply_loop k a d = (Inr (), d\<lparr>d_kv := replay L (a + k), d_applied := a + k\<rparr>)"
  using assms
proof (induction k arbitrary: a d)
  case 0
  then show ?case by (simp add: sound_def)
next
  case (Suc k)
  have l: "map_of (d_log d) (Suc a) = L (Suc a)" using Suc.prems(5) by simp
  let ?d = "d\<lparr>d_kv := replay L (Suc a), d_applied := Suc a\<rparr>"
  have "apply_loop (Suc k) a d = apply_loop k (Suc a) ?d"
  proof (cases "L (Suc a)")
    case None
    then have "d\<lparr>d_applied := Suc a\<rparr> = ?d" using Suc.prems(4) by simp
    with None l Suc.prems(1) show ?thesis by (simp add: web_ops)
  next
    case (Some e)
    obtain t data where e: "e = (t, data)" by (cases e)
    have "decode_command data \<noteq> None" using Suc.prems(2) Some e by (simp add: decodable_def)
    then show ?thesis using Some e l Suc.prems(1,4) by (simp add: web_ops apply_entry_sound bind_sto_def)
  qed
  also have "\<dots> = (Inr (), ?d\<lparr>d_kv := replay L (Suc a + k), d_applied := Suc a + k\<rparr>)"
    by (rule Suc.IH) (use Suc.prems in simp_all)
  finally show ?case by simp
qed

lemma apply_committed_sound:
  assumes "sound d" "decodable L" "fst (d_included d) \<le> d_applied d" "d_kv d = replay L (d_applied d)"
    and "\<And>j. d_applied d < j \<Longrightarrow> j \<le> d_commit d \<Longrightarrow> map_of (d_log d) j = L j"
  shows "apply_committed d = (Inr (), d\<lparr>d_kv := replay L (max (d_applied d) (d_commit d)), d_applied := max (d_applied d) (d_commit d)\<rparr>)"
proof -
  have "apply_committed d = apply_loop (d_commit d - d_applied d) (d_applied d) d"
    using assms(1,3) by (simp add: apply_committed_def web_ops split_beta Let_def max_absorb1)
  also have "\<dots> = (Inr (), d\<lparr>d_kv := replay L (d_applied d + (d_commit d - d_applied d)), d_applied := d_applied d + (d_commit d - d_applied d)\<rparr>)"
    by (rule apply_loop_sound) (use assms in auto)
  finally show ?thesis by (simp add: max_def)
qed

subsection \<open>The cluster's log\<close>

text \<open>
  \<open>G T\<close> is the log of the leader of term \<open>T\<close>, \<open>Com\<close> the committed log and \<open>known T\<close> the last index the leader
  of term \<open>T\<close> has committed. \<open>raft_history\<close> states what raft guarantees of them: a log has no gaps; up to an
  entry of term \<open>t\<close> it is the log of \<open>t\<close>'s leader (log matching); and a leader holds all that
  earlier leaders, or itself, committed (leader completeness).
\<close>

definition raft_history :: "(nat \<Rightarrow> log_fun) \<Rightarrow> log_fun \<Rightarrow> (nat \<Rightarrow> nat) \<Rightarrow> bool" where
  "raft_history G Com known \<longleftrightarrow>
     (\<forall>T i t x. G T i = Some (t, x) \<longrightarrow> (\<forall>j \<le> i. G T j = G t j)) \<and>
     (\<forall>T i j. G T i \<noteq> None \<longrightarrow> 0 < j \<longrightarrow> j \<le> i \<longrightarrow> G T j \<noteq> None) \<and>
     (\<forall>T T' j. T \<le> T' \<longrightarrow> 0 < j \<longrightarrow> j \<le> known T \<longrightarrow> G T' j = Com j \<and> Com j \<noteq> None) \<and> decodable Com"

lemma raft_historyD:
  assumes "raft_history G Com known"
  shows "G T i = Some (t, x) \<Longrightarrow> j \<le> i \<Longrightarrow> G T j = G t j"
    and "G T i \<noteq> None \<Longrightarrow> 0 < j \<Longrightarrow> j \<le> i \<Longrightarrow> G T j \<noteq> None"
    and "T \<le> T' \<Longrightarrow> 0 < j \<Longrightarrow> j \<le> known T \<Longrightarrow> G T' j = Com j"
    and "T \<le> T' \<Longrightarrow> 0 < j \<Longrightarrow> j \<le> known T \<Longrightarrow> Com j \<noteq> None"
    and "decodable Com"
proof -
  note H = assms [unfolded raft_history_def]
  note complete = H [THEN conjunct2, THEN conjunct2, THEN conjunct1, rule_format]
  show "G T i = Some (t, x) \<Longrightarrow> j \<le> i \<Longrightarrow> G T j = G t j" by (rule H [THEN conjunct1, rule_format])
  show "G T i \<noteq> None \<Longrightarrow> 0 < j \<Longrightarrow> j \<le> i \<Longrightarrow> G T j \<noteq> None" by (rule H [THEN conjunct2, THEN conjunct1, rule_format])
  show "T \<le> T' \<Longrightarrow> 0 < j \<Longrightarrow> j \<le> known T \<Longrightarrow> G T' j = Com j" by (rule complete [THEN conjunct1])
  show "T \<le> T' \<Longrightarrow> 0 < j \<Longrightarrow> j \<le> known T \<Longrightarrow> Com j \<noteq> None" by (rule complete [THEN conjunct2])
  show "decodable Com" using H by simp
qed

text \<open>A request as the leader of its term sends it.\<close>

definition from_leader :: "(nat \<Rightarrow> log_fun) \<Rightarrow> (nat \<Rightarrow> nat) \<Rightarrow> AppendEntriesRequest \<Rightarrow> bool" where
  "from_leader G known req \<longleftrightarrow> leader_commit_index req \<le> known (ae_term req) \<and>
     (prev_log_entry req > 0 \<longrightarrow> (\<exists>x. G (ae_term req) (prev_log_entry req) = Some (prev_log_term req, x))) \<and>
     map lg_index (entries req) = [prev_log_entry req + 1..<prev_log_entry req + 1 + length (entries req)] \<and>
     (\<forall>e \<in> set (entries req). G (ae_term req) (lg_index e) = Some (lg_term e, entry_data e))"

abbreviation log_at :: "webdb \<Rightarrow> nat \<Rightarrow> (nat \<times> bytes) option" where
  "log_at d \<equiv> map_of (d_log d)"

definition log_ok :: "(nat \<Rightarrow> log_fun) \<Rightarrow> webdb \<Rightarrow> bool" where
  "log_ok G d \<longleftrightarrow> (\<forall>i t x. log_at d i = Some (t, x) \<longrightarrow>
     fst (d_included d) < i \<and> (\<forall>j. fst (d_included d) < j \<longrightarrow> j \<le> i \<longrightarrow> log_at d j = G t j))"

lemma log_okD:
  "log_ok G d \<Longrightarrow> log_at d i = Some (t, x) \<Longrightarrow> fst (d_included d) < i"
  "log_ok G d \<Longrightarrow> log_at d i = Some (t, x) \<Longrightarrow> fst (d_included d) < j \<Longrightarrow> j \<le> i \<Longrightarrow> log_at d j = G t j"
  unfolding log_ok_def by blast+

text \<open>Below \<open>m\<close> the learner's log is the leader's, and up to \<open>n\<close> it is the committed one.\<close>

definition agrees_upto :: "webdb \<Rightarrow> log_fun \<Rightarrow> nat \<Rightarrow> bool" where
  "agrees_upto d L m \<longleftrightarrow> (\<forall>j. fst (d_included d) < j \<longrightarrow> j \<le> m \<longrightarrow> log_at d j = L j)"

lemma map_of_filter_fst: "map_of (filter (\<lambda>r. P (fst r)) l) i = (if P i then map_of l i else None)"
  by (induction l) auto

lemma no_entry_above:
  assumes "raft_history G Com known" "log_ok G d" "log_at d i = None" "fst (d_included d) < i" "i < j"
  shows "log_at d j = None"
proof (rule ccontr)
  assume "log_at d j \<noteq> None"
  then obtain t x where e: "log_at d j = Some (t, x)" by (metis option.exhaust surj_pair)
  then have "log_at d i = G t i" "log_at d j = G t j" using log_okD [OF assms(2) e] assms(4,5) by auto
  with raft_historyD(2) [OF assms(1), of t j i] e assms(3-5) show False by simp
qed

text \<open>Writing the leader's entry where the log agrees with the leader below it and ends there.\<close>

lemma log_ok_extend:
  assumes "raft_history G Com known" "log_ok G d" "agrees_upto d (G T) (i - 1)" "fst (d_included d) < i"
    and "G T i = Some (t, x)" "log_at d' = (\<lambda>j. if j < i then log_at d j else if j = i then Some (t, x) else None)"
    and "d_included d' = d_included d"
  shows "log_ok G d'" "agrees_upto d' (G T) i"
proof -
  have below: "log_at d' j = G T j" if "fst (d_included d) < j" "j \<le> i" for j
    using assms(3,5,6) that by (cases "j = i") (auto simp: agrees_upto_def)
  show "agrees_upto d' (G T) i" using below assms(7) by (auto simp: agrees_upto_def)
  show "log_ok G d'"
    unfolding log_ok_def
  proof (intro allI impI conjI)
    fix k tk xk assume k: "log_at d' k = Some (tk, xk)"
    then have "k \<le> i" using assms(6) by (auto split: if_splits)
    show "fst (d_included d') < k"
      using k assms(4,6,7) log_okD(1) [OF assms(2)] by (auto split: if_splits)
    fix j assume j: "fst (d_included d') < j" "j \<le> k"
    have "G T k = Some (tk, xk)" using below [of k] k j \<open>k \<le> i\<close> assms(7) by simp
    from raft_historyD(1) [OF assms(1) this j(2)] below [of j] j \<open>k \<le> i\<close> assms(7) show "log_at d' j = G tk j" by simp
  qed
qed

lemma append_loop_sound:
  assumes H: "raft_history G Com known" and "sound d" "log_ok G d" "agrees_upto d Com n" "agrees_upto d (G T) m"
    and "\<And>j. 0 < j \<Longrightarrow> j \<le> n \<Longrightarrow> G T j = Com j \<and> Com j \<noteq> None"
    and "map lg_index es = [p + 1..<p + 1 + length es]" "m = max p (fst (d_included d))"
    and "\<forall>e \<in> set es. G T (lg_index e) = Some (lg_term e, entry_data e)"
  shows "\<exists>l. let d' = d\<lparr>d_log := l\<rparr> in append_loop (fst (d_included d)) es m d = (Inr (max (p + length es) (fst (d_included d))), d') \<and>
    log_ok G d' \<and> agrees_upto d' Com n \<and> agrees_upto d' (G T) (max (p + length es) (fst (d_included d)))"
  using assms(2-)
proof (induction es arbitrary: d m p)
  case Nil
  then show ?case by (auto simp: Let_def intro!: exI [of _ "d_log d"])
next
  case (Cons e es)
  let ?S = "fst (d_included d)" and ?i = "lg_index e"
  have i: "?i = p + 1" and es: "map lg_index es = [Suc p + 1..<Suc p + 1 + length es]"
    using Cons.prems(6) upt_conv_Cons [of "p + 1" "p + 1 + length (e # es)"] by (simp_all del: upt_Suc)
  have g: "G T ?i = Some (lg_term e, entry_data e)" and gs: "\<forall>e \<in> set es. G T (lg_index e) = Some (lg_term e, entry_data e)"
    using Cons.prems(8) by simp_all
  show ?case
  proof (cases "?i \<le> ?S")
    case True
    then have m: "max m ?i = m" "m = max (Suc p) ?S" using Cons.prems(7) i by auto
    have "\<exists>l. let d' = d\<lparr>d_log := l\<rparr> in append_loop ?S es m d = (Inr (max (Suc p + length es) ?S), d') \<and>
      log_ok G d' \<and> agrees_upto d' Com n \<and> agrees_upto d' (G T) (max (Suc p + length es) ?S)"
      by (rule Cons.IH [OF Cons.prems(1-5) es m(2) gs])
    with True m(1) show ?thesis by simp
  next
    case False
    then have m: "m = ?i - 1" "max (Suc p) ?S = ?i" using Cons.prems(7) i by auto
    define l' where "l' = (if map_option fst (log_at d ?i) = Some (lg_term e) then d_log d
      else (?i, lg_term e, entry_data e) # filter (\<lambda>r. fst r \<noteq> ?i) (if log_at d ?i = None then d_log d else filter (\<lambda>r. fst r < ?i) (d_log d)))"
    define d' where "d' = d\<lparr>d_log := l'\<rparr>"
    have d': "sound d'" "d_included d' = d_included d" using Cons.prems(1) by (simp_all add: d'_def)
    have step: "append_loop ?S (e # es) m d = append_loop ?S es ?i d'"
      using False Cons.prems(1) by (cases "log_at d ?i") (simp_all add: d'_def l'_def web_ops bind_assoc)
    have ok: "log_ok G d' \<and> agrees_upto d' (G T) ?i \<and> agrees_upto d' Com n"
    proof (cases "map_option fst (log_at d ?i) = Some (lg_term e)")
      case True
      then obtain x where x: "log_at d ?i = Some (lg_term e, x)" by auto
      have "agrees_upto d (G T) ?i"
        unfolding agrees_upto_def using log_okD(2) [OF Cons.prems(2) x] raft_historyD(1) [OF H g] by auto
      moreover have "d' = d" using True by (simp add: d'_def l'_def)
      ultimately show ?thesis using Cons.prems(2,3) by simp
    next
      case False
      have above: "log_at d j = None" if "log_at d ?i = None" "?i < j" for j
        using no_entry_above [OF H Cons.prems(2) that(1) _ that(2)] \<open>\<not> ?i \<le> ?S\<close> by simp
      have l: "log_at d' = (\<lambda>j. if j < ?i then log_at d j else if j = ?i then Some (lg_term e, entry_data e) else None)"
        using False above by (auto simp: d'_def l'_def fun_eq_iff map_of_filter_fst [where P = "\<lambda>j. j \<noteq> ?i"] map_of_filter_fst [where P = "\<lambda>j. j < ?i \<and> j \<noteq> ?i"])
      have "n < ?i"
      proof (rule ccontr)
        assume "\<not> n < ?i"
        then have "log_at d ?i = Some (lg_term e, entry_data e)"
          using Cons.prems(3,5) g i \<open>\<not> ?i \<le> ?S\<close> by (auto simp: agrees_upto_def)
        with False show False by simp
      qed
      then have "agrees_upto d' Com n" using Cons.prems(3) l d'(2) by (auto simp: agrees_upto_def)
      moreover have "agrees_upto d (G T) (?i - 1)" using Cons.prems(4) m by simp
      ultimately show ?thesis using log_ok_extend [OF H Cons.prems(2) _ _ g l d'(2)] \<open>\<not> ?i \<le> ?S\<close> by simp
    qed
    have "\<exists>l. let d'' = d'\<lparr>d_log := l\<rparr> in append_loop (fst (d_included d')) es ?i d' = (Inr (max (Suc p + length es) (fst (d_included d'))), d'') \<and>
      log_ok G d'' \<and> agrees_upto d'' Com n \<and> agrees_upto d'' (G T) (max (Suc p + length es) (fst (d_included d')))"
      by (rule Cons.IH [OF d'(1) _ _ _ Cons.prems(5) es _ gs]) (use ok m(2) d'(2) in simp_all)
    then show ?thesis unfolding step by (auto simp: Let_def d'_def)
  qed
qed

subsection \<open>Following the log\<close>

definition follows :: "(nat \<Rightarrow> log_fun) \<Rightarrow> log_fun \<Rightarrow> (nat \<Rightarrow> nat) \<Rightarrow> webdb \<Rightarrow> bool" where
  "follows G Com known d \<longleftrightarrow> sound d \<and> \<not> d_txn d \<and> log_ok G d \<and> fst (d_included d) \<le> d_applied d \<and>
     d_kv d = replay Com (d_applied d) \<and> agrees_upto d Com (max (d_applied d) (d_commit d)) \<and>
     (\<exists>T \<le> d_term d. max (d_applied d) (d_commit d) \<le> known T) \<and>
     (fst (d_included d) > 0 \<longrightarrow> (\<exists>x. Com (fst (d_included d)) = Some (snd (d_included d), x)))"

lemma followsD:
  assumes "follows G Com known d"
  shows "sound d" "\<not> d_txn d" "log_ok G d" "fst (d_included d) \<le> d_applied d" "d_kv d = replay Com (d_applied d)"
    "agrees_upto d Com (max (d_applied d) (d_commit d))" "\<exists>T \<le> d_term d. max (d_applied d) (d_commit d) \<le> known T"
    "fst (d_included d) > 0 \<Longrightarrow> \<exists>x. Com (fst (d_included d)) = Some (snd (d_included d), x)"
  using assms unfolding follows_def by simp_all

text \<open>The steps of a learner in a cluster that keeps raft's guarantees. A snapshot is one of the committed log, and not older than the last one.\<close>

inductive web_step :: "(nat \<Rightarrow> log_fun) \<Rightarrow> log_fun \<Rightarrow> (nat \<Rightarrow> nat) \<Rightarrow> Learner \<Rightarrow> webdb \<Rightarrow> webdb \<Rightarrow> bool" for G Com known me where
  append: "from_leader G known req \<Longrightarrow> web_step G Com known me d (snd (handle_append_entries me req d))"
| vote: "web_step G Com known me d (snd (handle_request_vote me req d))"
| pre_vote: "web_step G Com known me d (snd (handle_request_pre_vote me req d))"
| install: "fst (d_included d) \<le> is_last_index req \<Longrightarrow> is_last_index req \<le> known (is_term req) \<Longrightarrow>
    Com (is_last_index req) = Some (is_last_term req, x) \<Longrightarrow> 0 < is_last_index req \<Longrightarrow>
    decode_snapshot_entries body = Inr rows \<Longrightarrow> mset rows = mset (replay Com (is_last_index req)) \<Longrightarrow>
    web_step G Com known me d (snd (handle_install_snapshot me req body d))"

definition prev_term :: "AppendEntriesRequest \<Rightarrow> webdb \<Rightarrow> nat option" where
  "prev_term req d = (if prev_log_entry req = fst (d_included d) then Some (snd (d_included d)) else map_option fst (log_at d (prev_log_entry req)))"

definition verdict :: "AppendEntriesRequest \<Rightarrow> webdb \<Rightarrow> bool option" where
  "verdict req d = (if prev_log_entry req = 0 then None
     else case prev_term req d of None \<Rightarrow> Some False | Some t \<Rightarrow> if t \<noteq> prev_log_term req then Some True else None)"

lemma check_prev_sound: "sound d \<Longrightarrow> check_prev req (d_included d) d = (Inr (verdict req d), d)"
  by (simp add: check_prev_def verdict_def prev_term_def)

lemma reject_sound: "sound d \<Longrightarrow> \<exists>r. reject me t d = (Inr r, d) \<and> \<not> aer_success r"
  by (simp add: reject_def web_ops)

definition with_term :: "nat \<Rightarrow> webdb \<Rightarrow> webdb" where
  "with_term t d = (if t > d_term d then d\<lparr>d_term := t, d_voted := None\<rparr> else d)"

lemma adopt_term_sound [simp]: "sound d \<Longrightarrow> bind_sto (adopt_term t (d_term d)) f d = f (max t (d_term d)) (with_term t d)"
  by (auto simp: adopt_term_def with_term_def web_ops bind_assoc max_def bind_sto_def)

lemma with_term_simps [simp]:
  "sound (with_term t d) = sound d" "d_log (with_term t d) = d_log d" "d_included (with_term t d) = d_included d"
  "d_kv (with_term t d) = d_kv d" "d_commit (with_term t d) = d_commit d" "d_applied (with_term t d) = d_applied d"
  "d_txn (with_term t d) = d_txn d" "d_term (with_term t d) = max t (d_term d)"
  by (auto simp: with_term_def max_def)

lemma log_ok_same: "d_log d' = d_log d \<Longrightarrow> d_included d' = d_included d \<Longrightarrow> log_ok G d' = log_ok G d"
  by (simp add: log_ok_def)

lemma agrees_same: "d_log d' = d_log d \<Longrightarrow> d_included d' = d_included d \<Longrightarrow> agrees_upto d' L n = agrees_upto d L n"
  by (simp add: agrees_upto_def)

lemma follows_term:
  assumes "follows G Com known d"
  shows "follows G Com known (with_term t d)"
proof -
  obtain T where T: "T \<le> d_term d" "max (d_applied d) (d_commit d) \<le> known T" using followsD(7) [OF assms] by blast
  have "\<exists>T \<le> max t (d_term d). max (d_applied d) (d_commit d) \<le> known T" using T by (intro exI [of _ T] conjI) linarith+
  moreover have "log_ok G (with_term t d)" "agrees_upto (with_term t d) Com (max (d_applied d) (d_commit d))"
    using followsD(3,6) [OF assms] log_ok_same [of "with_term t d" d G] agrees_same [of "with_term t d" d Com] by simp_all
  ultimately show ?thesis using followsD(1,2,4,5,8) [OF assms] unfolding follows_def with_term_simps by simp
qed

lemma known_agrees:
  assumes "raft_history G Com known" "follows G Com known d" "d_term d \<le> T" "0 < j" "j \<le> max (d_applied d) (d_commit d)"
  shows "G T j = Com j \<and> Com j \<noteq> None"
proof -
  obtain T' where T': "T' \<le> d_term d" "max (d_applied d) (d_commit d) \<le> known T'" using followsD(7) [OF assms(2)] by blast
  then have "T' \<le> T" "j \<le> known T'" using assms(3,5) by linarith+
  then show ?thesis using raft_historyD(3,4) [OF assms(1) _ assms(4)] by blast
qed

text \<open>The entry before the new ones is never a committed one that differs.\<close>

lemma conflict_uncommitted:
  assumes H: "raft_history G Com known" and F: "follows G Com known d" and L: "from_leader G known req" and "d_term d \<le> ae_term req"
    and "prev_log_entry req > 0" "(if prev_log_entry req = fst (d_included d) then Some (snd (d_included d)) else map_option fst (log_at d (prev_log_entry req))) = Some t"
    and "t \<noteq> prev_log_term req"
  shows "max (d_applied d) (d_commit d) < prev_log_entry req"
proof (rule ccontr)
  let ?p = "prev_log_entry req"
  assume "\<not> max (d_applied d) (d_commit d) < ?p"
  then have p: "?p \<le> max (d_applied d) (d_commit d)" by linarith
  then have "Com ?p = G (ae_term req) ?p" using known_agrees [OF H F assms(4,5)] by simp
  then obtain x where x: "Com ?p = Some (prev_log_term req, x)" using L assms(5) by (auto simp: from_leader_def)
  show False
  proof (cases "?p = fst (d_included d)")
    case True
    then show ?thesis using followsD(8) [OF F] x assms(5-7) by simp
  next
    case False
    then obtain y where y: "log_at d ?p = Some (t, y)" using assms(6) by auto
    then have "fst (d_included d) < ?p" by (rule log_okD(1) [OF followsD(3) [OF F]])
    then have "log_at d ?p = Com ?p" using followsD(6) [OF F] p by (simp add: agrees_upto_def)
    with x y assms(7) show ?thesis by simp
  qed
qed

lemma log_ok_filter:
  assumes "log_ok G d"
  shows "log_ok G (d\<lparr>d_log := filter (\<lambda>r. fst r < i) (d_log d)\<rparr>)"
  unfolding log_ok_def
proof (intro allI impI)
  fix k t x
  let ?d = "d\<lparr>d_log := filter (\<lambda>r. fst r < i) (d_log d)\<rparr>"
  have l: "log_at ?d j = (if j < i then log_at d j else None)" for j by (simp add: map_of_filter_fst [where P = "\<lambda>j. j < i"])
  assume "log_at ?d k = Some (t, x)"
  then have k: "k < i" "log_at d k = Some (t, x)" unfolding l by (simp_all split: if_splits)
  have "log_at ?d j = G t j" if "fst (d_included d) < j" "j \<le> k" for j
    using log_okD(2) [OF assms k(2) that] k(1) that(2) unfolding l by simp
  then show "fst (d_included ?d) < k \<and> (\<forall>j. fst (d_included ?d) < j \<longrightarrow> j \<le> k \<longrightarrow> log_at ?d j = G t j)"
    using log_okD(1) [OF assms k(2)] by simp
qed

lemma follows_truncate:
  assumes "follows G Com known d" "max (d_applied d) (d_commit d) < i"
  shows "follows G Com known (d\<lparr>d_log := filter (\<lambda>r. fst r < i) (d_log d)\<rparr>)"
proof -
  let ?d = "d\<lparr>d_log := filter (\<lambda>r. fst r < i) (d_log d)\<rparr>"
  have "log_at ?d j = Com j" if "fst (d_included d) < j" "j \<le> max (d_applied d) (d_commit d)" for j
    using followsD(6) [OF assms(1), unfolded agrees_upto_def, rule_format, OF that] order_le_less_trans [OF that(2) assms(2)] by (simp add: map_of_filter_fst [where P = "\<lambda>j. j < i"])
  then have "agrees_upto ?d Com (max (d_applied d) (d_commit d))" by (simp add: agrees_upto_def)
  with log_ok_filter [OF followsD(3) [OF assms(1)], of i] followsD(1,2,4,5,7,8) [OF assms(1)] show ?thesis
    unfolding follows_def by simp
qed

text \<open>Accepting the entries of the current leader.\<close>

lemma prev_agrees:
  assumes H: "raft_history G Com known" and "log_ok G d" "from_leader G known req"
    and "prev_log_entry req = 0 \<or> prev_term req d = Some (prev_log_term req)"
  shows "agrees_upto d (G (ae_term req)) (max (prev_log_entry req) (fst (d_included d)))"
  unfolding agrees_upto_def
proof (intro allI impI)
  let ?p = "prev_log_entry req"
  fix j assume j: "fst (d_included d) < j" "j \<le> max ?p (fst (d_included d))"
  then have p: "j \<le> ?p" "0 < ?p" "?p \<noteq> fst (d_included d)" by linarith+
  then obtain x where x: "log_at d ?p = Some (prev_log_term req, x)" using assms(4) by (auto simp: prev_term_def)
  obtain y where y: "G (ae_term req) ?p = Some (prev_log_term req, y)" using assms(3) p(2) by (auto simp: from_leader_def)
  show "log_at d j = G (ae_term req) j"
    using log_okD(2) [OF assms(2) x j(1) p(1)] raft_historyD(1) [OF H y p(1)] by simp
qed

lemma accept_entries_follows:
  assumes H: "raft_history G Com known" and F: "follows G Com known d" and L: "from_leader G known req" and T: "d_term d = ae_term req"
    and P: "prev_log_entry req = 0 \<or> prev_term req d = Some (prev_log_term req)"
  shows "\<exists>r e. accept_entries me req (fst (d_included d)) cur d = (Inr r, e) \<and> aer_success r \<and> follows G Com known e \<and>
    d_applied e = max (d_applied d) (if leader_commit_index req > d_commit d
      then min (leader_commit_index req) (max (prev_log_entry req + length (entries req)) (fst (d_included d))) else d_commit d)"
proof -
  let ?T = "ae_term req" and ?S = "fst (d_included d)" and ?p = "prev_log_entry req" and ?n = "max (d_applied d) (d_commit d)"
  let ?m = "max (?p + length (entries req)) ?S"
  have known: "G ?T j = Com j \<and> Com j \<noteq> None" if "0 < j" "j \<le> ?n" for j
    using known_agrees [OF H F _ that, of ?T] T by simp
  have es: "map lg_index (entries req) = [?p + 1..<?p + 1 + length (entries req)]"
    "\<forall>e \<in> set (entries req). G ?T (lg_index e) = Some (lg_term e, entry_data e)" and lc: "leader_commit_index req \<le> known ?T"
    using L by (simp_all add: from_leader_def)
  obtain l where l: "append_loop ?S (entries req) (max ?p ?S) d = (Inr ?m, d\<lparr>d_log := l\<rparr>)" "log_ok G (d\<lparr>d_log := l\<rparr>)"
      "agrees_upto (d\<lparr>d_log := l\<rparr>) Com ?n" "agrees_upto (d\<lparr>d_log := l\<rparr>) (G ?T) ?m"
    using append_loop_sound [OF H followsD(1,3,6) [OF F] prev_agrees [OF H followsD(3) [OF F] L P] known es(1) refl es(2)]
    unfolding Let_def by blast
  define c where "c = (if leader_commit_index req > d_commit d then min (leader_commit_index req) ?m else d_commit d)"
  define d' where "d' = d\<lparr>d_log := l, d_commit := c\<rparr>"
  have fields': "d_applied d' = d_applied d" "d_commit d' = c" "d_included d' = d_included d" "d_kv d' = d_kv d" "d_term d' = d_term d"
    "d_txn d' = d_txn d" "d_log d' = l" "sound d'" using followsD(1) [OF F] by (simp_all add: d'_def)
  have agree: "log_at d' j = Com j" if "?S < j" "j \<le> max (d_applied d) c" for j
  proof (cases "j \<le> ?n")
    case True
    with l(3) that(1) show ?thesis by (simp add: agrees_upto_def fields')
  next
    case False
    then have j: "j \<le> known ?T" "j \<le> ?m" using that(2) lc by (auto simp: c_def split: if_splits)
    then have "G ?T j = Com j" using raft_historyD(3) [OF H order_refl _ j(1)] that(1) by simp
    with l(4) that(1) j(2) show ?thesis by (simp add: agrees_upto_def fields')
  qed
  let ?e = "d'\<lparr>d_kv := replay Com (max (d_applied d) c), d_applied := max (d_applied d) c\<rparr>"
  have "apply_committed d' = (Inr (), d'\<lparr>d_kv := replay Com (max (d_applied d') (d_commit d')), d_applied := max (d_applied d') (d_commit d')\<rparr>)"
    by (rule apply_committed_sound) (use followsD(4,5) [OF F] raft_historyD(5) [OF H] agree fields' in auto)
  then have app: "apply_committed d' = (Inr (), ?e)" by (simp add: fields')
  have set: "bind_sto (if leader_commit_index req > d_commit d then set_commit_index (min (leader_commit_index req) ?m) else ret ()) f (d\<lparr>d_log := l\<rparr>) = f () d'"
    for f :: "unit \<Rightarrow> AppendEntriesResponse web"
    using followsD(1) [OF F] by (simp add: web_ops d'_def c_def)
  have "accept_entries me req ?S cur d = (Inr \<lparr>aer_header = my_header me, aer_term = cur,
      last_log = foldr (\<lambda>r m. max (fst r) m) l 0, aer_success = True, no_retry_backoff = False\<rparr>, ?e)"
    using followsD(1) [OF F] fields'(7,8)
    by (simp add: accept_entries_def bind_sto_def [of "append_loop a b c" for a b c] l(1) commit_index_def set
        bind_sto_def [of apply_committed] app log_last_index_def)
  moreover have "follows G Com known ?e"
  proof -
    obtain T' where T': "T' \<le> d_term d" "?n \<le> known T'" using followsD(7) [OF F] by blast
    have "\<exists>T \<le> d_term d. max (d_applied d) c \<le> known T"
    proof (cases "max (d_applied d) c \<le> ?n")
      case True
      with T' show ?thesis by (intro exI [of _ T']) linarith
    next
      case False
      then have "max (d_applied d) c \<le> known ?T" using lc by (auto simp: c_def split: if_splits)
      with T show ?thesis by (intro exI [of _ ?T]) simp
    qed
    moreover have "agrees_upto ?e Com (max (d_applied d) c)" unfolding agrees_upto_def using agree fields' by simp
    moreover have "log_ok G ?e" using l(2) log_ok_same [of ?e "d\<lparr>d_log := l\<rparr>" G] fields' by simp
    ultimately show ?thesis using followsD(2,4,8) [OF F] fields' unfolding follows_def by (simp add: le_max_iff_disj)
  qed
  ultimately show ?thesis by (simp add: c_def)
qed

lemma append_current:
  assumes F: "follows G Com known d" and "d_term d \<le> ae_term req"
  shows "\<exists>r1 r2. let d1 = with_term (ae_term req) d; d2 = d1\<lparr>d_log := filter (\<lambda>r. fst r < prev_log_entry req) (d_log d1)\<rparr> in
    handle_append_entries me req d = (case verdict req d1 of Some False \<Rightarrow> (Inr r1, d1) | Some True \<Rightarrow> (Inr r2, d2)
      | None \<Rightarrow> accept_entries me req (fst (d_included d1)) (ae_term req) d1)"
proof -
  define d1 where "d1 = with_term (ae_term req) d"
  have s: "sound d1" and T: "d_term d1 = ae_term req" using assms followsD(1) [OF F] by (simp_all add: d1_def)
  let ?d2 = "d1\<lparr>d_log := filter (\<lambda>r. fst r < prev_log_entry req) (d_log d1)\<rparr>"
  obtain r1 where r1: "reject me (ae_term req) d1 = (Inr r1, d1)" using reject_sound [OF s] by blast
  have "sound ?d2" using s by simp
  then obtain r2 where r2: "reject me (ae_term req) ?d2 = (Inr r2, ?d2)" using reject_sound by blast
  have "handle_append_entries me req d = (case verdict req d1 of Some False \<Rightarrow> (Inr r1, d1) | Some True \<Rightarrow> (Inr r2, ?d2)
      | None \<Rightarrow> accept_entries me req (fst (d_included d1)) (ae_term req) d1)"
    using assms(2) followsD(1) [OF F] s T
    by (simp add: handle_append_entries_def web_ops d1_def [symmetric] bind_sto_def [of "check_prev a b" for a b] check_prev_sound r1 r2
        split: option.split bool.split)
  then show ?thesis unfolding Let_def d1_def by blast
qed

lemma follows_append:
  assumes H: "raft_history G Com known" and F: "follows G Com known d" and L: "from_leader G known req"
  shows "follows G Com known (snd (handle_append_entries me req d))"
proof (cases "ae_term req < d_term d")
  case True
  obtain r where "reject me (d_term d) d = (Inr r, d)" using reject_sound [OF followsD(1) [OF F]] by blast
  with True F followsD(1) [OF F] show ?thesis by (simp add: handle_append_entries_def current_term_def)
next
  case False
  define d1 where "d1 = with_term (ae_term req) d"
  have F1: "follows G Com known d1" and T: "d_term d1 = ae_term req" using follows_term [OF F] False by (simp_all add: d1_def)
  let ?d2 = "d1\<lparr>d_log := filter (\<lambda>r. fst r < prev_log_entry req) (d_log d1)\<rparr>"
  obtain r1 r2 where h: "handle_append_entries me req d = (case verdict req d1 of Some False \<Rightarrow> (Inr r1, d1) | Some True \<Rightarrow> (Inr r2, ?d2)
      | None \<Rightarrow> accept_entries me req (fst (d_included d1)) (ae_term req) d1)"
    using append_current [OF F, of req me] False unfolding Let_def d1_def by auto
  consider "prev_log_entry req = 0 \<or> prev_term req d1 = Some (prev_log_term req)"
    | "0 < prev_log_entry req" "prev_term req d1 = None"
    | t where "0 < prev_log_entry req" "prev_term req d1 = Some t" "t \<noteq> prev_log_term req"
    by (cases "prev_term req d1") auto
  then show ?thesis
  proof cases
    case 1
    then have "handle_append_entries me req d = accept_entries me req (fst (d_included d1)) (ae_term req) d1" unfolding h verdict_def by auto
    then show ?thesis using accept_entries_follows [OF H F1 L T 1, of me "ae_term req"] by auto
  next
    case 2
    with F1 show ?thesis unfolding h verdict_def by simp
  next
    case 3
    have "max (d_applied d1) (d_commit d1) < prev_log_entry req"
      by (rule conflict_uncommitted [OF H F1 L _ 3(1) _ 3(3)]) (use T 3(2) in \<open>simp_all add: prev_term_def\<close>)
    then have "follows G Com known ?d2" by (rule follows_truncate [OF F1])
    with 3 show ?thesis unfolding h verdict_def by simp
  qed
qed

text \<open>Restoring a snapshot rewrites the table and keeps the log behind it.\<close>

lemma insert_all_sound:
  "sound d \<Longrightarrow> tbl_ok (d_kv d) \<Longrightarrow> distinct (map fst es) \<Longrightarrow> fst ` set es \<inter> fst ` set (d_kv d) = {} \<Longrightarrow>
   \<exists>t. insert_all es d = (Inr (), d\<lparr>d_kv := t\<rparr>) \<and> tbl_ok t \<and> set t = set es \<union> set (d_kv d)"
proof (induction es arbitrary: d)
  case Nil
  then show ?case by (auto intro!: exI [of _ "d_kv d"])
next
  case (Cons e es)
  obtain k v where e: "e = (k, v)" by (cases e)
  let ?d = "d\<lparr>d_kv := tbl_upsert k v (d_kv d)\<rparr>"
  have k: "k \<notin> fst ` set (d_kv d)" using Cons.prems(4) e by auto
  then have "\<forall>r \<in> set (d_kv d). fst r \<noteq> k" by force
  then have u: "set (d_kv ?d) = insert (k, v) (set (d_kv d))" using set_tbl_upsert [OF Cons.prems(2), of k v] by auto
  have "\<exists>t. insert_all es ?d = (Inr (), ?d\<lparr>d_kv := t\<rparr>) \<and> tbl_ok t \<and> set t = set es \<union> set (d_kv ?d)"
  proof (rule Cons.IH)
    show "fst ` set es \<inter> fst ` set (d_kv ?d) = {}" using Cons.prems(3,4) e unfolding u by auto
  qed (use Cons.prems in simp_all)
  then obtain t where "insert_all es ?d = (Inr (), d\<lparr>d_kv := t\<rparr>)" "tbl_ok t" "set t = set es \<union> set (d_kv ?d)" by auto
  moreover have "insert_all (e # es) d = insert_all es ?d"
    using k Cons.prems(1) by (simp add: e bind_sto_def sql_sound)
  ultimately show ?case using u e by auto
qed

lemma tbl_ok_setI:
  assumes "tbl_ok t" "tbl_ok u" "set t = set u"
  shows "t = u"
  using assms by (intro tbl_ok_eqI map_of_eqI) (auto simp: tbl_ok_distinct map_of_eq_Some_iff [OF tbl_ok_distinct])

lemma replace_all_sound:
  assumes "sound d" "\<not> d_txn d" "tbl_ok t" "mset es = mset t"
  shows "kv_replace_all es d = (Inr (), d\<lparr>d_kv := t\<rparr>)"
proof -
  let ?d = "d\<lparr>d_txn := True, d_kv := []\<rparr>"
  have es: "distinct (map fst es)" "set es = set t"
    using tbl_ok_distinct [OF assms(3)] assms(4) by (metis distinct_map mset_eq_setD mset_eq_imp_distinct_iff mset_map, metis mset_eq_setD)
  obtain u where u: "insert_all es ?d = (Inr (), ?d\<lparr>d_kv := u\<rparr>)" "tbl_ok u" "set u = set es"
    using insert_all_sound [of ?d es] assms(1) es(1) by (auto simp: tbl_ok_def)
  have "u = t" using tbl_ok_setI [OF u(2) assms(3)] u(3) es(2) by simp
  with u(1) assms(1,2) show ?thesis
    by (simp add: kv_replace_all_def begin_txn_def commit_txn_def bind_sto_def sql_sound sql_exec_def)
qed

definition installed :: "InstallSnapshotRequest \<Rightarrow> table \<Rightarrow> webdb \<Rightarrow> webdb" where
  "installed req t d = d\<lparr>d_kv := t, d_log := filter (\<lambda>r. fst r > is_last_index req) (d_log d),
     d_included := (is_last_index req, is_last_term req), d_term := max (d_term d) (is_term req),
     d_commit := max (d_commit d) (is_last_index req), d_applied := is_last_index req\<rparr>"

lemma install_sound:
  assumes "sound d" "\<not> d_txn d" "tbl_ok t" "decode_snapshot_entries body = Inr rows" "mset rows = mset t"
  shows "handle_install_snapshot me req body d =
    (Inr \<lparr>isr_header = my_header me, isr_term = max (d_term d) (is_term req), isr_success = True\<rparr>, installed req t d)"
proof -
  have "kv_replace_all rows d = (Inr (), d\<lparr>d_kv := t\<rparr>)" by (rule replace_all_sound) (use assms in simp_all)
  with assms(1,4) show ?thesis
    by (simp add: handle_install_snapshot_def bind_sto_def [of "kv_replace_all a" for a] web_ops bind_assoc installed_def max_def)
qed

lemma follows_install:
  assumes F: "follows G Com known d" and i: "fst (d_included d) \<le> is_last_index req" "is_last_index req \<le> known (is_term req)"
    and c: "Com (is_last_index req) = Some (is_last_term req, x)"
  shows "follows G Com known (installed req (replay Com (is_last_index req)) d)"
proof -
  let ?i = "is_last_index req" and ?n = "max (d_applied d) (d_commit d)"
  define e where "e = installed req (replay Com ?i) d"
  have e: "d_included e = (?i, is_last_term req)" "d_applied e = ?i" "d_commit e = max (d_commit d) ?i" "d_kv e = replay Com ?i"
    "d_term e = max (d_term d) (is_term req)" "d_txn e = d_txn d" "sound e = sound d"
    by (simp_all add: e_def installed_def)
  have l: "log_at e j = (if j > ?i then log_at d j else None)" for j
    by (simp add: e_def installed_def map_of_filter_fst [where P = "\<lambda>j. j > ?i"])
  have "log_ok G e"
    unfolding log_ok_def
  proof (intro allI impI)
    fix k t y assume "log_at e k = Some (t, y)"
    then have k: "?i < k" "log_at d k = Some (t, y)" unfolding l by (simp_all split: if_splits)
    have "log_at e j = G t j" if "?i < j" "j \<le> k" for j
      using log_okD(2) [OF followsD(3) [OF F] k(2) order_le_less_trans [OF i(1) that(1)] that(2)] that(1) unfolding l by simp
    then show "fst (d_included e) < k \<and> (\<forall>j. fst (d_included e) < j \<longrightarrow> j \<le> k \<longrightarrow> log_at e j = G t j)" using k(1) e(1) by simp
  qed
  moreover have "agrees_upto e Com (max ?i (d_commit d))"
    unfolding agrees_upto_def
  proof (intro allI impI)
    fix j assume j: "fst (d_included e) < j" "j \<le> max ?i (d_commit d)"
    then have "?i < j" "j \<le> ?n" using e(1) by auto
    then show "log_at e j = Com j"
      using followsD(6) [OF F, unfolded agrees_upto_def, rule_format, OF order_le_less_trans [OF i(1)]] l by simp
  qed
  moreover have "\<exists>T \<le> max (d_term d) (is_term req). max ?i (d_commit d) \<le> known T"
  proof (cases "max ?i (d_commit d) \<le> ?n")
    case True
    obtain T where "T \<le> d_term d" "?n \<le> known T" using followsD(7) [OF F] by blast
    with True show ?thesis by (intro exI [of _ T]) linarith
  next
    case False
    then have "max ?i (d_commit d) = ?i" by linarith
    with i(2) show ?thesis by (intro exI [of _ "is_term req"]) simp
  qed
  ultimately show ?thesis using followsD(1,2) [OF F] c e unfolding follows_def e_def [symmetric] by (simp add: max.commute)
qed

text \<open>Votes leave the log and the table alone.\<close>

definition own_last :: "webdb \<Rightarrow> nat \<times> nat" where
  "own_last d = (let l = foldr (\<lambda>r m. max (fst r) m) (d_log d) 0 in
     if l = 0 then d_included d else (l, case log_at d l of None \<Rightarrow> 0 | Some e \<Rightarrow> fst e))"

lemma last_log_sound [simp]: "sound d \<Longrightarrow> bind_sto last_log_index_term f d = f (own_last d) d"
  by (cases "log_at d (foldr (\<lambda>r m. max (fst r) m) (d_log d) 0)") (simp_all add: last_log_index_term_def own_last_def Let_def web_ops bind_assoc)

lemma follows_voted: "follows G Com known d \<Longrightarrow> follows G Com known (d\<lparr>d_voted := v\<rparr>)"
  using followsD [of G Com known d] log_ok_same [of "d\<lparr>d_voted := v\<rparr>" d G] agrees_same [of "d\<lparr>d_voted := v\<rparr>" d Com]
  unfolding follows_def by simp

lemma follows_vote:
  assumes "follows G Com known d"
  shows "follows G Com known (snd (handle_request_vote me req d))"
proof (cases "rv_term req < d_term d")
  case True
  with assms followsD(1) [OF assms] show ?thesis by (simp add: handle_request_vote_def web_ops)
next
  case False
  have F: "follows G Com known (with_term (rv_term req) d)" by (rule follows_term [OF assms])
  have "\<exists>v. snd (handle_request_vote me req d) = (with_term (rv_term req) d)\<lparr>d_voted := v\<rparr> \<or>
      snd (handle_request_vote me req d) = with_term (rv_term req) d"
    using False followsD(1) [OF assms] by (auto simp: handle_request_vote_def cast_vote_def web_ops Let_def)
  then show ?thesis using F follows_voted [OF F] by metis
qed

lemma follows_pre_vote: "follows G Com known d \<Longrightarrow> follows G Com known (snd (handle_request_pre_vote me req d))"
  using followsD(1) by (auto simp: handle_request_pre_vote_def web_ops)

lemma follows_step:
  assumes "web_step G Com known me d d'" "raft_history G Com known" "follows G Com known d"
  shows "follows G Com known d'"
  using assms
proof cases
  case (append req)
  with follows_append [OF assms(2,3)] show ?thesis by simp
next
  case (vote req)
  with follows_vote [OF assms(3)] show ?thesis by simp
next
  case (pre_vote req)
  with follows_pre_vote [OF assms(3)] show ?thesis by simp
next
  case (install req x body rows)
  have "snd (handle_install_snapshot me req body d) = installed req (replay Com (is_last_index req)) d"
    using install_sound [OF followsD(1,2) [OF assms(3)] tbl_ok_replay install(6,7)] by simp
  with follows_install [OF assms(3) install(2-4)] show ?thesis using install(1) by simp
qed

subsection \<open>Votes\<close>

text \<open>The requests a raft stream carries, in the order their handlers stand in the code.\<close>

datatype web_rpc = AppendEntries AppendEntriesRequest | RequestVote RequestVoteRequest | RequestPreVote RequestPreVoteRequest
  | InstallSnapshot InstallSnapshotRequest bytes | TimeoutNow RpcHeader

fun handle_rpc :: "Learner \<Rightarrow> web_rpc \<Rightarrow> webdb \<Rightarrow> webdb" where
  "handle_rpc me (AppendEntries req) d = snd (handle_append_entries me req d)"
| "handle_rpc me (RequestVote req) d = snd (handle_request_vote me req d)"
| "handle_rpc me (RequestPreVote req) d = snd (handle_request_pre_vote me req d)"
| "handle_rpc me (InstallSnapshot req body) d = snd (handle_install_snapshot me req body d)"
| "handle_rpc me (TimeoutNow req) d = snd (handle_timeout_now me req d)"

definition grants :: "Learner \<Rightarrow> web_rpc \<Rightarrow> webdb \<Rightarrow> (nat \<times> bytes option) list" where
  "grants me m d = (case m of
      RequestVote req \<Rightarrow> (case handle_request_vote me req d of
          (Inr r, _) \<Rightarrow> if rvr_granted r then [(rvr_term r, candidate_id req)] else []
        | (Inl _, _) \<Rightarrow> [])
    | _ \<Rightarrow> [])"

fun votes_cast :: "Learner \<Rightarrow> web_rpc list \<Rightarrow> webdb \<Rightarrow> (nat \<times> bytes option) list" where
  "votes_cast me [] d = []"
| "votes_cast me (m # ms) d = grants me m d @ votes_cast me ms (handle_rpc me m d)"

text \<open>\<open>keeps_vote\<close>: terms only grow, and a vote stays while the term does. \<open>still\<close> computations touch neither.\<close>

definition keeps_vote :: "webdb \<Rightarrow> webdb \<Rightarrow> bool" where
  "keeps_vote d d' \<longleftrightarrow> d_term d < d_term d' \<or> d_term d' = d_term d \<and> (d_voted d \<noteq> None \<longrightarrow> d_voted d' = d_voted d)"

lemma keeps_vote_refl [simp]: "keeps_vote d d"
  by (simp add: keeps_vote_def)

lemma keeps_vote_trans: "keeps_vote d d' \<Longrightarrow> keeps_vote d' d'' \<Longrightarrow> keeps_vote d d''"
  by (auto simp: keeps_vote_def)

definition still :: "'a web \<Rightarrow> bool" where
  "still m \<longleftrightarrow> (\<forall>d. d_term (snd (m d)) = d_term d \<and> d_voted (snd (m d)) = d_voted d)"

named_theorems still_intros

lemma still_ret [still_intros]: "still (Pair r)" "still (ret x)" "still (fail e)"
  by (simp_all add: still_def ret_def fail_def)

lemma still_bind [still_intros]: "still m \<Longrightarrow> (\<And>x. still (f x)) \<Longrightarrow> still (bind_sto m f)"
  by (auto simp: still_def bind_sto_def split: prod.split sum.split) (metis snd_conv)+

lemma still_sql: "(\<And>d x d'. f d = Some (x, d') \<Longrightarrow> d_term d' = d_term d \<and> d_voted d' = d_voted d) \<Longrightarrow> still (sql f)"
  by (fastforce simp: still_def sql_def split: list.split bool.split option.split)

lemma still_query [still_intros]: "still (sql_query q)"
  unfolding sql_query_def by (rule still_sql) auto

lemma still_exec: "(\<And>d. d_term (u d) = d_term d \<and> d_voted (u d) = d_voted d) \<Longrightarrow> still (sql_exec u)"
  unfolding sql_exec_def by (rule still_sql) auto

lemma still_if [still_intros]: "still m \<Longrightarrow> still n \<Longrightarrow> still (if b then m else n)"
  by simp

lemma still_option [still_intros]: "still m \<Longrightarrow> (\<And>x. still (f x)) \<Longrightarrow> still (case_option m f y)"
  by (simp split: option.split)

lemma still_ops [still_intros]:
  "still (kv_set k v)" "still (kv_delete k)" "still (log_append i t b)" "still (log_get i)" "still (log_get_term i)"
  "still (log_truncate_from i)" "still (log_truncate_through i)" "still log_last_index" "still current_term" "still last_included"
  "still (set_last_included i t)" "still commit_index" "still (set_commit_index i)" "still last_applied" "still (set_last_applied i)" "still voted_for"
  unfolding web_ops log_get_term_def by (intro still_intros still_exec; simp)+

lemma still_begin [still_intros]: "still begin_txn" "still commit_txn"
  unfolding begin_txn_def commit_txn_def by (rule still_sql; auto split: if_splits)+

lemma still_insert_all [still_intros]: "still (insert_all es)"
  by (induction es rule: insert_all.induct) (auto intro!: still_intros still_sql split: if_splits)

lemma still_replace_all [still_intros]: "still (kv_replace_all es)"
  unfolding kv_replace_all_def by (intro still_intros still_exec) simp

lemma still_apply_entry [still_intros]: "still (apply_entry data)"
  by (auto simp: apply_entry_def split: option.split sum.split WebOp.split intro: still_intros)

lemma still_apply_loop [still_intros]: "still (apply_loop k a)"
  by (induction k arbitrary: a) (auto intro!: still_intros split: option.split)

lemma still_apply_committed [still_intros]: "still apply_committed"
  unfolding apply_committed_def Let_def split_beta by (intro still_intros)

lemma still_append_loop [still_intros]: "still (append_loop i es l)"
  by (induction es arbitrary: l) (auto intro!: still_intros split: option.split)

lemma still_accept [still_intros]: "still (accept_entries me req i cur)" "still (reject me cur)" "still (check_prev req inc)" "still last_log_index_term"
  unfolding accept_entries_def reject_def check_prev_def last_log_index_term_def by (intro still_intros)+

lemma still_keeps: "still m \<Longrightarrow> keeps_vote d (snd (m d))"
  by (simp add: still_def keeps_vote_def)

lemma bind_keeps:
  assumes "keeps_vote d (snd (m d))" "\<And>x d'. m d = (Inr x, d') \<Longrightarrow> keeps_vote d' (snd (f x d'))"
  shows "keeps_vote d (snd (bind_sto m f d))"
  using assms by (cases "m d") (auto simp: bind_sto_def split: sum.split intro: keeps_vote_trans)

lemma query_Inr: "sql_query q d = (Inr x, d') \<Longrightarrow> \<exists>fs. d' = d\<lparr>d_faults := fs\<rparr> \<and> x = q d'"
  by (auto simp: sql_query_def sql_def split: list.splits bool.splits)

lemma exec_Inr: "sql_exec u d = (Inr x, d') \<Longrightarrow> \<exists>fs. d' = u (d\<lparr>d_faults := fs\<rparr>)"
  by (auto simp: sql_exec_def sql_def split: list.splits bool.splits)

lemma exec_cases: "\<exists>fs. sql_exec u d = (Inl ErrDB, d\<lparr>d_faults := fs\<rparr>) \<or> sql_exec u d = (Inr (), u (d\<lparr>d_faults := fs\<rparr>))"
  by (auto simp: sql_exec_def sql_def split: list.split bool.split)

lemma new_term_keeps:
  assumes "d_term d < t" "\<And>d. d_term (snd (m d)) = d_term d"
  shows "keeps_vote d (snd (bind_sto (set_current_term t) (\<lambda>_. m) d))"
  using exec_cases [of "\<lambda>d. d\<lparr>d_term := t\<rparr>" d] assms
  by (auto simp: set_current_term_def bind_sto_def keeps_vote_def)

lemma set_voted_term: "d_term (snd (bind_sto (set_voted_for v) (\<lambda>_. ret x) d)) = d_term d"
  using exec_cases [of "\<lambda>d. d\<lparr>d_voted := v\<rparr>" d] by (auto simp: set_voted_for_def bind_sto_def)

lemma adopt_term_keeps: "keeps_vote d (snd (adopt_term t (d_term d) d))"
  using new_term_keeps [of d t "bind_sto (set_voted_for None) (\<lambda>_. ret t)", OF _ set_voted_term] by (simp add: adopt_term_def)

lemma from_current_keeps:
  assumes "\<And>d. keeps_vote d (snd (f (d_term d) d))"
  shows "keeps_vote d (snd (bind_sto current_term f d))"
proof (rule bind_keeps)
  show "keeps_vote d (snd (current_term d))" by (rule still_keeps) (rule still_intros)
  fix x d' assume "current_term d = (Inr x, d')"
  then have x: "x = d_term d'" using query_Inr [of d_term d x d'] by (auto simp: current_term_def)
  show "keeps_vote d' (snd (f x d'))" unfolding x by (rule assms)
qed

lemma append_keeps: "keeps_vote d (snd (handle_append_entries me req d))"
  unfolding handle_append_entries_def
proof (rule from_current_keeps)
  fix d
  let ?f = "\<lambda>cur. bind_sto last_included (\<lambda>inc. bind_sto (check_prev req inc) (\<lambda>bad. case bad of
      Some False \<Rightarrow> reject me cur | Some True \<Rightarrow> bind_sto (log_truncate_from (prev_log_entry req)) (\<lambda>_. reject me cur)
    | None \<Rightarrow> accept_entries me req (fst inc) cur))"
  have "still (?f c)" for c by (intro still_intros) (auto intro!: still_intros split: bool.split)
  then have "keeps_vote d (snd (bind_sto (adopt_term (ae_term req) (d_term d)) ?f d))"
    by (intro bind_keeps adopt_term_keeps still_keeps)
  then show "keeps_vote d (snd ((if ae_term req < d_term d then reject me (d_term d) else bind_sto (adopt_term (ae_term req) (d_term d)) ?f) d))"
    using still_keeps [OF still_accept(2)] by simp
qed

lemma cast_vote_keeps: "keeps_vote d (snd (cast_vote me req cur d))"
  unfolding cast_vote_def
proof (intro bind_keeps)
  show "keeps_vote d (snd (last_log_index_term d))" "keeps_vote d' (snd (voted_for d'))" for d d'
    by (intro still_keeps still_intros)+
  fix own d' voted d'' assume "voted_for d' = (Inr voted, d'')"
  then have v: "voted = d_voted d''" using query_Inr [of d_voted d' voted d''] by (auto simp: voted_for_def)
  let ?g = "(voted = None \<or> voted = candidate_id req) \<and> up_to_date (rv_last_index req) (rv_last_term req) own"
  have "keeps_vote d'' (snd ((if ?g then set_voted_for (candidate_id req) else ret ()) d''))"
    using exec_cases [of "\<lambda>d. d\<lparr>d_voted := candidate_id req\<rparr>" d''] v by (auto simp: set_voted_for_def keeps_vote_def)
  then show "keeps_vote d'' (snd ((let granted = ?g in bind_sto (if granted then set_voted_for (candidate_id req) else ret ())
      (\<lambda>_. ret \<lparr>rvr_header = my_header me, rvr_term = cur, rvr_peers = None, rvr_granted = granted\<rparr>)) d''))"
    unfolding Let_def by (rule bind_keeps) simp
qed

lemma vote_keeps: "keeps_vote d (snd (handle_request_vote me req d))"
  unfolding handle_request_vote_def
proof (rule from_current_keeps)
  fix d
  have "keeps_vote d (snd (bind_sto (adopt_term (rv_term req) (d_term d)) (cast_vote me req) d))"
    by (rule bind_keeps [OF adopt_term_keeps cast_vote_keeps])
  then show "keeps_vote d (snd ((if rv_term req < d_term d
      then ret \<lparr>rvr_header = my_header me, rvr_term = d_term d, rvr_peers = None, rvr_granted = False\<rparr>
      else bind_sto (adopt_term (rv_term req) (d_term d)) (cast_vote me req)) d))" by simp
qed

lemma still_term: "still m \<Longrightarrow> d_term (snd (m d)) = d_term d"
  by (simp add: still_def)

lemma still_then: "still m \<Longrightarrow> (\<And>x d. keeps_vote d (snd (f x d))) \<Longrightarrow> keeps_vote d (snd (bind_sto m f d))"
  by (rule bind_keeps [OF still_keeps])

lemma install_keeps: "keeps_vote d (snd (handle_install_snapshot me req body d))"
proof (cases "decode_snapshot_entries body")
  case (Inl e)
  have "still (bind_sto current_term (\<lambda>cur. ret \<lparr>isr_header = my_header me, isr_term = cur, isr_success = False\<rparr>))" by (intro still_intros)
  with Inl show ?thesis by (simp add: handle_install_snapshot_def still_keeps del: bind_sto_simps)
next
  case (Inr es)
  let ?k = "\<lambda>cur. bind_sto commit_index (\<lambda>c. bind_sto (if is_last_index req > c then set_commit_index (is_last_index req) else ret ())
    (\<lambda>_. bind_sto (set_last_applied (is_last_index req)) (\<lambda>_. ret \<lparr>isr_header = my_header me, isr_term = cur, isr_success = True\<rparr>)))"
  have k: "keeps_vote d (snd (?k cur d))" for cur d by (rule still_keeps) (intro still_intros)
  have t: "keeps_vote d (snd ((if is_term req > d_term d then bind_sto (set_current_term (is_term req)) (\<lambda>_. ret (is_term req)) else ret (d_term d)) d))" for d
    using new_term_keeps [of d "is_term req" "ret (is_term req)", OF _ still_term [OF still_ret(2)]] by simp
  have "keeps_vote d (snd (bind_sto (kv_replace_all es) (\<lambda>_. bind_sto (log_truncate_through (is_last_index req)) (\<lambda>_.
      bind_sto (set_last_included (is_last_index req) (is_last_term req)) (\<lambda>_. bind_sto current_term (\<lambda>cur.
      bind_sto (if is_term req > cur then bind_sto (set_current_term (is_term req)) (\<lambda>_. ret (is_term req)) else ret cur) ?k)))) d))"
    by (intro still_then [OF still_replace_all] still_then [OF still_ops(7)] still_then [OF still_ops(11)] from_current_keeps bind_keeps [OF t k])
  with Inr show ?thesis by (simp add: handle_install_snapshot_def)
qed

lemma rpc_keeps: "keeps_vote d (handle_rpc me m d)"
proof (cases m)
  case (RequestPreVote req)
  have "still (handle_request_pre_vote me req)" unfolding handle_request_pre_vote_def by (intro still_intros)
  with RequestPreVote show ?thesis by (simp add: still_keeps)
qed (simp_all add: append_keeps vote_keeps install_keeps handle_timeout_now_def)

text \<open>A granted vote is the one on record.\<close>

lemma granted_recorded:
  assumes "handle_request_vote me req d = (Inr r, d')" "rvr_granted r"
  shows "d_term d' = rvr_term r \<and> d_voted d' = candidate_id req"
proof -
  obtain cur d1 where c: "current_term d = (Inr cur, d1)" and
    rest: "(if rv_term req < cur then ret \<lparr>rvr_header = my_header me, rvr_term = cur, rvr_peers = None, rvr_granted = False\<rparr>
      else bind_sto (adopt_term (rv_term req) cur) (cast_vote me req)) d1 = (Inr r, d')"
    using assms(1) unfolding handle_request_vote_def by (rule bind_sto_InrE)
  have cur: "cur = d_term d1" using query_Inr [of d_term d cur d1] c by (auto simp: current_term_def)
  from rest assms(2) have "bind_sto (adopt_term (rv_term req) cur) (cast_vote me req) d1 = (Inr r, d')" by (auto split: if_splits)
  then obtain t d2 where a: "adopt_term (rv_term req) cur d1 = (Inr t, d2)" and v: "cast_vote me req t d2 = (Inr r, d')"
    by (rule bind_sto_InrE)
  have t: "t = d_term d2"
    using a cur by (auto simp: adopt_term_def set_current_term_def set_voted_for_def split: if_splits elim!: bind_sto_InrE dest!: exec_Inr)
  obtain own d3 where o: "last_log_index_term d2 = (Inr own, d3)" and v3: "bind_sto voted_for (\<lambda>voted.
     let granted = ((voted = None \<or> voted = candidate_id req) \<and> up_to_date (rv_last_index req) (rv_last_term req) own) in
     bind_sto (if granted then set_voted_for (candidate_id req) else ret ()) (\<lambda>_.
     ret \<lparr>rvr_header = my_header me, rvr_term = t, rvr_peers = None, rvr_granted = granted\<rparr>)) d3 = (Inr r, d')"
    using v unfolding cast_vote_def by (rule bind_sto_InrE)
  have t3: "d_term d3 = t" using still_term [OF still_accept(4), of d2] o t by simp
  from v3 assms(2) t3 show ?thesis
    by (auto simp: Let_def voted_for_def set_voted_for_def split: if_splits elim!: bind_sto_InrE dest!: exec_Inr query_Inr)
qed

lemma grants_recorded:
  assumes "(t, c) \<in> set (grants me m d)"
  shows "d_term (handle_rpc me m d) = t \<and> d_voted (handle_rpc me m d) = c"
proof -
  from assms obtain req where m: "m = RequestVote req" by (cases m) (auto simp: grants_def)
  obtain x d' where h: "handle_request_vote me req d = (x, d')" by fastforce
  with assms m obtain r where r: "x = Inr r" "rvr_granted r" "t = rvr_term r" "c = candidate_id req"
    by (cases x) (auto simp: grants_def split: if_splits)
  with granted_recorded [OF h [unfolded r(1)] r(2)] h m show ?thesis by simp
qed

lemma votes_later:
  assumes "(t, c) \<in> set (votes_cast me ms d)"
  shows "d_term d \<le> t \<and> (d_term d = t \<longrightarrow> d_voted d \<noteq> None \<longrightarrow> c = d_voted d)"
  using assms
proof (induction ms arbitrary: d)
  case (Cons m ms)
  from Cons.prems consider "(t, c) \<in> set (grants me m d)" | "(t, c) \<in> set (votes_cast me ms (handle_rpc me m d))" by auto
  then show ?case
  proof cases
    case 1
    with grants_recorded [OF 1] rpc_keeps [of d me m] show ?thesis by (auto simp: keeps_vote_def)
  next
    case 2
    with Cons.IH [OF 2] rpc_keeps [of d me m] show ?thesis by (auto simp: keeps_vote_def)
  qed
qed simp

text \<open>C14. Whatever requests a learner serves and whichever of its statements fail, the votes it grants in one term to candidates that give a name all go to the same candidate.\<close>

theorem one_vote_per_term:
  assumes "(t, Some a) \<in> set (votes_cast me ms d)" "(t, Some b) \<in> set (votes_cast me ms d)"
  shows "a = b"
  using assms
proof (induction ms arbitrary: d)
  case (Cons m ms)
  have once: "x = y" if "(t, Some x) \<in> set (grants me m d)" "(t, Some y) \<in> set (votes_cast me ms (handle_rpc me m d))" for x y
    using grants_recorded [OF that(1)] votes_later [OF that(2)] by simp
  have "x = y" if "(t, Some x) \<in> set (grants me m d)" "(t, Some y) \<in> set (grants me m d)" for x y
    using grants_recorded [OF that(1)] grants_recorded [OF that(2)] by simp
  with once [of a b] once [of b a] Cons show ?case by auto
qed simp

definition ballot :: "bytes \<Rightarrow> nat \<Rightarrow> web_rpc" where
  "ballot c t = RequestVote \<lparr>rv_header = \<lparr>protocol_version = 3, rpc_id = Some c, rpc_addr = None\<rparr>, rv_term = t, candidate = None,
     rv_last_index = 0, rv_last_term = 0, leadership_transfer = False\<rparr>"

theorem one_vote_per_term_witness:
  "let me = \<lparr>self_id = [1], self_addr = []\<rparr>; ms = [ballot [7] 2, ballot [8] 2, ballot [7] 2] in
   (2, Some [7]) \<in> set (votes_cast me ms web_fresh) \<and> (\<forall>b. (2, Some b) \<in> set (votes_cast me ms web_fresh) \<longrightarrow> b = [7])"
proof -
  let ?me = "\<lparr>self_id = [1], self_addr = []\<rparr>" and ?ms = "[ballot [7] 2, ballot [8] 2, ballot [7] 2]"
  have "(2, Some [7]) \<in> set (votes_cast ?me ?ms web_fresh)" by code_simp
  with one_vote_per_term [of 2 "[7]" ?me ?ms web_fresh] show ?thesis unfolding Let_def by blast
qed

subsection \<open>The learner's table and the cluster's\<close>

lemma fresh_follows: "follows G Com known web_fresh"
  by (simp add: follows_def web_fresh_def sound_def log_ok_def agrees_upto_def)

lemma append_accepted:
  assumes "raft_history G Com known" "follows G Com known d" "from_leader G known req" "d_term d \<le> ae_term req"
    and "prev_log_entry req = 0 \<or> prev_term req d = Some (prev_log_term req)"
    and "leader_commit_index req \<le> prev_log_entry req + length (entries req)"
  shows "\<exists>r d'. handle_append_entries me req d = (Inr r, d') \<and> aer_success r \<and> follows G Com known d' \<and>
    d_applied d' = max (leader_commit_index req) (max (d_applied d) (d_commit d))"
proof -
  define d1 where "d1 = with_term (ae_term req) d"
  have F1: "follows G Com known d1" and T: "d_term d1 = ae_term req" and P: "prev_term req d1 = prev_term req d"
    using follows_term [OF assms(2)] assms(4) by (simp_all add: d1_def prev_term_def)
  then have P1: "prev_log_entry req = 0 \<or> prev_term req d1 = Some (prev_log_term req)" using assms(5) by simp
  then have "verdict req d1 = None" by (auto simp: verdict_def)
  then have h: "handle_append_entries me req d = accept_entries me req (fst (d_included d1)) (ae_term req) d1"
    using append_current [OF assms(2,4), of me] by (simp add: Let_def d1_def [symmetric])
  obtain r e where e: "accept_entries me req (fst (d_included d1)) (ae_term req) d1 = (Inr r, e)" "aer_success r" "follows G Com known e"
    "d_applied e = max (d_applied d1) (if leader_commit_index req > d_commit d1
      then min (leader_commit_index req) (max (prev_log_entry req + length (entries req)) (fst (d_included d1))) else d_commit d1)"
    using accept_entries_follows [OF assms(1) F1 assms(3) T P1, of me "ae_term req"] by blast
  have "d_applied e = max (leader_commit_index req) (max (d_applied d) (d_commit d))"
    unfolding e(4) using assms(6) by (auto simp: d1_def)
  with h e show ?thesis by simp
qed


text \<open>A command the Go side encodes decodes here to the same key and value, while it fits in memory.\<close>

lemma decode_Encode:
  assumes "from_byte b = Some op" "length key + length val + 9 < 2 ^ 32"
  shows "decode_command (EncodeCommand b key val) = Some (Inr \<lparr>c_op = op, c_key = key, c_value = val\<rparr>)"
  using assms EncodeCommand_slices [where op = b and key = key and val = val] by (simp add: decode_command_def usize_add_def range_index_def Let_def)

text \<open>A cluster of one leader, in term 1, that has committed one write.\<close>

definition write_ab :: bytes where "write_ab = EncodeCommand 1 [0x61] [0x62]"
definition com1 :: log_fun where "com1 i = (if i = 1 then Some (1, write_ab) else None)"
definition hist1 :: "nat \<Rightarrow> log_fun" where "hist1 T = (if T = 0 then (\<lambda>_. None) else com1)"
definition known1 :: "nat \<Rightarrow> nat" where "known1 T = (if T = 0 then 0 else 1)"

definition append1 :: AppendEntriesRequest where
  "append1 = \<lparr>ae_header = \<lparr>protocol_version = 3, rpc_id = Some [9], rpc_addr = None\<rparr>, ae_term = 1, ae_leader = None, prev_log_entry = 0, prev_log_term = 0,
     entries = [\<lparr>lg_index = 1, lg_term = 1, log_type = 0, lg_data = Some write_ab, extensions = None\<rparr>], leader_commit_index = 1\<rparr>"

lemma decode_ab: "decode_command write_ab = Some (Inr \<lparr>c_op = Op_Set, c_key = [0x61], c_value = [0x62]\<rparr>)"
  by (simp add: write_ab_def decode_Encode from_byte_def)

lemma history1: "raft_history hist1 com1 known1"
  by (auto simp: raft_history_def hist1_def com1_def known1_def decodable_def decode_ab split: if_splits)

lemma leader1: "from_leader hist1 known1 append1"
  by (simp add: from_leader_def append1_def known1_def hist1_def com1_def entry_data_def)

lemma appended1: "d_applied (snd (handle_append_entries me append1 web_fresh)) = 1"
  using append_accepted [OF history1 fresh_follows leader1, of me] by (auto simp: append1_def web_fresh_def)

lemma replay1: "replay com1 1 = [([0x61], [0x62])]"
  by (simp add: com1_def web_apply_def decode_ab tbl_upsert_simps)

lemma step1:
  "(web_step hist1 com1 known1 me)\<^sup>*\<^sup>* web_fresh (snd (handle_append_entries me append1 web_fresh))"
  by (intro r_into_rtranclp web_step.append leader1)


text \<open>C16. A learner that is behind catches up: an append of the current leader whose previous entry it holds, and which carries everything up to the leader's commit index, succeeds and leaves the table the replay of the committed log through that index, or further where the learner was further.\<close>

theorem learner_catches_up:
  assumes "raft_history G Com known" "follows G Com known d" "from_leader G known req" "d_term d \<le> ae_term req"
    and "prev_log_entry req = 0 \<or> prev_term req d = Some (prev_log_term req)"
    and "leader_commit_index req \<le> prev_log_entry req + length (entries req)"
  shows "\<exists>r d'. handle_append_entries me req d = (Inr r, d') \<and> aer_success r \<and>
    d_applied d' = max (leader_commit_index req) (max (d_applied d) (d_commit d)) \<and> d_kv d' = replay Com (d_applied d')"
  using append_accepted [OF assms, of me] followsD(5) by blast

theorem learner_catches_up_witness:
  "\<exists>r d'. handle_append_entries \<lparr>self_id = [1], self_addr = []\<rparr> append1 web_fresh = (Inr r, d') \<and> aer_success r \<and> d_kv d' = [([0x61], [0x62])]"
proof -
  have "d_term web_fresh \<le> ae_term append1" "prev_log_entry append1 = 0 \<or> prev_term append1 web_fresh = Some (prev_log_term append1)"
    "leader_commit_index append1 \<le> prev_log_entry append1 + length (entries append1)"
    "max (leader_commit_index append1) (max (d_applied web_fresh) (d_commit web_fresh)) = 1"
    by (simp_all add: append1_def web_fresh_def)
  with learner_catches_up [OF history1 fresh_follows leader1 this(1-3), of "\<lparr>self_id = [1], self_addr = []\<rparr>"] replay1
  show ?thesis by force
qed

subsection \<open>The learner and a Go voter\<close>

text \<open>The commands both sides know: sets and deletes, of a key the access-control checks do not concern, that fit in memory.\<close>

definition plain_command :: "bytes \<Rightarrow> bool" where
  "plain_command data \<longleftrightarrow> (\<exists>op key val. data = EncodeCommand op key val \<and> (op = OpSet \<or> op = OpDel) \<and> \<not> is_system_key key \<and>
     length key + length val + 9 < 2 ^ 32)"

lemma Apply_plain:
  assumes "healthy s" "wf_store s" "plain_command (Data l)"
  shows "snd (Apply lim l s) = s\<lparr>kv := web_apply (Data l) (kv s)\<rparr>"
proof -
  obtain op key val where e: "Data l = EncodeCommand op key val" "op = OpSet \<or> op = OpDel" "\<not> is_system_key key" "length key + length val + 9 < 2 ^ 32"
    using assms(3) by (auto simp: plain_command_def)
  have "Apply lim l = applyOp lim (AppendedAt l) op key val" using Apply_Encode [of key val lim op "AppendedAt l"] e by (cases l) simp
  moreover have "web_apply (Data l) (kv s) = (if op = OpSet then tbl_upsert key val (kv s) else tbl_delete key (kv s))"
    using e(2) decode_Encode [OF _ e(4), of op] unfolding web_apply_def e(1) by (auto simp: from_byte_def OpSet_def OpDel_def)
  ultimately show ?thesis
    using e(2) applySet_user [OF assms(1,2) e(3)] assms(1) by (auto simp: applyOp_def applyDel_def del_def OpSet_def OpDel_def bind_sto_def db_exec_def healthy_def)
qed

text \<open>C15. Over a log of such commands the learner's replay and a voter's state machine build the same table, the one the browser reads and the one the daemon reads.\<close>

theorem learner_matches_voter:
  assumes "healthy s" "kv s = []" "\<forall>l \<in> set ls. plain_command (Data l)" "\<forall>i < length ls. \<exists>t. L (Suc i) = Some (t, Data (ls ! i))"
  shows "kv (snd (run_log (Apply lim) ls s)) = replay L (length ls)"
proof -
  have "snd (run_log (Apply lim) ls s) = s\<lparr>kv := replay L (length ls)\<rparr>" using assms(3,4)
  proof (induction ls rule: rev_induct)
    case Nil
    show ?case using assms(2) by simp
  next
    case (snoc l ls)
    let ?s = "s\<lparr>kv := replay L (length ls)\<rparr>"
    have "\<forall>i < length ls. \<exists>t. L (Suc i) = Some (t, Data (ls ! i))"
      using snoc.prems(2) by (metis length_append_singleton less_SucI nth_append)
    then have IH: "snd (run_log (Apply lim) ls s) = ?s" using snoc by simp
    obtain t where "L (Suc (length ls)) = Some (t, Data l)"
      using snoc.prems(2) [rule_format, of "length ls"] by auto
    moreover have "snd (Apply lim l ?s) = s\<lparr>kv := web_apply (Data l) (replay L (length ls))\<rparr>"
      using Apply_plain [of ?s l lim] snoc.prems(1) assms(1) by (simp add: healthy_def wf_store_def)
    ultimately show ?case using IH by (auto simp: run_log_append split: prod.splits)
  qed
  then show ?thesis by simp
qed

lemma plain_ab: "plain_command write_ab"
  unfolding plain_command_def write_ab_def by (intro exI conjI, rule refl) (simp_all add: OpSet_def is_system_key_def)

theorem learner_matches_voter_witness:
  "kv (snd (run_log (Apply default_limits) [\<lparr>Data = write_ab, AppendedAt = 0\<rparr>] \<lparr>kv = [], faults = []\<rparr>)) = [([0x61], [0x62])]"
  using learner_matches_voter [of "\<lparr>kv = [], faults = []\<rparr>" "[\<lparr>Data = write_ab, AppendedAt = 0\<rparr>]" com1 default_limits] replay1
  by (simp add: healthy_def plain_ab com1_def)

lemma decode_dump:
  assumes "list_all frame_sized rows"
  shows "decode_snapshot_entries (concat (map dumpRow rows)) = Inr rows"
  using assms
proof (induction rows)
  case Nil
  show ?case by (simp add: decode_snapshot_entries.simps)
next
  case (Cons r rows)
  have "be32 n \<noteq> []" for n by (metis length_be32 list.size(3) zero_neq_numeral)
  with Cons show ?case
    by (subst decode_snapshot_entries.simps) (simp add: dumpRow_def [of r] putUint32_def frame_sized_def [of r] Let_def)
qed

text \<open>C17. A snapshot that a voter persists is one the learner installs: its table becomes the voter's, in whatever order the dump lists the rows, and its indices move to the snapshot's.\<close>

theorem learner_installs_dump:
  assumes "healthy s" "wf_store s" "list_all frame_sized (kv s)" "mset (row_order (kv s)) = mset (kv s)" "Persist row_order s = (Inr body, s')"
    and "sound d" "\<not> d_txn d"
  shows "\<exists>r d'. handle_install_snapshot me req body d = (Inr r, d') \<and> isr_success r \<and> d_kv d' = kv s \<and>
    d_applied d' = is_last_index req \<and> d_included d' = (is_last_index req, is_last_term req) \<and> is_term req \<le> d_term d'"
proof -
  have b: "body = concat (map dumpRow (row_order (kv s)))"
    using assms(1,5) by (auto simp: Persist_def DumpAll_def healthy_def db_query_def)
  have "list_all frame_sized (row_order (kv s))" using assms(3,4) by (metis list_all_iff mset_eq_setD)
  from decode_dump [OF this] have "decode_snapshot_entries body = Inr (row_order (kv s))" unfolding b .
  from install_sound [OF assms(6,7) _ this assms(4)] assms(2) show ?thesis by (simp add: wf_store_def installed_def)
qed

theorem learner_installs_dump_witness:
  "\<exists>r d'. handle_install_snapshot \<lparr>self_id = [1], self_addr = []\<rparr> \<lparr>is_header = \<lparr>protocol_version = 3, rpc_id = None, rpc_addr = None\<rparr>,
       snapshot_version = 1, is_term = 2, is_leader = None, is_last_index = 5, is_last_term = 2, is_peers = None, configuration = None,
       configuration_index = 1, is_size = 20\<rparr> (dumpRow ([0x62], [2]) @ dumpRow ([0x61], [1])) web_fresh = (Inr r, d') \<and>
     d_kv d' = [([0x61], [1]), ([0x62], [2])] \<and> d_applied d' = 5"
proof -
  let ?s = "\<lparr>kv = [([0x61], [1]), ([0x62], [2])], faults = []\<rparr> :: store"
  have p: "healthy ?s" "wf_store ?s" "list_all frame_sized (kv ?s)" "mset (rev (kv ?s)) = mset (kv ?s)"
    "Persist rev ?s = (Inr (dumpRow ([0x62], [2]) @ dumpRow ([0x61], [1])), ?s)" "sound web_fresh" "\<not> d_txn web_fresh"
    by (simp_all add: healthy_def wf_store_def tbl_ok_def frame_sized_def Persist_def DumpAll_def db_query_def sound_def web_fresh_def)
  show ?thesis using learner_installs_dump [OF p, of "\<lparr>self_id = [1], self_addr = []\<rparr>" "\<lparr>is_header = \<lparr>protocol_version = 3, rpc_id = None, rpc_addr = None\<rparr>,
       snapshot_version = 1, is_term = 2, is_leader = None, is_last_index = 5, is_last_term = 2, is_peers = None, configuration = None,
       configuration_index = 1, is_size = 20\<rparr>"] by auto
qed

subsection \<open>Where the two part\<close>

text \<open>The other operations of the Go state machine are unknown to the learner, which skips them without an error.\<close>

lemma learner_skips_other_ops:
  assumes "op \<noteq> OpSet" "op \<noteq> OpDel"
  shows "web_apply (EncodeCommand op key val) t = t"
  using assms EncodeCommand_slices(1,2) [where op = op and key = key and val = val]
  by (simp add: web_apply_def decode_command_def from_byte_def OpSet_def OpDel_def)

text \<open>A key length near the top of 32 bits wraps the offset and panics the learner, where the voter answers with an error.\<close>

lemma long_key_panics:
  assumes "length rest \<ge> 4"
  shows "decode_command ([1, 0xFF, 0xFF, 0xFF, 0xFF] @ rest) = None"
  using assms by (simp add: decode_command_def from_byte_def slice_def usize_add_def range_index_def Let_def)

text \<open>
  An install request is not checked against the learner's term or its last snapshot. One that arrives late moves
  the applied index back; the next heartbeat then steps over the indices the log no longer holds, and
  the entries the leader sends again are never applied.
\<close>

definition install_at :: "nat \<Rightarrow> nat \<Rightarrow> (bytes \<times> bytes) list \<Rightarrow> unit web" where
  "install_at i t rows = bind_sto (handle_install_snapshot \<lparr>self_id = [1], self_addr = []\<rparr> \<lparr>is_header = \<lparr>protocol_version = 3, rpc_id = None, rpc_addr = None\<rparr>,
     snapshot_version = 1, is_term = t, is_leader = None, is_last_index = i, is_last_term = t, is_peers = None, configuration = None,
     configuration_index = 1, is_size = 0\<rparr> (concat (map dumpRow rows))) (\<lambda>_. ret ())"

definition append_at :: "nat \<Rightarrow> nat \<Rightarrow> bytes list \<Rightarrow> nat \<Rightarrow> bool web" where
  "append_at p t ds c = bind_sto (handle_append_entries \<lparr>self_id = [1], self_addr = []\<rparr> \<lparr>ae_header = \<lparr>protocol_version = 3, rpc_id = None, rpc_addr = None\<rparr>,
     ae_term = t, ae_leader = None, prev_log_entry = p, prev_log_term = (if p = 0 then 0 else t),
     entries = map (\<lambda>(i, b). \<lparr>lg_index = i, lg_term = t, log_type = 0, lg_data = Some b, extensions = None\<rparr>) (enumerate (p + 1) ds),
     leader_commit_index = c\<rparr>) (\<lambda>r. ret (aer_success r))"

lemma install_at_sound:
  assumes "sound d" "\<not> d_txn d" "tbl_ok rows" "list_all frame_sized rows"
  shows "bind_sto (install_at i t rows) f d = f () (d\<lparr>d_kv := rows, d_log := filter (\<lambda>r. fst r > i) (d_log d), d_included := (i, t),
    d_term := max (d_term d) t, d_commit := max (d_commit d) i, d_applied := i\<rparr>)"
  using install_sound [OF assms(1-3) decode_dump [OF assms(4)] refl]
  by (simp add: install_at_def bind_assoc bind_sto_apply_Inr installed_def)

definition after_stale :: webdb where
  "after_stale = web_fresh\<lparr>d_kv := [([0x61], [1])], d_included := (1, 1), d_term := 1, d_commit := 2, d_applied := 1\<rparr>"

lemma sound_stale [simp]: "sound after_stale"
  by (simp add: after_stale_def web_fresh_def sound_def)

lemmas append_run = append_at_def handle_append_entries_def accept_entries_def check_prev_def adopt_term_def apply_committed_def
  entry_data_def web_ops bind_assoc Let_def

lemma heartbeat_steps_over: "bind_sto (append_at 0 1 [] 0) f after_stale = f True (after_stale\<lparr>d_applied := 2\<rparr>)"
proof -
  have "d_term after_stale = 1" "d_included after_stale = (1, 1)" "d_commit after_stale = 2" "d_applied after_stale = 1" "d_log after_stale = []"
    by (simp_all add: after_stale_def web_fresh_def)
  moreover have "apply_loop 1 1 = bind_sto (log_get 2) (\<lambda>r. bind_sto (case r of None \<Rightarrow> ret () | Some (_, data) \<Rightarrow> apply_entry data)
      (\<lambda>_. bind_sto (set_last_applied 2) (\<lambda>_. ret ())))" using apply_loop.simps(2) [of 0 1] by (simp add: numeral_2_eq_2)
  ultimately show ?thesis by (simp add: append_run)
qed

lemma resent_not_applied:
  "append_at 1 1 [data] 2 (after_stale\<lparr>d_applied := 2\<rparr>) = (Inr True, after_stale\<lparr>d_applied := 2, d_log := [(2, 1, data)]\<rparr>)"
proof -
  have "d_term after_stale = 1" "d_included after_stale = (1, 1)" "d_commit after_stale = 2" "d_log after_stale = []"
    by (simp_all add: after_stale_def web_fresh_def)
  then show ?thesis by (simp add: append_run)
qed

lemma stale_snapshot_diverges:
  "\<exists>d. bind_sto (install_at 2 1 [([0x61], [1]), ([0x62], [2])]) (\<lambda>_. bind_sto (install_at 1 1 [([0x61], [1])]) (\<lambda>_.
     bind_sto (append_at 0 1 [] 0) (\<lambda>_. append_at 1 1 [EncodeCommand 1 [0x62] [2]] 2))) web_fresh = (Inr True, d) \<and>
     d_applied d = 2 \<and> d_kv d = [([0x61], [1])]"
proof -
  have two: "bind_sto (install_at 2 1 [([0x61], [1]), ([0x62], [2])]) (\<lambda>_. bind_sto (install_at 1 1 [([0x61], [1])]) f) web_fresh = f () after_stale"
    for f :: "unit \<Rightarrow> bool web"
    by (simp add: install_at_sound tbl_ok_def frame_sized_def web_fresh_def sound_def after_stale_def) (simp add: numeral_2_eq_2)
  show ?thesis unfolding two heartbeat_steps_over resent_not_applied by (simp add: after_stale_def)
qed

end
