(* ===== verification/Shm_Event.thy ===== *)
theory Shm_Event
  imports Shm_Txn Shm_Invite
begin

text \<open>
  The messages a node exchanges with its clients and peers (api/shmevent.capnp,
  src/pkg/shmevent/event.go and the per-topic constructors beside it): the union of event
  variants, the wire numbers and names of the variants, and the constructors with their size
  check. A Text or Data field is a pointer whose read may fail, so it is a result.
\<close>

subsection \<open>Variants\<close>

type_synonym ptr = "bytes res"

datatype (plugins only: code) event =
    Ev_setKey ptr
  | Ev_setField "16 word" ptr
  | Ev_getKey "16 word" ptr
  | Ev_getFieldByRegistry "16 word" ptr
  | Ev_getFieldByKey ptr ptr
  | Ev_getPublicKey ptr
  | Ev_getPrivateKey ptr
  | Ev_bootstrapOrJoinCluster ptr
  | Ev_addLearner "16 word" ptr
  | Ev_set ptr ptr
  | Ev_execute "16 word" "16 word" ptr ptr
  | Ev_pollExecute ptr ptr
  | Ev_listRange ptr ptr ptr ptr
  | Ev_logAppend ptr ptr
  | Ev_leave
  | Ev_execInviteRedeem ptr ptr ptr ptr
  | Ev_joinRequestCreate ptr
  | Ev_joinRequestCancel ptr
  | Ev_recruit ptr byte
  | Ev_getOwnAddr ptr
  | Ev_channelOpen ptr ptr
  | Ev_channelSend ptr byte ptr
  | Ev_channelPoll ptr byte byte ptr
  | Ev_channelListen ptr ptr
  | Ev_channelClose ptr
  | Ev_channelCloseWrite ptr
  | Ev_channelDataReady ptr
  | Ev_kick ptr
  | Ev_txn "TxnOpSpec list res"
  | Ev_getVersion ptr bool ptr ptr ptr
  | Ev_publicAccess ptr ptr ptr
  | Ev_execTicket ptr ptr
  | Ev_joinTicket ptr ptr
  | Ev_joinRequestTicket ptr ptr
  | Ev_dialSubmitCommand ptr ptr ptr ptr ptr
  | Ev_dialQueryCommandLog ptr ptr int int int "bytes list res"
  | Ev_error ptr
  | Ev_groupPut ptr ptr bool
  | Ev_groupDelete ptr
  | Ev_commandPut ptr ptr ptr "ptr option"
  | Ev_commandDelete ptr
  | Ev_stationPut ptr ptr ptr
  | Ev_stationDelete ptr
  | Ev_groupCommandPut ptr ptr
  | Ev_groupCommandDelete ptr ptr
  | Ev_peerGroupPut ptr ptr
  | Ev_peerGroupDelete ptr ptr
  | Ev_permitRequest byte ptr ptr
  | Ev_permitConfirm byte ptr
  | Ev_permitRevoke byte ptr
  | Ev_joinInviteCreate ptr byte
  | Ev_joinInviteRevoke ptr
  | Ev_execInviteCreate ptr ptr ptr "64 word"
  | Ev_execInviteRevoke ptr
  | Ev_other "16 word"

subsection \<open>Wire numbers and names\<close>

definition W_setKey :: "16 word" where [simp]: "W_setKey = 0"
definition W_setField :: "16 word" where [simp]: "W_setField = 1"
definition W_getKey :: "16 word" where [simp]: "W_getKey = 2"
definition W_getFieldByRegistry :: "16 word" where [simp]: "W_getFieldByRegistry = 3"
definition W_getFieldByKey :: "16 word" where [simp]: "W_getFieldByKey = 4"
definition W_getPublicKey :: "16 word" where [simp]: "W_getPublicKey = 5"
definition W_getPrivateKey :: "16 word" where [simp]: "W_getPrivateKey = 6"
definition W_bootstrapOrJoinCluster :: "16 word" where [simp]: "W_bootstrapOrJoinCluster = 7"
definition W_addLearner :: "16 word" where [simp]: "W_addLearner = 8"
definition W_set :: "16 word" where [simp]: "W_set = 9"
definition W_execute :: "16 word" where [simp]: "W_execute = 10"
definition W_pollExecute :: "16 word" where [simp]: "W_pollExecute = 11"
definition W_listRange :: "16 word" where [simp]: "W_listRange = 12"
definition W_logAppend :: "16 word" where [simp]: "W_logAppend = 13"
definition W_leave :: "16 word" where [simp]: "W_leave = 14"
definition W_execInviteRedeem :: "16 word" where [simp]: "W_execInviteRedeem = 15"
definition W_joinRequestCreate :: "16 word" where [simp]: "W_joinRequestCreate = 16"
definition W_joinRequestCancel :: "16 word" where [simp]: "W_joinRequestCancel = 17"
definition W_recruit :: "16 word" where [simp]: "W_recruit = 18"
definition W_getOwnAddr :: "16 word" where [simp]: "W_getOwnAddr = 19"
definition W_channelOpen :: "16 word" where [simp]: "W_channelOpen = 20"
definition W_channelSend :: "16 word" where [simp]: "W_channelSend = 21"
definition W_channelPoll :: "16 word" where [simp]: "W_channelPoll = 22"
definition W_channelListen :: "16 word" where [simp]: "W_channelListen = 23"
definition W_channelClose :: "16 word" where [simp]: "W_channelClose = 24"
definition W_channelCloseWrite :: "16 word" where [simp]: "W_channelCloseWrite = 25"
definition W_channelDataReady :: "16 word" where [simp]: "W_channelDataReady = 26"
definition W_kick :: "16 word" where [simp]: "W_kick = 27"
definition W_txn :: "16 word" where [simp]: "W_txn = 28"
definition W_getVersion :: "16 word" where [simp]: "W_getVersion = 29"
definition W_publicAccess :: "16 word" where [simp]: "W_publicAccess = 30"
definition W_execTicket :: "16 word" where [simp]: "W_execTicket = 31"
definition W_joinTicket :: "16 word" where [simp]: "W_joinTicket = 32"
definition W_joinRequestTicket :: "16 word" where [simp]: "W_joinRequestTicket = 33"
definition W_dialSubmitCommand :: "16 word" where [simp]: "W_dialSubmitCommand = 34"
definition W_dialQueryCommandLog :: "16 word" where [simp]: "W_dialQueryCommandLog = 35"
definition W_error :: "16 word" where [simp]: "W_error = 36"
definition W_groupPut :: "16 word" where [simp]: "W_groupPut = 37"
definition W_groupDelete :: "16 word" where [simp]: "W_groupDelete = 38"
definition W_commandPut :: "16 word" where [simp]: "W_commandPut = 39"
definition W_commandDelete :: "16 word" where [simp]: "W_commandDelete = 40"
definition W_stationPut :: "16 word" where [simp]: "W_stationPut = 41"
definition W_stationDelete :: "16 word" where [simp]: "W_stationDelete = 42"
definition W_groupCommandPut :: "16 word" where [simp]: "W_groupCommandPut = 43"
definition W_groupCommandDelete :: "16 word" where [simp]: "W_groupCommandDelete = 44"
definition W_peerGroupPut :: "16 word" where [simp]: "W_peerGroupPut = 45"
definition W_peerGroupDelete :: "16 word" where [simp]: "W_peerGroupDelete = 46"
definition W_permitRequest :: "16 word" where [simp]: "W_permitRequest = 47"
definition W_permitConfirm :: "16 word" where [simp]: "W_permitConfirm = 48"
definition W_permitRevoke :: "16 word" where [simp]: "W_permitRevoke = 49"
definition W_joinInviteCreate :: "16 word" where [simp]: "W_joinInviteCreate = 50"
definition W_joinInviteRevoke :: "16 word" where [simp]: "W_joinInviteRevoke = 51"
definition W_execInviteCreate :: "16 word" where [simp]: "W_execInviteCreate = 52"
definition W_execInviteRevoke :: "16 word" where [simp]: "W_execInviteRevoke = 53"

fun Which :: "event \<Rightarrow> 16 word" where
  "Which (Ev_setKey _) = W_setKey"
| "Which (Ev_setField _ _) = W_setField"
| "Which (Ev_getKey _ _) = W_getKey"
| "Which (Ev_getFieldByRegistry _ _) = W_getFieldByRegistry"
| "Which (Ev_getFieldByKey _ _) = W_getFieldByKey"
| "Which (Ev_getPublicKey _) = W_getPublicKey"
| "Which (Ev_getPrivateKey _) = W_getPrivateKey"
| "Which (Ev_bootstrapOrJoinCluster _) = W_bootstrapOrJoinCluster"
| "Which (Ev_addLearner _ _) = W_addLearner"
| "Which (Ev_set _ _) = W_set"
| "Which (Ev_execute _ _ _ _) = W_execute"
| "Which (Ev_pollExecute _ _) = W_pollExecute"
| "Which (Ev_listRange _ _ _ _) = W_listRange"
| "Which (Ev_logAppend _ _) = W_logAppend"
| "Which Ev_leave = W_leave"
| "Which (Ev_execInviteRedeem _ _ _ _) = W_execInviteRedeem"
| "Which (Ev_joinRequestCreate _) = W_joinRequestCreate"
| "Which (Ev_joinRequestCancel _) = W_joinRequestCancel"
| "Which (Ev_recruit _ _) = W_recruit"
| "Which (Ev_getOwnAddr _) = W_getOwnAddr"
| "Which (Ev_channelOpen _ _) = W_channelOpen"
| "Which (Ev_channelSend _ _ _) = W_channelSend"
| "Which (Ev_channelPoll _ _ _ _) = W_channelPoll"
| "Which (Ev_channelListen _ _) = W_channelListen"
| "Which (Ev_channelClose _) = W_channelClose"
| "Which (Ev_channelCloseWrite _) = W_channelCloseWrite"
| "Which (Ev_channelDataReady _) = W_channelDataReady"
| "Which (Ev_kick _) = W_kick"
| "Which (Ev_txn _) = W_txn"
| "Which (Ev_getVersion _ _ _ _ _) = W_getVersion"
| "Which (Ev_publicAccess _ _ _) = W_publicAccess"
| "Which (Ev_execTicket _ _) = W_execTicket"
| "Which (Ev_joinTicket _ _) = W_joinTicket"
| "Which (Ev_joinRequestTicket _ _) = W_joinRequestTicket"
| "Which (Ev_dialSubmitCommand _ _ _ _ _) = W_dialSubmitCommand"
| "Which (Ev_dialQueryCommandLog _ _ _ _ _ _) = W_dialQueryCommandLog"
| "Which (Ev_error _) = W_error"
| "Which (Ev_groupPut _ _ _) = W_groupPut"
| "Which (Ev_groupDelete _) = W_groupDelete"
| "Which (Ev_commandPut _ _ _ _) = W_commandPut"
| "Which (Ev_commandDelete _) = W_commandDelete"
| "Which (Ev_stationPut _ _ _) = W_stationPut"
| "Which (Ev_stationDelete _) = W_stationDelete"
| "Which (Ev_groupCommandPut _ _) = W_groupCommandPut"
| "Which (Ev_groupCommandDelete _ _) = W_groupCommandDelete"
| "Which (Ev_peerGroupPut _ _) = W_peerGroupPut"
| "Which (Ev_peerGroupDelete _ _) = W_peerGroupDelete"
| "Which (Ev_permitRequest _ _ _) = W_permitRequest"
| "Which (Ev_permitConfirm _ _) = W_permitConfirm"
| "Which (Ev_permitRevoke _ _) = W_permitRevoke"
| "Which (Ev_joinInviteCreate _ _) = W_joinInviteCreate"
| "Which (Ev_joinInviteRevoke _) = W_joinInviteRevoke"
| "Which (Ev_execInviteCreate _ _ _ _) = W_execInviteCreate"
| "Which (Ev_execInviteRevoke _) = W_execInviteRevoke"
| "Which (Ev_other w) = w"

text \<open>The cases of the switch in \<^verbatim>\<open>EventName\<close> and, written out a second time in the source, those of \<^verbatim>\<open>EventFromName\<close>.\<close>

definition eventNameCases :: "(16 word \<times> string) list" where
  "eventNameCases = [
     (W_setKey, ''set_key''), (W_setField, ''set_field''), (W_getKey, ''get_key''),
     (W_getFieldByRegistry, ''get_field_by_registry''), (W_getFieldByKey, ''get_field_by_key''),
     (W_getPublicKey, ''get_public_key''), (W_getPrivateKey, ''get_private_key''),
     (W_bootstrapOrJoinCluster, ''bootstrap_or_join_cluster''), (W_addLearner, ''add_learner''),
     (W_set, ''set''), (W_execute, ''execute''), (W_pollExecute, ''poll_execute''),
     (W_listRange, ''list_range''), (W_logAppend, ''log_append''), (W_leave, ''leave''),
     (W_execInviteRedeem, ''exec_invite_redeem''), (W_joinRequestCreate, ''join_request_create''),
     (W_joinRequestCancel, ''join_request_cancel''), (W_recruit, ''recruit''),
     (W_getOwnAddr, ''get_own_addr''), (W_channelOpen, ''channel_open''),
     (W_channelSend, ''channel_send''), (W_channelPoll, ''channel_poll''),
     (W_channelListen, ''channel_listen''), (W_channelClose, ''channel_close''),
     (W_channelCloseWrite, ''channel_close_write''), (W_channelDataReady, ''channel_data_ready''),
     (W_kick, ''kick''), (W_txn, ''txn''), (W_getVersion, ''get_version''),
     (W_publicAccess, ''public_access''), (W_execTicket, ''exec_ticket''), (W_joinTicket, ''join_ticket''),
     (W_joinRequestTicket, ''join_request_ticket''), (W_dialSubmitCommand, ''dial_submit_command''),
     (W_dialQueryCommandLog, ''dial_query_command_log''), (W_error, ''error''),
     (W_groupPut, ''group_put''), (W_groupDelete, ''group_delete''), (W_commandPut, ''command_put''),
     (W_commandDelete, ''command_delete''), (W_stationPut, ''station_put''),
     (W_stationDelete, ''station_delete''), (W_groupCommandPut, ''group_command_put''),
     (W_groupCommandDelete, ''group_command_delete''), (W_peerGroupPut, ''peer_group_put''),
     (W_peerGroupDelete, ''peer_group_delete''), (W_permitRequest, ''permit_request''),
     (W_permitConfirm, ''permit_confirm''), (W_permitRevoke, ''permit_revoke''),
     (W_joinInviteCreate, ''join_invite_create''), (W_joinInviteRevoke, ''join_invite_revoke''),
     (W_execInviteCreate, ''exec_invite_create''), (W_execInviteRevoke, ''exec_invite_revoke'')]"

definition eventFromNameCases :: "(string \<times> 16 word) list" where
  "eventFromNameCases = [
     (''set_key'', W_setKey), (''set_field'', W_setField), (''get_key'', W_getKey),
     (''get_field_by_registry'', W_getFieldByRegistry), (''get_field_by_key'', W_getFieldByKey),
     (''get_public_key'', W_getPublicKey), (''get_private_key'', W_getPrivateKey),
     (''bootstrap_or_join_cluster'', W_bootstrapOrJoinCluster), (''add_learner'', W_addLearner),
     (''set'', W_set), (''execute'', W_execute), (''poll_execute'', W_pollExecute),
     (''list_range'', W_listRange), (''log_append'', W_logAppend), (''leave'', W_leave),
     (''exec_invite_redeem'', W_execInviteRedeem), (''join_request_create'', W_joinRequestCreate),
     (''join_request_cancel'', W_joinRequestCancel), (''recruit'', W_recruit),
     (''get_own_addr'', W_getOwnAddr), (''channel_open'', W_channelOpen),
     (''channel_send'', W_channelSend), (''channel_poll'', W_channelPoll),
     (''channel_listen'', W_channelListen), (''channel_close'', W_channelClose),
     (''channel_close_write'', W_channelCloseWrite), (''channel_data_ready'', W_channelDataReady),
     (''kick'', W_kick), (''txn'', W_txn), (''get_version'', W_getVersion),
     (''public_access'', W_publicAccess), (''exec_ticket'', W_execTicket), (''join_ticket'', W_joinTicket),
     (''join_request_ticket'', W_joinRequestTicket), (''dial_submit_command'', W_dialSubmitCommand),
     (''dial_query_command_log'', W_dialQueryCommandLog), (''error'', W_error),
     (''group_put'', W_groupPut), (''group_delete'', W_groupDelete), (''command_put'', W_commandPut),
     (''command_delete'', W_commandDelete), (''station_put'', W_stationPut),
     (''station_delete'', W_stationDelete), (''group_command_put'', W_groupCommandPut),
     (''group_command_delete'', W_groupCommandDelete), (''peer_group_put'', W_peerGroupPut),
     (''peer_group_delete'', W_peerGroupDelete), (''permit_request'', W_permitRequest),
     (''permit_confirm'', W_permitConfirm), (''permit_revoke'', W_permitRevoke),
     (''join_invite_create'', W_joinInviteCreate), (''join_invite_revoke'', W_joinInviteRevoke),
     (''exec_invite_create'', W_execInviteCreate), (''exec_invite_revoke'', W_execInviteRevoke)]"

definition EventName :: "16 word \<Rightarrow> gostring" where
  "EventName w = (case map_of eventNameCases w of
      Some name \<Rightarrow> str name
    | None \<Rightarrow> str ''unknown('' @ fmt_d (unat w) @ str '')'')"

fun switchName :: "gostring \<Rightarrow> (string \<times> 'a) list \<Rightarrow> 'a option" where
  "switchName name [] = None"
| "switchName name ((s, w) # cases) = (if name = str s then Some w else switchName name cases)"

definition EventFromName :: "gostring \<Rightarrow> 16 word option" where
  "EventFromName name = switchName name eventFromNameCases"

subsection \<open>Messages and their constructors\<close>

record msg =
  msgId :: "16 word"
  msgCrc32 :: "32 word"
  msgSignature :: ptr
  msgEvent :: event

definition new_msg :: "event \<Rightarrow> msg" where
  "new_msg ev = \<lparr>msgId = 0, msgCrc32 = 0, msgSignature = Inr [], msgEvent = ev\<rparr>"

definition MaxValueSize :: nat where "MaxValueSize = 8 * 2 ^ 20"

definition checkValueLen :: "nat \<Rightarrow> unit res" where
  "checkValueLen n = (if n > MaxValueSize then Inl (Errorf ''shmevent: value %d bytes exceeds MaxValueSize %d'') else Inr ())"

definition checkValueSize :: "bytes \<Rightarrow> unit res" where
  "checkValueSize value = checkValueLen (length value)"

definition checkValueSizeStr :: "gostring \<Rightarrow> unit res" where
  "checkValueSizeStr value = checkValueLen (length value)"

text \<open>
  \<open>build\<close> stands for the Cap'n Proto library: allocating a message, selecting a variant and
  setting its fields, any of which may fail. A field no setter is called for reads back empty.
\<close>

type_synonym builder = "event \<Rightarrow> msg res"

definition checkTokenSize :: "nat \<Rightarrow> string \<Rightarrow> bytes \<Rightarrow> unit res" where
  "checkTokenSize n message token = (if length token \<noteq> n then Inl (Errorf message) else Inr ())"

definition NewSetKey :: "builder \<Rightarrow> bytes \<Rightarrow> msg res" where
  "NewSetKey build v = bind_res (checkValueSize v) (\<lambda>_. build (Ev_setKey (Inr v)))"

definition NewSetField :: "builder \<Rightarrow> 16 word \<Rightarrow> bytes \<Rightarrow> msg res" where
  "NewSetField build i v = bind_res (checkValueSize v) (\<lambda>_. build (Ev_setField i (Inr v)))"

definition NewGetKey :: "builder \<Rightarrow> 16 word \<Rightarrow> msg res" where
  "NewGetKey build i = build (Ev_getKey i (Inr []))"

definition NewGetFieldByRegistry :: "builder \<Rightarrow> 16 word \<Rightarrow> msg res" where
  "NewGetFieldByRegistry build i = build (Ev_getFieldByRegistry i (Inr []))"

definition NewGetFieldByKey :: "builder \<Rightarrow> bytes \<Rightarrow> msg res" where
  "NewGetFieldByKey build k = build (Ev_getFieldByKey (Inr k) (Inr []))"

definition NewGetPublicKey :: "builder \<Rightarrow> msg res" where
  "NewGetPublicKey build = build (Ev_getPublicKey (Inr []))"

definition NewGetPrivateKey :: "builder \<Rightarrow> msg res" where
  "NewGetPrivateKey build = build (Ev_getPrivateKey (Inr []))"

definition NewBootstrapOrJoinCluster :: "builder \<Rightarrow> gostring \<Rightarrow> msg res" where
  "NewBootstrapOrJoinCluster build a = build (Ev_bootstrapOrJoinCluster (Inr a))"

definition NewAddLearner :: "builder \<Rightarrow> 16 word \<Rightarrow> gostring \<Rightarrow> msg res" where
  "NewAddLearner build i a = build (Ev_addLearner i (Inr a))"

definition NewSet :: "builder \<Rightarrow> bytes \<Rightarrow> bytes \<Rightarrow> msg res" where
  "NewSet build k v = bind_res (checkValueSize v) (\<lambda>_. build (Ev_set (Inr k) (Inr v)))"

definition NewExecute :: "builder \<Rightarrow> 16 word \<Rightarrow> 16 word \<Rightarrow> bytes \<Rightarrow> msg res" where
  "NewExecute build i j v = bind_res (checkValueSize v) (\<lambda>_. build (Ev_execute i j (Inr []) (Inr v)))"

definition NewExecuteNotification :: "builder \<Rightarrow> gostring \<Rightarrow> bytes \<Rightarrow> msg res" where
  "NewExecuteNotification build p v = bind_res (checkValueSize v) (\<lambda>_. build (Ev_execute 0 0 (Inr p) (Inr v)))"

definition NewChannelOpenHandshake :: "builder \<Rightarrow> gostring \<Rightarrow> msg res" where
  "NewChannelOpenHandshake build p = build (Ev_channelOpen (Inr []) (Inr p))"

definition NewPollExecute :: "builder \<Rightarrow> msg res" where
  "NewPollExecute build = build (Ev_pollExecute (Inr []) (Inr []))"

definition NewListRange :: "builder \<Rightarrow> bytes \<Rightarrow> bytes \<Rightarrow> msg res" where
  "NewListRange build lo hi = build (Ev_listRange (Inr lo) (Inr hi) (Inr []) (Inr []))"

definition NewLogAppend :: "builder \<Rightarrow> bytes \<Rightarrow> bytes \<Rightarrow> msg res" where
  "NewLogAppend build k v = bind_res (checkValueSize v) (\<lambda>_. build (Ev_logAppend (Inr k) (Inr v)))"

definition NewLeave :: "builder \<Rightarrow> msg res" where
  "NewLeave build = build Ev_leave"

definition NewKick :: "builder \<Rightarrow> gostring \<Rightarrow> msg res" where
  "NewKick build p = build (Ev_kick (Inr p))"

definition NewGetOwnAddr :: "builder \<Rightarrow> msg res" where
  "NewGetOwnAddr build = build (Ev_getOwnAddr (Inr []))"

definition NewGetVersion :: "builder \<Rightarrow> msg res" where
  "NewGetVersion build = build (Ev_getVersion (Inr []) False (Inr []) (Inr []) (Inr []))"

definition NewError :: "builder \<Rightarrow> gostring \<Rightarrow> msg res" where
  "NewError build t = build (Ev_error (Inr t))"

definition NewGroupPut :: "builder \<Rightarrow> gostring \<Rightarrow> gostring \<Rightarrow> bool \<Rightarrow> msg res" where
  "NewGroupPut build i name pub = build (Ev_groupPut (Inr i) (Inr name) pub)"

definition NewGroupDelete :: "builder \<Rightarrow> gostring \<Rightarrow> msg res" where
  "NewGroupDelete build i = build (Ev_groupDelete (Inr i))"

definition NewCommandPut :: "builder \<Rightarrow> gostring \<Rightarrow> gostring \<Rightarrow> gostring \<Rightarrow> msg res" where
  "NewCommandPut build i name p = build (Ev_commandPut (Inr i) (Inr name) (Inr p) None)"

definition NewCommandPutWithSpec :: "builder \<Rightarrow> gostring \<Rightarrow> gostring \<Rightarrow> gostring \<Rightarrow> gostring \<Rightarrow> msg res" where
  "NewCommandPutWithSpec build i name p spec = bind_res (checkValueSizeStr spec) (\<lambda>_. build (Ev_commandPut (Inr i) (Inr name) (Inr p) (Some (Inr spec))))"

definition NewCommandDelete :: "builder \<Rightarrow> gostring \<Rightarrow> msg res" where
  "NewCommandDelete build i = build (Ev_commandDelete (Inr i))"

definition NewStationPut :: "builder \<Rightarrow> gostring \<Rightarrow> gostring \<Rightarrow> gostring \<Rightarrow> msg res" where
  "NewStationPut build p name attrs = bind_res (checkValueSizeStr attrs) (\<lambda>_. build (Ev_stationPut (Inr p) (Inr name) (Inr attrs)))"

definition NewStationDelete :: "builder \<Rightarrow> gostring \<Rightarrow> msg res" where
  "NewStationDelete build p = build (Ev_stationDelete (Inr p))"

definition NewGroupCommandPut :: "builder \<Rightarrow> gostring \<Rightarrow> gostring \<Rightarrow> msg res" where
  "NewGroupCommandPut build c g = build (Ev_groupCommandPut (Inr c) (Inr g))"

definition NewGroupCommandDelete :: "builder \<Rightarrow> gostring \<Rightarrow> gostring \<Rightarrow> msg res" where
  "NewGroupCommandDelete build c g = build (Ev_groupCommandDelete (Inr c) (Inr g))"

definition NewPeerGroupPut :: "builder \<Rightarrow> gostring \<Rightarrow> gostring \<Rightarrow> msg res" where
  "NewPeerGroupPut build p g = build (Ev_peerGroupPut (Inr p) (Inr g))"

definition NewPeerGroupDelete :: "builder \<Rightarrow> gostring \<Rightarrow> gostring \<Rightarrow> msg res" where
  "NewPeerGroupDelete build p g = build (Ev_peerGroupDelete (Inr p) (Inr g))"

definition NewPermitRequest :: "builder \<Rightarrow> byte \<Rightarrow> gostring \<Rightarrow> gostring \<Rightarrow> msg res" where
  "NewPermitRequest build k p meta = build (Ev_permitRequest k (Inr p) (Inr meta))"

definition NewPermitConfirm :: "builder \<Rightarrow> byte \<Rightarrow> gostring \<Rightarrow> msg res" where
  "NewPermitConfirm build k p = build (Ev_permitConfirm k (Inr p))"

definition NewPermitRevoke :: "builder \<Rightarrow> byte \<Rightarrow> gostring \<Rightarrow> msg res" where
  "NewPermitRevoke build k p = build (Ev_permitRevoke k (Inr p))"

definition NewJoinInviteCreate :: "builder \<Rightarrow> bytes \<Rightarrow> byte \<Rightarrow> msg res" where
  "NewJoinInviteCreate build tok sf = bind_res (checkTokenSize JoinInviteTokenSize ''shmevent: join invite token must be %d bytes, got %d'' tok) (\<lambda>_. build (Ev_joinInviteCreate (Inr tok) sf))"

definition NewJoinInviteRevoke :: "builder \<Rightarrow> bytes \<Rightarrow> msg res" where
  "NewJoinInviteRevoke build tok = build (Ev_joinInviteRevoke (Inr tok))"

definition NewJoinTicket :: "builder \<Rightarrow> gostring \<Rightarrow> bytes \<Rightarrow> msg res" where
  "NewJoinTicket build a tok = build (Ev_joinTicket (Inr a) (Inr tok))"

definition NewExecInviteCreate :: "builder \<Rightarrow> bytes \<Rightarrow> gostring \<Rightarrow> gostring \<Rightarrow> 64 word \<Rightarrow> msg res" where
  "NewExecInviteCreate build tok c inputs ttl = bind_res (checkTokenSize ExecInviteTokenSize ''shmevent: exec invite token must be %d bytes, got %d'' tok) (\<lambda>_. build (Ev_execInviteCreate (Inr tok) (Inr c) (Inr inputs) ttl))"

definition NewExecInviteRevoke :: "builder \<Rightarrow> bytes \<Rightarrow> msg res" where
  "NewExecInviteRevoke build tok = build (Ev_execInviteRevoke (Inr tok))"

definition NewExecInviteRedeem :: "builder \<Rightarrow> gostring \<Rightarrow> bytes \<Rightarrow> msg res" where
  "NewExecInviteRedeem build a tok = bind_res (checkTokenSize ExecInviteTokenSize ''shmevent: exec invite token must be %d bytes, got %d'' tok) (\<lambda>_. build (Ev_execInviteRedeem (Inr a) (Inr tok) (Inr []) (Inr [])))"

definition NewExecInviteRedeemNotification :: "builder \<Rightarrow> gostring \<Rightarrow> bytes \<Rightarrow> msg res" where
  "NewExecInviteRedeemNotification build p tok = bind_res (checkTokenSize ExecInviteTokenSize ''shmevent: exec invite token must be %d bytes, got %d'' tok) (\<lambda>_. build (Ev_execInviteRedeem (Inr []) (Inr tok) (Inr []) (Inr p)))"

definition NewExecTicket :: "builder \<Rightarrow> gostring \<Rightarrow> bytes \<Rightarrow> msg res" where
  "NewExecTicket build a tok = bind_res (checkTokenSize ExecInviteTokenSize ''shmevent: exec invite token must be %d bytes, got %d'' tok) (\<lambda>_. build (Ev_execTicket (Inr a) (Inr tok)))"

definition NewJoinRequestCreate :: "builder \<Rightarrow> msg res" where
  "NewJoinRequestCreate build = build (Ev_joinRequestCreate (Inr []))"

definition NewJoinRequestCancel :: "builder \<Rightarrow> bytes \<Rightarrow> msg res" where
  "NewJoinRequestCancel build tok = bind_res (checkTokenSize JoinInviteTokenSize ''shmevent: join request token must be %d bytes, got %d'' tok) (\<lambda>_. build (Ev_joinRequestCancel (Inr tok)))"

definition NewRecruit :: "builder \<Rightarrow> gostring \<Rightarrow> byte \<Rightarrow> msg res" where
  "NewRecruit build t sf = build (Ev_recruit (Inr t) sf)"

definition NewJoinRequestTicket :: "builder \<Rightarrow> gostring \<Rightarrow> bytes \<Rightarrow> msg res" where
  "NewJoinRequestTicket build a tok = build (Ev_joinRequestTicket (Inr a) (Inr tok))"

definition NewPublicAccess :: "builder \<Rightarrow> gostring \<Rightarrow> gostring \<Rightarrow> msg res" where
  "NewPublicAccess build p note = build (Ev_publicAccess (Inr p) (Inr note) (Inr []))"

definition NewDialSubmitCommand :: "builder \<Rightarrow> gostring \<Rightarrow> gostring \<Rightarrow> gostring \<Rightarrow> gostring \<Rightarrow> msg res" where
  "NewDialSubmitCommand build p c inputs note = build (Ev_dialSubmitCommand (Inr p) (Inr c) (Inr inputs) (Inr note) (Inr []))"

definition NewDialQueryCommandLog :: "builder \<Rightarrow> gostring \<Rightarrow> gostring \<Rightarrow> int \<Rightarrow> int \<Rightarrow> int \<Rightarrow> msg res" where
  "NewDialQueryCommandLog build p i since until limit = build (Ev_dialQueryCommandLog (Inr p) (Inr i) since until (sint (word_of_int limit :: 32 word)) (Inr []))"

definition NewChannelOpen :: "builder \<Rightarrow> gostring \<Rightarrow> msg res" where
  "NewChannelOpen build p = build (Ev_channelOpen (Inr p) (Inr []))"

definition NewChannelSend :: "builder \<Rightarrow> gostring \<Rightarrow> byte \<Rightarrow> bytes \<Rightarrow> msg res" where
  "NewChannelSend build i purpose chunk = bind_res (checkValueSize chunk) (\<lambda>_. build (Ev_channelSend (Inr i) purpose (Inr chunk)))"

definition NewChannelPoll :: "builder \<Rightarrow> gostring \<Rightarrow> msg res" where
  "NewChannelPoll build i = build (Ev_channelPoll (Inr i) 0 0 (Inr []))"

definition NewChannelListen :: "builder \<Rightarrow> msg res" where
  "NewChannelListen build = build (Ev_channelListen (Inr []) (Inr []))"

definition NewChannelClose :: "builder \<Rightarrow> gostring \<Rightarrow> msg res" where
  "NewChannelClose build i = build (Ev_channelClose (Inr i))"

definition NewChannelCloseWrite :: "builder \<Rightarrow> gostring \<Rightarrow> msg res" where
  "NewChannelCloseWrite build i = build (Ev_channelCloseWrite (Inr i))"

definition NewChannelDataReady :: "builder \<Rightarrow> gostring \<Rightarrow> msg res" where
  "NewChannelDataReady build i = build (Ev_channelDataReady (Inr i))"

fun checkNewTxnOps :: "TxnOpSpec list \<Rightarrow> unit res" where
  "checkNewTxnOps [] = Inr ()"
| "checkNewTxnOps (op # ops) =
     (if length (Key op) = 0 then Inl (Errorf ''shmevent: txn op has an empty key'')
      else if \<not> ValidTxnOp (Op op) then Inl (Errorf ''shmevent: txn op has unknown kind %d'')
      else bind_res (checkValueSize (Value op)) (\<lambda>_. checkNewTxnOps ops))"

definition NewTxn :: "builder \<Rightarrow> TxnOpSpec list \<Rightarrow> msg res" where
  "NewTxn build ops = (if length ops > 0xFFFF then Inl (Errorf ''shmevent: txn has too many ops: %d'')
     else bind_res (checkNewTxnOps ops) (\<lambda>_. build (Ev_txn (Inr ops))))"

record VersionInfo =
  Commit :: gostring
  Dirty :: bool
  BuildTime :: gostring
  GoVersion :: gostring
  Libp2pVersion :: gostring

definition NewGetVersionResponse :: "builder \<Rightarrow> VersionInfo \<Rightarrow> msg res" where
  "NewGetVersionResponse build v =
     build (Ev_getVersion (Inr (Commit v)) (Dirty v) (Inr (BuildTime v)) (Inr (GoVersion v)) (Inr (Libp2pVersion v)))"

subsection \<open>Properties\<close>

lemma switchName_Some: "switchName name cases = Some w \<Longrightarrow> \<exists>s. (s, w) \<in> set cases \<and> name = str s"
  by (induction cases) (auto split: if_splits)

lemma switchName_None: "list_all (\<lambda>(s, w). name \<noteq> str s) cases \<Longrightarrow> switchName name cases = None"
  by (induction cases) auto

lemma switchName_distinct:
  "distinct (map fst cases) \<Longrightarrow> (s, w) \<in> set cases \<Longrightarrow> switchName (str s) cases = Some w"
  by (induction cases) force+

lemma tables_agree: "eventFromNameCases = map (\<lambda>(w, name). (name, w)) eventNameCases"
  by (simp add: eventNameCases_def eventFromNameCases_def)

lemma wire_numbers: "map (unat \<circ> fst) eventNameCases = [0..<54]"
  by (simp add: eventNameCases_def upt_rec)

lemma distinct_names: "distinct (map snd eventNameCases)"
  by code_simp

lemma no_unknown_name: "list_all (\<lambda>name. take 8 name \<noteq> ''unknown('') (map snd eventNameCases)"
  by (simp add: eventNameCases_def)

lemma distinct_wire_numbers: "distinct (map fst eventNameCases)"
proof -
  have "distinct (map unat (map fst eventNameCases))" using wire_numbers by (simp add: distinct_upt)
  then show ?thesis by (simp only: distinct_map)
qed

lemma map_of_wire_number: "map_of eventNameCases w \<noteq> None \<longleftrightarrow> unat w < 54"
proof -
  have "map_of eventNameCases w \<noteq> None \<longleftrightarrow> w \<in> fst ` set eventNameCases" by (simp add: map_of_eq_None_iff)
  also have "\<dots> \<longleftrightarrow> unat w \<in> set (map (unat \<circ> fst) eventNameCases)" by (force simp: word_unat_eq_iff)
  finally show ?thesis unfolding wire_numbers by simp
qed

lemma from_name_iff: "EventFromName (str s) = Some w \<longleftrightarrow> map_of eventNameCases w = Some s"
proof -
  have d: "distinct (map fst eventFromNameCases)" using distinct_names by (simp add: tables_agree o_def case_prod_beta)
  have "EventFromName (str s) = Some w \<longleftrightarrow> (s, w) \<in> set eventFromNameCases"
    unfolding EventFromName_def using switchName_distinct [OF d] switchName_Some [of "str s" eventFromNameCases w] by auto
  also have "\<dots> \<longleftrightarrow> (w, s) \<in> set eventNameCases" by (force simp: tables_agree)
  finally show ?thesis using distinct_wire_numbers by simp
qed

text \<open>
  The two hand-written name tables invert each other: every one of the 54 wire numbers
  has a name that parses back to it, every name that parses is that number's name, and the
  placeholder printed for any other number never parses.
\<close>

theorem event_names_round_trip:
  "EventFromName (EventName w) = (if unat w < 54 then Some w else None) \<and>
   (EventFromName name = Some v \<longrightarrow> EventName v = name)"
proof (intro conjI impI)
  show "EventFromName (EventName w) = (if unat w < 54 then Some w else None)"
  proof (cases "map_of eventNameCases w")
    case None
    have "str ''unknown('' @ fmt_d (unat w) @ str '')'' \<noteq> str s" if "(v, s) \<in> set eventNameCases" for s v
    proof
      assume "str ''unknown('' @ fmt_d (unat w) @ str '')'' = str s"
      with str_not_unknown obtain t where "s = ''unknown('' @ t" by metis
      then have "take 8 s = ''unknown(''" by simp
      with that no_unknown_name show False by (auto simp: list_all_iff)
    qed
    then have "switchName (str ''unknown('' @ fmt_d (unat w) @ str '')'') eventFromNameCases = None"
      by (intro switchName_None) (auto simp: list_all_iff tables_agree)
    then have "EventFromName (EventName w) = None"
      unfolding EventFromName_def EventName_def None by simp
    with None map_of_wire_number [of w] show ?thesis by simp
  next
    case (Some n)
    with map_of_wire_number [of w] from_name_iff [of n w] show ?thesis by (simp add: EventName_def)
  qed
next
  assume n: "EventFromName name = Some v"
  then obtain s where "name = str s" unfolding EventFromName_def using switchName_Some [of name eventFromNameCases v] by blast
  with n from_name_iff [of s v] show "EventName v = name" by (simp add: EventName_def)
qed

theorem event_names_round_trip_witness:
  "EventFromName (EventName W_kick) = Some W_kick \<and> EventName 27 = str ''kick''"
  using event_names_round_trip [of W_kick "str ''kick''" W_kick]
  by (simp add: EventFromName_def eventFromNameCases_def)

text \<open>
  A client can build a transaction the node will refuse: the constructor allows values up
  to 8 MB, the replicated payload only 65535 bytes.
\<close>

theorem txn_built_then_refused:
  assumes "\<And>ev. build ev = Inr (new_msg ev)"
  shows "\<exists>ops. NewTxn build ops = Inr (new_msg (Ev_txn (Inr ops))) \<and> isl (EncodeTxnPayload ops)"
proof -
  let ?op = "\<lparr>Op = TxnOpSet, Key = [1], Value = replicate 65536 0\<rparr>"
  have "NewTxn build [?op] = Inr (new_msg (Ev_txn (Inr [?op])))"
    by (simp add: NewTxn_def assms checkValueSize_def checkValueLen_def MaxValueSize_def ValidTxnOp_def)
  moreover have "isl (EncodeTxnPayload [?op])"
    by (simp add: EncodeTxnPayload_def checkTxnOp_def)
  ultimately show ?thesis by blast
qed

theorem txn_built_then_refused_witness:
  "\<exists>ops. NewTxn (\<lambda>ev. Inr (new_msg ev)) ops = Inr (new_msg (Ev_txn (Inr ops))) \<and> isl (EncodeTxnPayload ops)"
  by (rule txn_built_then_refused) simp

end
