(* ===== verification/Shm_Sign.thy ===== *)
theory Shm_Sign
  imports Shm_Event
begin

text \<open>
  Integrity and authenticity of messages (src/pkg/shmevent/sign.go, event.go, channelframe.go,
  channel.go): the CRC-32 of Go's hash/crc32, signing and verifying an event, the envelope that
  goes over the wire, and the framing of channel chunks. Cap'n Proto and Ed25519 enter as
  parameters. The lemmas show that the checksum catches every corruption of a single byte, that
  an envelope decodes and verifies as what was encoded, and that frames round-trip.
\<close>

unbundle bit_operations_syntax

subsection \<open>CRC-32 (IEEE)\<close>

definition crc_bit :: "32 word \<Rightarrow> 32 word" where
  "crc_bit c = (if bit c 0 then drop_bit 1 c XOR 0xEDB88320 else drop_bit 1 c)"

definition crc_byte :: "32 word \<Rightarrow> byte \<Rightarrow> 32 word" where
  "crc_byte c b = (crc_bit ^^ 8) (c XOR ucast b)"

definition ChecksumIEEE :: "bytes \<Rightarrow> 32 word" where
  "ChecksumIEEE bs = NOT (foldl crc_byte (NOT 0) bs)"

lemma crc_poly_bit [simp]: "bit (0xEDB88320 :: 32 word) 31"
  by (simp add: bit_iff_odd)

lemma crc_bit_31: "bit (crc_bit c) 31 \<longleftrightarrow> bit c 0"
proof -
  have "\<not> bit (drop_bit 1 c) 31" using bit_imp_le_length [of c 32] by (auto simp: bit_drop_bit_eq)
  then show ?thesis by (simp add: crc_bit_def bit_xor_iff)
qed

lemma crc_bit_inj: "crc_bit c = crc_bit d \<longleftrightarrow> c = d"
proof
  assume eq: "crc_bit c = crc_bit d"
  then have low: "bit c 0 \<longleftrightarrow> bit d 0" using crc_bit_31 [of c] crc_bit_31 [of d] by simp
  have "drop_bit 1 c = drop_bit 1 d"
  proof (cases "bit c 0")
    case True
    with eq low have "drop_bit 1 c XOR 0xEDB88320 = drop_bit 1 d XOR (0xEDB88320 :: 32 word)"
      by (simp add: crc_bit_def)
    then have "(drop_bit 1 c XOR 0xEDB88320) XOR 0xEDB88320 = (drop_bit 1 d XOR 0xEDB88320) XOR (0xEDB88320 :: 32 word)"
      by (rule arg_cong)
    then show ?thesis by (simp only: xor.assoc xor_self_eq xor.right_neutral)
  next
    case False
    with eq low show ?thesis by (simp add: crc_bit_def)
  qed
  then have "bit c (Suc n) \<longleftrightarrow> bit d (Suc n)" for n
    by (metis bit_drop_bit_eq comp_apply plus_1_eq_Suc)
  with low have "bit c n \<longleftrightarrow> bit d n" for n by (cases n) simp_all
  then show "c = d" by (simp add: bit_eq_iff)
qed simp

lemma crc_bits_inj: "(crc_bit ^^ k) c = (crc_bit ^^ k) d \<longleftrightarrow> c = d"
  by (induction k) (simp_all add: crc_bit_inj)

lemma xor_right_cancel: "a XOR c = b XOR c \<longleftrightarrow> a = (b :: 32 word)"
  by (metis xor.assoc xor_self_eq xor.right_neutral)

lemma ucast_byte_inj: "(ucast a :: 32 word) = ucast b \<longleftrightarrow> a = (b :: byte)"
proof
  assume eq: "(ucast a :: 32 word) = ucast b"
  show "a = b"
  proof (rule bit_word_eqI)
    fix n assume "n < LENGTH(8)"
    moreover have "bit (ucast a :: 32 word) n \<longleftrightarrow> bit (ucast b :: 32 word) n" using eq by simp
    ultimately show "bit a n \<longleftrightarrow> bit b n" by (simp add: bit_ucast_iff)
  qed
qed simp

lemma crc_byte_inj:
  "crc_byte c b = crc_byte d b \<longleftrightarrow> c = d"
  "crc_byte c a = crc_byte c b \<longleftrightarrow> a = b"
  by (simp_all add: crc_byte_def crc_bits_inj xor_right_cancel) (simp add: xor.commute [of c] xor_right_cancel ucast_byte_inj)

lemma crc_fold_inj: "foldl crc_byte c bs = foldl crc_byte d bs \<longleftrightarrow> c = d"
  by (induction bs arbitrary: c d) (simp_all add: crc_byte_inj)

lemma checksum_single_byte: "a \<noteq> b \<Longrightarrow> ChecksumIEEE (xs @ a # ys) \<noteq> ChecksumIEEE (xs @ b # ys)"
  by (simp add: ChecksumIEEE_def crc_fold_inj crc_byte_inj)

text \<open>The standard check value of this checksum, over the bytes of \<^verbatim>\<open>123456789\<close>.\<close>

lemma crc_bits_8: "crc_byte c b = crc_bit (crc_bit (crc_bit (crc_bit (crc_bit (crc_bit (crc_bit (crc_bit (c XOR ucast b))))))))"
  by (simp add: crc_byte_def eval_nat_numeral)

lemma checksum_check_value: "ChecksumIEEE [49, 50, 51, 52, 53, 54, 55, 56, 57] = 0xCBF43926"
  by (simp add: ChecksumIEEE_def crc_bits_8 crc_bit_def)

subsection \<open>Signing events\<close>

text \<open>
  What the code calls of Cap'n Proto and of crypto/ed25519. \<open>unmarshal\<close> includes reading the
  root and the writable copy; the private key is \<open>None\<close> for Go's nil.
\<close>

record wire =
  canonicalize :: "msg \<Rightarrow> bytes res"
  marshal :: "msg \<Rightarrow> bytes res"
  unmarshal :: "bytes \<Rightarrow> msg res"
  build :: builder
  ed25519_sign :: "bytes \<Rightarrow> bytes \<Rightarrow> bytes"
  ed25519_verify :: "bytes \<Rightarrow> bytes \<Rightarrow> bytes \<Rightarrow> bool"

definition SignatureSize :: nat where [simp]: "SignatureSize = 64"
definition PrivateKeySize :: nat where [simp]: "PrivateKeySize = 64"

definition marshalWithCrcAndEmptySig :: "wire \<Rightarrow> msg \<Rightarrow> 32 word \<Rightarrow> bytes res" where
  "marshalWithCrcAndEmptySig w m crc =
     bind_res (wrap_err ''shmevent: signature: %w'' (msgSignature m)) (\<lambda>_.
     wrap_err ''shmevent: canonicalize: %w'' (canonicalize w (m\<lparr>msgCrc32 := crc, msgSignature := Inr []\<rparr>)))"

definition crc32Of :: "wire \<Rightarrow> msg \<Rightarrow> 32 word res" where
  "crc32Of w m = bind_res (marshalWithCrcAndEmptySig w m 0) (\<lambda>raw. Inr (ChecksumIEEE raw))"

definition signedPayload :: "wire \<Rightarrow> msg \<Rightarrow> 32 word \<Rightarrow> bytes res" where
  "signedPayload w m crc = marshalWithCrcAndEmptySig w m crc"

definition Sign :: "wire \<Rightarrow> bytes option \<Rightarrow> msg \<Rightarrow> 32 word \<Rightarrow> bytes res" where
  "Sign w priv m crc = (case priv of
      None \<Rightarrow> if Which (msgEvent m) = W_getPublicKey \<or> Which (msgEvent m) = W_getPrivateKey
              then Inr (replicate SignatureSize 0)
              else Inl (Errorf ''shmevent: signing key required for event %s'')
    | Some k \<Rightarrow> if length k \<noteq> PrivateKeySize then Inl (Errorf ''shmevent: private key must be %d bytes, got %d'')
                else bind_res (signedPayload w m crc) (\<lambda>payload. Inr (ed25519_sign w k payload)))"

definition Verify :: "wire \<Rightarrow> bytes \<Rightarrow> msg \<Rightarrow> 32 word \<Rightarrow> bytes \<Rightarrow> unit res" where
  "Verify w pub m crc sig =
     (if length pub \<noteq> PublicKeySize then Inl (Errorf ''shmevent: public key must be %d bytes, got %d'')
      else if length sig \<noteq> SignatureSize then Inl (Errorf ''shmevent: signature must be %d bytes, got %d'')
      else bind_res (signedPayload w m crc) (\<lambda>payload.
        if \<not> ed25519_verify w pub payload sig
        then Inl (Errorf ''shmevent: signature verification failed for event %s (id %d)'')
        else Inr ()))"

definition RequiresSignature :: "16 word \<Rightarrow> bool" where
  "RequiresSignature w \<longleftrightarrow> w \<noteq> W_getPublicKey \<and> w \<noteq> W_getPrivateKey"

definition Encode :: "wire \<Rightarrow> msg \<Rightarrow> bytes option \<Rightarrow> bytes res" where
  "Encode w m priv =
     bind_res (wrap_err ''shmevent: crc32: %w'' (crc32Of w m)) (\<lambda>crc.
     bind_res (wrap_err ''shmevent: sign: %w'' (Sign w priv (m\<lparr>msgCrc32 := crc\<rparr>) crc)) (\<lambda>sig.
     marshal w (m\<lparr>msgCrc32 := crc, msgSignature := Inr sig\<rparr>)))"

definition Decode :: "wire \<Rightarrow> bytes \<Rightarrow> (msg \<times> 32 word \<times> bytes) res" where
  "Decode w buf =
     bind_res (wrap_err ''shmevent: unmarshal: %w'' (unmarshal w buf)) (\<lambda>root.
     bind_res (wrap_err ''shmevent: signature: %w'' (msgSignature root)) (\<lambda>sigBytes.
     bind_res (wrap_err ''shmevent: crc32: %w'' (crc32Of w root)) (\<lambda>gotCRC.
     if gotCRC \<noteq> msgCrc32 root then Inl (Errorf ''shmevent: crc32 mismatch: got %#x, message says %#x'')
     else Inr (root, msgCrc32 root, sigBytes))))"

subsection \<open>Channel frames\<close>

definition channelFrameSignedPayload :: "byte \<Rightarrow> bytes \<Rightarrow> 32 word \<Rightarrow> bytes" where
  "channelFrameSignedPayload purpose chunk crc = purpose # chunk @ be32 (unat crc)"

definition channelFrameCRC :: "byte \<Rightarrow> bytes \<Rightarrow> 32 word" where
  "channelFrameCRC purpose chunk = ChecksumIEEE (purpose # chunk)"

definition SignChannelChunk :: "wire \<Rightarrow> bytes \<Rightarrow> byte \<Rightarrow> bytes \<Rightarrow> (32 word \<times> bytes) res" where
  "SignChannelChunk w priv purpose chunk =
     (if length priv \<noteq> PrivateKeySize then Inl (Errorf ''shmevent: private key must be %d bytes, got %d'')
      else let crc = channelFrameCRC purpose chunk in
        Inr (crc, ed25519_sign w priv (channelFrameSignedPayload purpose chunk crc)))"

definition VerifyChannelChunk :: "wire \<Rightarrow> bytes \<Rightarrow> byte \<Rightarrow> bytes \<Rightarrow> 32 word \<Rightarrow> bytes \<Rightarrow> unit res" where
  "VerifyChannelChunk w pub purpose chunk crc sig =
     (if length pub \<noteq> PublicKeySize then Inl (Errorf ''shmevent: public key must be %d bytes, got %d'')
      else if length sig \<noteq> SignatureSize then Inl (Errorf ''shmevent: signature must be %d bytes, got %d'')
      else if channelFrameCRC purpose chunk \<noteq> crc then Inl (Errorf ''shmevent: channel frame crc mismatch'')
      else if \<not> ed25519_verify w pub (channelFrameSignedPayload purpose chunk crc) sig
      then Inl (Errorf ''shmevent: channel frame signature verification failed'')
      else Inr ())"

definition channelFrameHeaderSize :: nat where [simp]: "channelFrameHeaderSize = 1 + 4 + SignatureSize"

text \<open>\<^verbatim>\<open>copy\<close> into the 64-byte signature slot truncates a longer signature and leaves zeros after a shorter one.\<close>

definition EncodeChannelFrame :: "byte \<Rightarrow> 32 word \<Rightarrow> bytes \<Rightarrow> bytes \<Rightarrow> bytes" where
  "EncodeChannelFrame purpose crc sig chunk =
     purpose # be32 (unat crc) @ take SignatureSize (sig @ replicate SignatureSize 0) @ chunk"

definition DecodeChannelFrame :: "bytes \<Rightarrow> (byte \<times> 32 word \<times> bytes \<times> bytes) res" where
  "DecodeChannelFrame buf =
     (if length buf < channelFrameHeaderSize
      then Inl (Errorf ''shmevent: channel frame too short: %d bytes (need at least %d)'')
      else Inr (buf ! 0, word_of_nat (be_dec (slice 1 5 buf)), slice 5 channelFrameHeaderSize buf,
                drop channelFrameHeaderSize buf))"

definition ChannelPurposeData :: byte where [simp]: "ChannelPurposeData = 0"
definition ChannelPurposeControl :: byte where [simp]: "ChannelPurposeControl = 1"
definition ChannelPurposeVideo :: byte where [simp]: "ChannelPurposeVideo = 2"

definition ChannelPurposeName :: "byte \<Rightarrow> gostring" where
  "ChannelPurposeName p =
     (if p = ChannelPurposeData then str ''data''
      else if p = ChannelPurposeControl then str ''control''
      else if p = ChannelPurposeVideo then str ''video''
      else fmt_d (unat p))"

definition ChannelPurposeFromName :: "gostring \<Rightarrow> byte option" where
  "ChannelPurposeFromName name =
     (if name = [] \<or> name = str ''data'' then Some ChannelPurposeData
      else if name = str ''control'' then Some ChannelPurposeControl
      else if name = str ''video'' then Some ChannelPurposeVideo
      else (case ParseUint 8 name of None \<Rightarrow> None | Some n \<Rightarrow> Some (word_of_nat n)))"

lemma DecodeChannelFrame_Encode [codec_simps]:
  "length sig = SignatureSize \<Longrightarrow> DecodeChannelFrame (EncodeChannelFrame purpose crc sig chunk) = Inr (purpose, crc, sig, chunk)"
proof -
  assume l: "length sig = SignatureSize"
  let ?h = "be32 (unat crc)"
  have c: "unat crc < 4294967296" using unsigned_less [of crc, where ?'a = nat] by simp
  have e: "EncodeChannelFrame purpose crc sig chunk = (purpose # ?h) @ sig @ chunk"
    using l by (simp add: EncodeChannelFrame_def)
  have "slice 1 5 ((purpose # ?h) @ sig @ chunk) = ?h" by (simp add: slice_def)
  moreover have "slice 5 69 ((purpose # ?h) @ sig @ chunk) = sig" using l by (simp add: slice_def)
  moreover have "drop 69 ((purpose # ?h) @ sig @ chunk) = chunk" using l by simp
  ultimately show ?thesis using l c unfolding e by (simp add: DecodeChannelFrame_def)
qed

interpretation frame: codec "\<lambda>(purpose, crc, sig, chunk). Inr (EncodeChannelFrame purpose crc sig chunk)"
  DecodeChannelFrame "\<lambda>(purpose, crc, sig, chunk). length sig = SignatureSize"
  by unfold_locales (auto simp: codec_simps)

lemma purpose_name_round_trip: "ChannelPurposeFromName (ChannelPurposeName p) = Some p"
proof -
  have n: "fmt_d (unat p) \<noteq> str s" if "s \<noteq> []" "\<not> digit (of_char (hd s))" for s
    using that fmt_d_digits [of "unat p"] by (cases s) (auto simp: str_Cons)
  have "fmt_d (unat p) \<noteq> str ''data''" "fmt_d (unat p) \<noteq> str ''control''" "fmt_d (unat p) \<noteq> str ''video''"
    by (rule n; simp add: digit_def)+
  moreover have "unat p < 2 ^ 8" using unsigned_less [of p, where ?'a = nat] by simp
  moreover have "fmt_d (unat p) \<noteq> []" using fmt_d_digits by simp
  ultimately show ?thesis by (auto simp: ChannelPurposeFromName_def ChannelPurposeName_def)
qed

subsection \<open>Properties\<close>

text \<open>What the envelope relies on: an Ed25519 key pair, and that unmarshalling inverts marshalling.\<close>

definition key_pair :: "wire \<Rightarrow> bytes \<Rightarrow> bytes \<Rightarrow> bool" where
  "key_pair w priv pub \<longleftrightarrow> length priv = PrivateKeySize \<and> length pub = PublicKeySize \<and>
     (\<forall>payload. length (ed25519_sign w priv payload) = SignatureSize \<and>
        ed25519_verify w pub payload (ed25519_sign w priv payload))"

definition lossless :: "wire \<Rightarrow> bool" where
  "lossless w \<longleftrightarrow> (\<forall>m buf. marshal w m = Inr buf \<longrightarrow> unmarshal w buf = Inr m)"

lemma Decode_Encode:
  assumes "lossless w" "key_pair w priv pub" "Encode w m (Some priv) = Inr buf"
  shows "\<exists>crc sig. Decode w buf = Inr (m\<lparr>msgCrc32 := crc, msgSignature := Inr sig\<rparr>, crc, sig) \<and>
    Verify w pub (m\<lparr>msgCrc32 := crc, msgSignature := Inr sig\<rparr>) crc sig = Inr ()"
proof -
  let ?z = "m\<lparr>msgCrc32 := 0, msgSignature := Inr []\<rparr>"
  from assms(3) obtain raw where raw: "canonicalize w ?z = Inr raw" "\<not> isl (msgSignature m)"
    by (auto simp: Encode_def crc32Of_def marshalWithCrcAndEmptySig_def bind_res_Inr_iff isl_def)
  define crc where "crc = ChecksumIEEE raw"
  from assms(3) raw obtain p sig where p: "canonicalize w (m\<lparr>msgCrc32 := crc, msgSignature := Inr []\<rparr>) = Inr p"
    and sig: "sig = ed25519_sign w priv p" and b: "marshal w (m\<lparr>msgCrc32 := crc, msgSignature := Inr sig\<rparr>) = Inr buf"
    using assms(2)
    by (auto simp: Encode_def crc32Of_def marshalWithCrcAndEmptySig_def bind_res_Inr_iff
        Sign_def signedPayload_def key_pair_def crc_def)
  let ?m = "m\<lparr>msgCrc32 := crc, msgSignature := Inr sig\<rparr>"
  have "unmarshal w buf = Inr ?m" using assms(1) b by (simp add: lossless_def)
  then have "Decode w buf = Inr (?m, crc, sig)"
    using raw(1) by (simp add: Decode_def crc32Of_def marshalWithCrcAndEmptySig_def crc_def)
  moreover have "Verify w pub ?m crc sig = Inr ()"
    using assms(2) p sig by (simp add: Verify_def signedPayload_def marshalWithCrcAndEmptySig_def key_pair_def)
  ultimately show ?thesis by blast
qed

text \<open>
  C36. What a node encodes, its peer decodes and verifies: decoding an encoded message returns
  the same id and event with the checksum and signature filled in, and the signature verifies
  under the signer's public key.
\<close>

theorem envelope_round_trip:
  assumes "lossless w" "key_pair w priv pub" "Encode w m (Some priv) = Inr buf"
  shows "\<exists>crc sig. Decode w buf = Inr (m\<lparr>msgCrc32 := crc, msgSignature := Inr sig\<rparr>, crc, sig) \<and>
    Verify w pub (m\<lparr>msgCrc32 := crc, msgSignature := Inr sig\<rparr>) crc sig = Inr ()"
  using assms by (rule Decode_Encode)

theorem envelope_round_trip_witness:
  "\<exists>w priv pub buf. lossless w \<and> key_pair w priv pub \<and>
     Encode w (new_msg (Ev_kick (Inr [65]))) (Some priv) = Inr buf \<and>
     (\<exists>m crc sig. Decode w buf = Inr (m, crc, sig) \<and> msgEvent m = Ev_kick (Inr [65]) \<and> Verify w pub m crc sig = Inr ())"
proof -
  let ?priv = "replicate 64 1 :: bytes" and ?pub = "replicate 32 2 :: bytes"
  let ?m = "new_msg (Ev_kick (Inr [65]))"
  let ?crc = "ChecksumIEEE [9]" and ?sig = "replicate 64 3 :: bytes"
  let ?out = "?m\<lparr>msgCrc32 := ?crc, msgSignature := Inr ?sig\<rparr>"
  let ?w = "\<lparr>canonicalize = \<lambda>_. Inr [9], marshal = \<lambda>x. if x = ?out then Inr [7] else Inl ErrEOF,
    unmarshal = \<lambda>_. Inr ?out, build = \<lambda>ev. Inr (new_msg ev), ed25519_sign = \<lambda>_ _. ?sig, ed25519_verify = \<lambda>_ _ s. s = ?sig\<rparr>"
  have l: "lossless ?w" by (simp add: lossless_def)
  have k: "key_pair ?w ?priv ?pub" by (simp add: key_pair_def)
  have e: "Encode ?w ?m (Some ?priv) = Inr [7]"
    by (simp add: Encode_def crc32Of_def marshalWithCrcAndEmptySig_def Sign_def signedPayload_def new_msg_def)
  from envelope_round_trip [OF l k e] have "\<exists>m crc sig. Decode ?w [7] = Inr (m, crc, sig) \<and>
      msgEvent m = Ev_kick (Inr [65]) \<and> Verify ?w ?pub m crc sig = Inr ()"
    by (auto simp: new_msg_def)
  with l k e show ?thesis by blast
qed

text \<open>
  C37. Channel frames are tamper-evident down to the byte: a frame round-trips through its
  encoding, a signed chunk verifies, and changing the purpose or any single byte of the chunk
  makes the checksum refuse it whatever signature comes with it.
\<close>

theorem channel_frame_tamper_evident:
  assumes "key_pair w priv pub" "SignChannelChunk w priv purpose (xs @ a # ys) = Inr (crc, sig)"
  shows "DecodeChannelFrame (EncodeChannelFrame purpose crc sig (xs @ a # ys)) = Inr (purpose, crc, sig, xs @ a # ys) \<and>
    VerifyChannelChunk w pub purpose (xs @ a # ys) crc sig = Inr () \<and>
    (\<forall>b sig'. b \<noteq> a \<longrightarrow> isl (VerifyChannelChunk w pub purpose (xs @ b # ys) crc sig')) \<and>
    (\<forall>p sig'. p \<noteq> purpose \<longrightarrow> isl (VerifyChannelChunk w pub p (xs @ a # ys) crc sig'))"
proof -
  have crc: "crc = channelFrameCRC purpose (xs @ a # ys)"
    and sig: "sig = ed25519_sign w priv (channelFrameSignedPayload purpose (xs @ a # ys) crc)"
    using assms by (auto simp: SignChannelChunk_def key_pair_def Let_def)
  have "length sig = SignatureSize" using assms(1) sig by (simp add: key_pair_def)
  then have "DecodeChannelFrame (EncodeChannelFrame purpose crc sig (xs @ a # ys)) = Inr (purpose, crc, sig, xs @ a # ys)"
    by (rule DecodeChannelFrame_Encode)
  moreover have "VerifyChannelChunk w pub purpose (xs @ a # ys) crc sig = Inr ()"
    using assms(1) sig crc by (simp add: VerifyChannelChunk_def key_pair_def)
  moreover have "channelFrameCRC purpose (xs @ b # ys) \<noteq> crc" if "b \<noteq> a" for b
    using checksum_single_byte [OF that, of "purpose # xs" ys] by (simp add: crc channelFrameCRC_def)
  moreover have "channelFrameCRC p (xs @ a # ys) \<noteq> crc" if "p \<noteq> purpose" for p
    using checksum_single_byte [OF that, of "[]"] by (simp add: crc channelFrameCRC_def)
  ultimately show ?thesis by (simp add: VerifyChannelChunk_def)
qed

theorem channel_frame_tamper_evident_witness:
  "\<exists>w priv pub crc sig. SignChannelChunk w priv 1 [5] = Inr (crc, sig) \<and> isl (VerifyChannelChunk w pub 1 [6] crc sig)"
proof -
  let ?priv = "replicate 64 1 :: bytes" and ?pub = "replicate 32 2 :: bytes" and ?sig = "replicate 64 3 :: bytes"
  let ?w = "\<lparr>canonicalize = \<lambda>_. Inr [9], marshal = \<lambda>_. Inl ErrEOF, unmarshal = \<lambda>_. Inl ErrEOF,
    build = \<lambda>ev. Inr (new_msg ev), ed25519_sign = \<lambda>_ _. ?sig, ed25519_verify = \<lambda>_ _ s. s = ?sig\<rparr>"
  have "key_pair ?w ?priv ?pub" by (simp add: key_pair_def)
  moreover have s: "SignChannelChunk ?w ?priv 1 ([] @ 5 # []) = Inr (channelFrameCRC 1 [5], ?sig)"
    by (simp add: SignChannelChunk_def Let_def)
  ultimately have "isl (VerifyChannelChunk ?w ?pub 1 ([] @ 6 # []) (channelFrameCRC 1 [5]) ?sig)"
    using channel_frame_tamper_evident [of ?w ?priv ?pub 1 "[]" 5 "[]" "channelFrameCRC 1 [5]" ?sig] by simp
  with s show ?thesis by (intro exI conjI) simp_all
qed

end
