(* ===== verification/Daemon_State.thy ===== *)
theory Daemon_State
  imports Complex_Main Shm_Sign "HOL-Library.AList"
begin

text \<open>
  The daemon's in-memory state: the key registry (src/pkg/shmevent/registry.go), the execute
  inbox (src/pkg/daemon/execute.go), rate quotas (quota.go) and channel sessions with their table
  and stream framing (channel.go). The three bounded queues among them share one interface,
  stated as a locale and interpreted for each. The time is an argument wherever the code reads
  the clock; the token bucket of golang.org/x/time/rate is a parameter applied to the history
  of calls a limiter has seen.
\<close>

subsection \<open>The key registry\<close>

type_synonym Registry = "16 word \<rightharpoonup> bytes"

definition Register :: "16 word \<Rightarrow> bytes \<Rightarrow> Registry \<Rightarrow> Registry" where
  "Register i v r = r(i \<mapsto> v)"

definition Lookup :: "Registry \<Rightarrow> 16 word \<Rightarrow> bytes option" where
  "Lookup r i = r i"

subsection \<open>Bounded queues\<close>

text \<open>
  A queue that drops its oldest element when full. \<open>seq\<close> is the queue's contents, oldest first.
\<close>

locale bounded_queue =
  fixes push :: "'a \<Rightarrow> 'q \<Rightarrow> 'q"
    and pop :: "'q \<Rightarrow> ('a \<times> 'q) option"
    and seq :: "'q \<Rightarrow> 'a list"
    and cap :: nat
  assumes cap_pos: "0 < cap"
    and seq_push: "seq (push x q) = (if length (seq q) \<ge> cap then tl (seq q) else seq q) @ [x]"
    and pop_None: "pop q = None \<longleftrightarrow> seq q = []"
    and pop_Some: "pop q = Some (x, q') \<Longrightarrow> seq q = x # seq q'"
begin

lemma bounded_push: "length (seq q) \<le> cap \<Longrightarrow> length (seq (push x q)) \<le> cap"
  using cap_pos by (auto simp: seq_push)

lemma bounded_pop: "pop q = Some (x, q') \<Longrightarrow> length (seq q) \<le> cap \<Longrightarrow> length (seq q') \<le> cap"
  by (auto dest: pop_Some)

text \<open>However much is pushed, the queue holds exactly the newest \<open>cap\<close> elements in order.\<close>

lemma seq_pushes:
  "length (seq q) \<le> cap \<Longrightarrow> seq (fold push xs q) = drop (length (seq q @ xs) - cap) (seq q @ xs)"
proof (induction xs arbitrary: q)
  case Nil
  then show ?case by simp
next
  case (Cons x xs)
  have s: "seq (push x q) = drop (Suc (length (seq q)) - cap) (seq q @ [x])"
    using Cons.prems cap_pos by (cases "seq q") (auto simp: seq_push Suc_diff_le)
  have "seq (fold push xs (push x q)) = drop (length (seq (push x q) @ xs) - cap) (seq (push x q) @ xs)"
    by (rule Cons.IH [OF bounded_push [OF Cons.prems]])
  also have "\<dots> = drop (length (seq q @ x # xs) - cap) (seq q @ x # xs)"
  proof (cases "Suc (length (seq q)) \<le> cap")
    case True
    then have "seq (push x q) = seq q @ [x]" using s by simp
    then show ?thesis by simp
  next
    case False
    then have l: "length (seq q) = cap" using Cons.prems by simp
    then have "seq (push x q) = drop 1 (seq q @ [x])" using s by simp
    with l [symmetric] cap_pos show ?thesis by (cases "seq q") (simp_all add: Suc_diff_le)
  qed
  finally show ?case by simp
qed

lemma pop_order: "length xs \<le> cap \<Longrightarrow> seq q = [] \<Longrightarrow> seq (fold push xs q) = xs"
  using seq_pushes [of q xs] by simp

end

subsection \<open>The execute inbox\<close>

definition maxExecuteInbox :: nat where [simp]: "maxExecuteInbox = 256"

record executeNotification =
  senderPeerID :: bytes
  payload :: bytes

type_synonym executeInbox = "executeNotification list"

definition inbox_push :: "bytes \<Rightarrow> bytes \<Rightarrow> executeInbox \<Rightarrow> executeInbox" where
  "inbox_push sender p q = (if length q \<ge> maxExecuteInbox then drop 1 q else q) @ [\<lparr>senderPeerID = sender, payload = p\<rparr>]"

definition inbox_pop :: "executeInbox \<Rightarrow> (executeNotification \<times> executeInbox) option" where
  "inbox_pop q = (if length q = 0 then None else Some (q ! 0, drop 1 q))"

interpretation inbox: bounded_queue "\<lambda>x. inbox_push (senderPeerID x) (payload x)" inbox_pop "\<lambda>q. q" maxExecuteInbox
  by unfold_locales (auto simp: inbox_push_def inbox_pop_def drop_Suc neq_Nil_conv split: if_splits)

subsection \<open>Quotas\<close>

text \<open>A limiter is its rate and burst together with the calls made on it, each a time and a cost.\<close>

record limiter =
  lim_rate :: rat
  lim_burst :: int
  lim_calls :: "(int \<times> nat) list"

record quotaTracker =
  q_peer :: "gostring \<rightharpoonup> limiter"
  q_ip :: "gostring \<rightharpoonup> limiter"
  peerLimit :: rat
  peerBurst :: int
  ipLimit :: rat
  ipBurst :: int

type_synonym bucket = "limiter \<Rightarrow> int \<Rightarrow> nat \<Rightarrow> bool"

definition newQuotaTracker :: "rat \<Rightarrow> int \<Rightarrow> rat \<Rightarrow> int \<Rightarrow> quotaTracker" where
  "newQuotaTracker peerPerSec pb ipPerSec ib =
     \<lparr>q_peer = Map.empty, q_ip = Map.empty, peerLimit = peerPerSec, peerBurst = pb, ipLimit = ipPerSec, ipBurst = ib\<rparr>"

definition AllowN :: "bucket \<Rightarrow> int \<Rightarrow> nat \<Rightarrow> limiter \<Rightarrow> bool \<times> limiter" where
  "AllowN bucket now cost lm = (bucket lm now cost, lm\<lparr>lim_calls := lim_calls lm @ [(now, cost)]\<rparr>)"

definition limiter_for :: "(gostring \<rightharpoonup> limiter) \<Rightarrow> gostring \<Rightarrow> rat \<Rightarrow> int \<Rightarrow> limiter" where
  "limiter_for m k limit burst = (case m k of Some lm \<Rightarrow> lm
     | None \<Rightarrow> \<lparr>lim_rate = limit, lim_burst = burst, lim_calls = []\<rparr>)"

definition quota_allow :: "bucket \<Rightarrow> int \<Rightarrow> gostring \<Rightarrow> gostring \<Rightarrow> nat \<Rightarrow> quotaTracker \<Rightarrow> bool \<times> quotaTracker" where
  "quota_allow bucket now peer ip cost q =
     (let (ok1, q1) = (if peerLimit q > 0 \<and> peer \<noteq> [] then
            let (ok, lm) = AllowN bucket now cost (limiter_for (q_peer q) peer (peerLimit q) (peerBurst q)) in
            (ok, q\<lparr>q_peer := (q_peer q)(peer \<mapsto> lm)\<rparr>)
          else (True, q)) in
      if \<not> ok1 then (False, q1)
      else if ipLimit q1 > 0 \<and> ip \<noteq> [] then
        let (ok, lm) = AllowN bucket now cost (limiter_for (q_ip q1) ip (ipLimit q1) (ipBurst q1)) in
        (ok, q1\<lparr>q_ip := (q_ip q1)(ip \<mapsto> lm)\<rparr>)
      else (True, q1))"

subsection \<open>Channel sessions\<close>

definition channelMaxChunkSize :: nat where "channelMaxChunkSize = 256 * 1024"
definition maxPollChunkSize :: nat where "maxPollChunkSize = 16 * 1024 - 2"
definition maxChannelInbox :: nat where [simp]: "maxChannelInbox = 4096"
definition maxPendingChannels :: nat where [simp]: "maxPendingChannels = 64"
definition maxFramedMessage :: nat where "maxFramedMessage = channelMaxChunkSize + 8 * 1024"
definition channelIdleTimeout :: int where "channelIdleTimeout = 5 * 60 * 1000000000"
definition channelPendingTimeout :: int where "channelPendingTimeout = 2 * 60 * 1000000000"

record channelChunk =
  c_purpose :: byte
  c_data :: bytes

text \<open>
  A session. \<open>s_out\<close> is what has been written to its stream, \<open>s_open\<close> whether the stream still
  accepts writes, \<open>s_cancelled\<close> whether its close context was cancelled, \<open>s_up\<close> whether an
  upload ring is attached, \<open>s_drained\<close> whether the drained signal was given and \<open>s_down\<close> the
  chunks offered to the data-plane ring. A close reason of \<open>None\<close> is the empty string.
\<close>

record channelSession =
  remotePeerID :: gostring
  remotePub :: bytes
  remoteIP :: gostring
  s_inbox :: "channelChunk list"
  s_closed :: bool
  closeReason :: "error option"
  lastActivity :: int
  s_out :: bytes
  s_open :: bool
  s_cancelled :: bool
  s_up :: bool
  s_drained :: bool
  s_down :: "channelChunk list"

definition newChannelSession :: "int \<Rightarrow> gostring \<Rightarrow> bytes \<Rightarrow> gostring \<Rightarrow> channelSession" where
  "newChannelSession now peer pub ip = \<lparr>remotePeerID = peer, remotePub = pub, remoteIP = ip, s_inbox = [], s_closed = False,
     closeReason = None, lastActivity = now, s_out = [], s_open = True, s_cancelled = False, s_up = False, s_drained = False,
     s_down = []\<rparr>"

definition touch :: "int \<Rightarrow> channelSession \<Rightarrow> channelSession" where
  "touch now s = s\<lparr>lastActivity := now\<rparr>"

definition idleFor :: "int \<Rightarrow> channelSession \<Rightarrow> int" where
  "idleFor now s = now - lastActivity s"

definition pushChunk :: "int \<Rightarrow> byte \<Rightarrow> bytes \<Rightarrow> channelSession \<Rightarrow> channelSession" where
  "pushChunk now purpose chunk s = s\<lparr>lastActivity := now,
     s_inbox := (if length (s_inbox s) \<ge> maxChannelInbox then drop 1 (s_inbox s) else s_inbox s)
       @ [\<lparr>c_purpose = purpose, c_data = chunk\<rparr>]\<rparr>"

definition popChunk :: "channelSession \<Rightarrow> (channelChunk \<times> channelSession) option" where
  "popChunk s = (if length (s_inbox s) = 0 then None
     else Some (s_inbox s ! 0, s\<lparr>s_inbox := drop 1 (s_inbox s)\<rparr>))"

definition markClosed :: "error option \<Rightarrow> channelSession \<Rightarrow> channelSession" where
  "markClosed reason s = (if \<not> s_closed s then s\<lparr>s_closed := True, closeReason := reason\<rparr> else s)"

interpretation chunks: bounded_queue "\<lambda>c. pushChunk now (c_purpose c) (c_data c)" popChunk s_inbox maxChannelInbox
  by unfold_locales (auto simp: pushChunk_def popChunk_def drop_Suc nth_Cons' neq_Nil_conv split: if_splits)

text \<open>What the read pump does with a chunk it accepts: the inbox, and an attempt to mirror it into the ring.\<close>

definition deliver :: "int \<Rightarrow> byte \<Rightarrow> bytes \<Rightarrow> channelSession \<Rightarrow> channelSession" where
  "deliver now purpose chunk s =
     (pushChunk now purpose chunk s)\<lparr>s_down := s_down s @ [\<lparr>c_purpose = purpose, c_data = chunk\<rparr>]\<rparr>"

interpretation delivery: bounded_queue "\<lambda>c. deliver now (c_purpose c) (c_data c)" popChunk s_inbox maxChannelInbox
  by unfold_locales (auto simp: deliver_def chunks.seq_push chunks.pop_None dest: chunks.pop_Some)

subsection \<open>Stream framing\<close>

definition frameBytes :: "bytes \<Rightarrow> bytes" where
  "frameBytes buf = be32 (length buf) @ buf"

definition write_stream :: "bytes \<Rightarrow> channelSession \<Rightarrow> unit res \<times> channelSession" where
  "write_stream b s = (if s_open s then (Inr (), s\<lparr>s_out := s_out s @ b\<rparr>) else (Inl (Errorf ''stream reset''), s))"

definition unexpected_EOF :: error where "unexpected_EOF = Errorf ''unexpected EOF''"

text \<open>\<^verbatim>\<open>io.ReadFull\<close> on the bytes that remain of a stream the peer has finished writing.\<close>

definition ReadFull :: "nat \<Rightarrow> bytes \<Rightarrow> (bytes \<times> bytes) res" where
  "ReadFull k input = (if k \<le> length input then Inr (take k input, drop k input)
     else if input = [] then Inl ErrEOF else Inl unexpected_EOF)"

definition readFramed :: "bytes \<Rightarrow> (bytes \<times> bytes) res" where
  "readFramed input =
     bind_res (ReadFull 4 input) (\<lambda>(lenBuf, rest).
     if be_dec lenBuf > maxFramedMessage then Inl (Errorf ''channel: framed message too large: %d bytes'')
     else ReadFull (be_dec lenBuf) rest)"

definition session_write :: "wire \<Rightarrow> bucket \<Rightarrow> int \<Rightarrow> bytes \<Rightarrow> byte \<Rightarrow> bytes \<Rightarrow>
    quotaTracker \<times> channelSession \<Rightarrow> unit res \<times> quotaTracker \<times> channelSession" where
  "session_write w bucket now priv purpose chunk = (\<lambda>(q, s).
     let (ok, q') = quota_allow bucket now (remotePeerID s) (remoteIP s) (length chunk) q in
     if \<not> ok then (Inl (Errorf ''channel: quota exceeded for %s''), q', s)
     else case SignChannelChunk w priv purpose chunk of
         Inl e \<Rightarrow> (Inl (Wrap ''channel: sign frame: %w'' e), q', s)
       | Inr (crc, sig) \<Rightarrow>
           (case write_stream (frameBytes (EncodeChannelFrame purpose crc sig chunk)) s of
              (Inl e, s') \<Rightarrow> (Inl e, q', s')
            | (Inr _, s') \<Rightarrow> (Inr (), q', touch now s')))"

lemma readFramed_frame:
  assumes "length buf \<le> maxFramedMessage"
  shows "readFramed (frameBytes buf @ rest) = Inr (buf, rest)"
proof -
  have "length buf < 4294967296" using assms by (simp add: maxFramedMessage_def channelMaxChunkSize_def)
  then show ?thesis using assms by (simp add: readFramed_def frameBytes_def ReadFull_def)
qed

lemma readFramed_shorter: "readFramed input = Inr (buf, rest) \<Longrightarrow> length rest < length input"
  by (auto simp: readFramed_def ReadFull_def bind_res_Inr_iff split: if_splits)

text \<open>
  The read pump over everything a peer sends before closing its side. It stops at the first
  frame it cannot accept, and always marks the session closed.
\<close>

function pumpChannelReads :: "wire \<Rightarrow> bucket \<Rightarrow> int \<Rightarrow> bytes \<Rightarrow> quotaTracker \<Rightarrow> channelSession \<Rightarrow> quotaTracker \<times> channelSession" where
  "pumpChannelReads w bucket now input q s = (case readFramed input of
      Inl e \<Rightarrow> (q, markClosed (if e = ErrEOF then None else Some e) s)
    | Inr (buf, rest) \<Rightarrow> (case DecodeChannelFrame buf of
        Inl e \<Rightarrow> (q, markClosed (Some (Errorf ''decode channel frame: %v'')) s)
      | Inr (purpose, crc, sig, chunk) \<Rightarrow> (case VerifyChannelChunk w (remotePub s) purpose chunk crc sig of
          Inl e \<Rightarrow> (q, markClosed (Some (Errorf ''verify channel frame: %v'')) s)
        | Inr _ \<Rightarrow>
            if length chunk > channelMaxChunkSize
            then (q, markClosed (Some (Errorf ''peer sent an oversized channel chunk: %d bytes'')) s)
            else let (ok, q') = quota_allow bucket now (remotePeerID s) (remoteIP s) (length chunk) q in
              if \<not> ok then (q', markClosed (Some (Errorf ''channel quota exceeded'')) s)
              else pumpChannelReads w bucket now rest q' (deliver now purpose chunk s))))"
  by pat_completeness auto

termination
  by (relation "measure (\<lambda>(_, _, _, input, _, _). length input)") (auto dest: readFramed_shorter)

declare pumpChannelReads.simps [simp del]

subsection \<open>The channel table\<close>

text \<open>\<open>t_gone\<close> collects the sessions dropped from the table, in the state they were dropped in.\<close>

record pendingChannel =
  p_channelID :: gostring
  p_addedAt :: int

record channelTable =
  sessions :: "(gostring \<times> channelSession) list"
  pending :: "pendingChannel list"
  t_gone :: "channelSession list"

definition newChannelTable :: channelTable where
  "newChannelTable = \<lparr>sessions = [], pending = [], t_gone = []\<rparr>"

definition chan_register :: "gostring \<Rightarrow> channelSession \<Rightarrow> channelTable \<Rightarrow> channelTable" where
  "chan_register i s t = t\<lparr>sessions := AList.update i s (sessions t)\<rparr>"

definition chan_get :: "channelTable \<Rightarrow> gostring \<Rightarrow> channelSession option" where
  "chan_get t i = map_of (sessions t) i"

fun remove_pending :: "gostring \<Rightarrow> pendingChannel list \<Rightarrow> pendingChannel list" where
  "remove_pending i [] = []"
| "remove_pending i (p # ps) = (if p_channelID p = i then ps else p # remove_pending i ps)"

definition chan_remove :: "gostring \<Rightarrow> channelTable \<Rightarrow> channelTable" where
  "chan_remove i t = t\<lparr>sessions := AList.delete i (sessions t), pending := remove_pending i (pending t)\<rparr>"

text \<open>Closing a session's stream and, where the code does so, cancelling its context.\<close>

definition shut :: "bool \<Rightarrow> channelSession \<Rightarrow> channelSession" where
  "shut cancel s = s\<lparr>s_open := False, s_cancelled := cancel \<or> s_cancelled s\<rparr>"

definition drop_session :: "bool \<Rightarrow> gostring \<Rightarrow> channelTable \<Rightarrow> channelTable" where
  "drop_session cancel i t = (case map_of (sessions t) i of None \<Rightarrow> t
     | Some s \<Rightarrow> t\<lparr>sessions := AList.delete i (sessions t), t_gone := shut cancel s # t_gone t\<rparr>)"

definition pushPending :: "int \<Rightarrow> gostring \<Rightarrow> channelTable \<Rightarrow> channelTable" where
  "pushPending now i t =
     (let t1 = (if length (pending t) \<ge> maxPendingChannels
                then drop_session False (p_channelID (pending t ! 0)) (t\<lparr>pending := drop 1 (pending t)\<rparr>) else t) in
      t1\<lparr>pending := pending t1 @ [\<lparr>p_channelID = i, p_addedAt = now\<rparr>]\<rparr>)"

definition popPending :: "channelTable \<Rightarrow> (gostring \<times> channelTable) option" where
  "popPending t = (if length (pending t) = 0 then None
     else Some (p_channelID (pending t ! 0), t\<lparr>pending := drop 1 (pending t)\<rparr>))"

fun reapPending :: "int \<Rightarrow> pendingChannel list \<Rightarrow> channelTable \<Rightarrow> channelTable" where
  "reapPending now [] t = t"
| "reapPending now (p # ps) t =
     (if now - p_addedAt p > channelPendingTimeout then reapPending now ps (drop_session True (p_channelID p) t)
      else reapPending now ps (t\<lparr>pending := pending t @ [p]\<rparr>))"

fun reapIdle :: "int \<Rightarrow> (gostring \<times> channelSession) list \<Rightarrow> channelTable \<Rightarrow> channelTable" where
  "reapIdle now [] t = t"
| "reapIdle now ((i, s) # ss) t =
     reapIdle now ss (if idleFor now s > channelIdleTimeout then drop_session True i t else t)"

definition reap :: "int \<Rightarrow> channelTable \<Rightarrow> channelTable" where
  "reap now t = (let t1 = reapPending now (pending t) (t\<lparr>pending := []\<rparr>) in reapIdle now (sessions t1) t1)"

lemma drop_session_pending [simp]: "pending (drop_session c i t) = pending t"
  by (simp add: drop_session_def split: option.splits)

lemma drop_session_sessions: "sessions (drop_session c i t) = AList.delete i (sessions t)"
  by (auto simp: drop_session_def delete_id map_of_eq_None_iff split: option.splits)

text \<open>The queue of channels waiting to be claimed, with the eviction it does.\<close>

interpretation waiting: bounded_queue "\<lambda>p. pushPending (p_addedAt p) (p_channelID p)"
  "\<lambda>t. map_option (\<lambda>(_, t'). (pending t ! 0, t')) (popPending t)" pending maxPendingChannels
  by unfold_locales (auto simp: pushPending_def popPending_def Let_def drop_Suc neq_Nil_conv split: if_splits)

subsection \<open>Invariant of the table\<close>

definition table_ok :: "channelTable \<Rightarrow> bool" where
  "table_ok t \<longleftrightarrow> distinct (map fst (sessions t)) \<and> length (pending t) \<le> maxPendingChannels \<and>
     (\<forall>(i, s) \<in> set (sessions t). length (s_inbox s) \<le> maxChannelInbox)"

lemma table_ok_new: "table_ok newChannelTable"
  by (simp add: table_ok_def newChannelTable_def)

lemma set_alist_update: "set (AList.update i s xs) \<subseteq> insert (i, s) (set xs)"
  by (induction xs) auto

lemma set_alist_delete: "set (AList.delete i xs) \<subseteq> set xs"
  by (induction xs) auto

lemma table_ok_register:
  assumes "table_ok t" "length (s_inbox s) \<le> maxChannelInbox"
  shows "table_ok (chan_register i s t)"
proof -
  have "distinct (map fst (AList.update i s (sessions t)))"
    using assms(1) by (simp add: table_ok_def distinct_update)
  with assms set_alist_update [of i s "sessions t"] show ?thesis
    unfolding table_ok_def chan_register_def by auto
qed

lemma table_ok_delete:
  assumes "table_ok t" "length ps \<le> maxPendingChannels" "sessions t' = AList.delete i (sessions t) \<or> sessions t' = sessions t"
    and "pending t' = ps"
  shows "table_ok t'"
proof -
  have "distinct (map fst (AList.delete i (sessions t)))"
    using assms(1) by (simp add: table_ok_def distinct_delete)
  with assms set_alist_delete [of i "sessions t"] show ?thesis
    unfolding table_ok_def by auto
qed

lemma length_remove_pending: "length (remove_pending i ps) \<le> length ps"
  by (induction ps) auto

lemma table_ok_remove:
  assumes "table_ok t"
  shows "table_ok (chan_remove i t)"
proof (rule table_ok_delete [OF assms])
  show "length (remove_pending i (pending t)) \<le> maxPendingChannels"
    using assms length_remove_pending [of i "pending t"] unfolding table_ok_def by linarith
qed (auto simp: chan_remove_def)

lemma table_ok_drop_session: "table_ok t \<Longrightarrow> table_ok (drop_session c i t)"
  by (rule table_ok_delete [of t "pending t" _ i]) (auto simp: drop_session_sessions table_ok_def)

lemma pushPending_sessions:
  "sessions (pushPending now i t) = AList.delete (p_channelID (pending t ! 0)) (sessions t) \<or> sessions (pushPending now i t) = sessions t"
  unfolding pushPending_def Let_def by (simp add: drop_session_sessions)

lemma table_ok_pushPending:
  assumes t: "table_ok t"
  shows "table_ok (pushPending now i t)"
proof (rule table_ok_delete [OF t _ pushPending_sessions refl])
  have "length (pending t) \<le> maxPendingChannels" using t by (simp only: table_ok_def)
  from waiting.bounded_push [OF this, of "\<lparr>p_channelID = i, p_addedAt = now\<rparr>"]
  show "length (pending (pushPending now i t)) \<le> maxPendingChannels" by simp
qed

lemma table_ok_popPending: "table_ok t \<Longrightarrow> popPending t = Some (i, t') \<Longrightarrow> table_ok t'"
  by (auto simp: popPending_def table_ok_def split: if_splits)

lemma table_ok_reapPending:
  "table_ok t \<Longrightarrow> length (pending t) + length ps \<le> maxPendingChannels \<Longrightarrow> table_ok (reapPending now ps t)"
proof (induction ps arbitrary: t)
  case (Cons p ps)
  show ?case
  proof (cases "now - p_addedAt p > channelPendingTimeout")
    case True
    with Cons table_ok_drop_session show ?thesis by simp
  next
    case False
    have "table_ok (t\<lparr>pending := pending t @ [p]\<rparr>)" using Cons.prems by (simp add: table_ok_def)
    with False Cons show ?thesis by simp
  qed
qed simp

lemma table_ok_reapIdle: "table_ok t \<Longrightarrow> table_ok (reapIdle now ss t)"
  by (induction now ss t rule: reapIdle.induct) (auto simp: table_ok_drop_session)

lemma table_ok_reap: "table_ok t \<Longrightarrow> table_ok (reap now t)"
  unfolding reap_def Let_def by (intro table_ok_reapIdle table_ok_reapPending) (auto simp: table_ok_def)

subsection \<open>Channel delivery\<close>

text \<open>The frame a signer puts on the stream for one chunk.\<close>

definition chunkFrame :: "wire \<Rightarrow> bytes \<Rightarrow> channelChunk \<Rightarrow> bytes" where
  "chunkFrame w priv c =
     (let crc = channelFrameCRC (c_purpose c) (c_data c) in
      frameBytes (EncodeChannelFrame (c_purpose c) crc
        (ed25519_sign w priv (channelFrameSignedPayload (c_purpose c) (c_data c) crc)) (c_data c)))"

lemma session_write_ok:
  assumes "session_write w bucket now priv (c_purpose c) (c_data c) (q, s) = (Inr (), q', s')"
  shows "s' = s\<lparr>s_out := s_out s @ chunkFrame w priv c, lastActivity := now\<rparr>"
  using assms
  by (auto simp: session_write_def chunkFrame_def SignChannelChunk_def write_stream_def touch_def Let_def
      split: prod.splits sum.splits if_splits)

fun send_chunks :: "wire \<Rightarrow> bucket \<Rightarrow> int \<Rightarrow> bytes \<Rightarrow> channelChunk list \<Rightarrow> quotaTracker \<times> channelSession \<Rightarrow>
    (quotaTracker \<times> channelSession) option" where
  "send_chunks w bucket now priv [] qs = Some qs"
| "send_chunks w bucket now priv (c # cs) qs =
     (case session_write w bucket now priv (c_purpose c) (c_data c) qs of
        (Inl _, _) \<Rightarrow> None
      | (Inr _, qs') \<Rightarrow> send_chunks w bucket now priv cs qs')"

lemma send_chunks_out:
  "send_chunks w bucket now priv cs (q, s) = Some (q', s') \<Longrightarrow> s_out s' = s_out s @ concat (map (chunkFrame w priv) cs)"
proof (induction cs arbitrary: q s)
  case (Cons c cs)
  obtain r q1 s1 where sw: "session_write w bucket now priv (c_purpose c) (c_data c) (q, s) = (r, q1, s1)"
    by (metis prod_cases3)
  with Cons.prems obtain u where r: "r = Inr u" by (cases r) auto
  have "s_out s1 = s_out s @ chunkFrame w priv c" using session_write_ok [of w bucket now priv c q s q1 s1] sw r by simp
  moreover have "s_out s' = s_out s1 @ concat (map (chunkFrame w priv) cs)"
    using Cons.IH [of q1 s1] Cons.prems sw r by simp
  ultimately show ?case by simp
qed simp

lemma pump_step:
  assumes "key_pair w priv (remotePub s)" "length (c_data c) \<le> channelMaxChunkSize"
    and "quota_allow bucket now (remotePeerID s) (remoteIP s) (length (c_data c)) q = (True, q')"
  shows "pumpChannelReads w bucket now (chunkFrame w priv c @ rest) q s =
    pumpChannelReads w bucket now rest q' (deliver now (c_purpose c) (c_data c) s)"
proof -
  let ?crc = "channelFrameCRC (c_purpose c) (c_data c)"
  let ?sig = "ed25519_sign w priv (channelFrameSignedPayload (c_purpose c) (c_data c) ?crc)"
  let ?f = "EncodeChannelFrame (c_purpose c) ?crc ?sig (c_data c)"
  have ls: "length ?sig = SignatureSize" using assms(1) by (simp add: key_pair_def)
  then have "length ?f \<le> maxFramedMessage"
    using assms(2) by (simp add: EncodeChannelFrame_def maxFramedMessage_def)
  then have r: "readFramed (chunkFrame w priv c @ rest) = Inr (?f, rest)"
    unfolding chunkFrame_def Let_def by (rule readFramed_frame)
  have d: "DecodeChannelFrame ?f = Inr (c_purpose c, ?crc, ?sig, c_data c)" using ls by (rule DecodeChannelFrame_Encode)
  have v: "VerifyChannelChunk w (remotePub s) (c_purpose c) (c_data c) ?crc ?sig = Inr ()"
    using assms(1) ls by (simp add: VerifyChannelChunk_def key_pair_def)
  show ?thesis by (subst pumpChannelReads.simps) (use r d v assms(2,3) in simp)
qed

lemma pump_end: "pumpChannelReads w bucket now [] q s = (q, markClosed None s)"
  by (subst pumpChannelReads.simps) (simp add: readFramed_def ReadFull_def)

lemma quota_off: "peerLimit q \<le> 0 \<Longrightarrow> ipLimit q \<le> 0 \<Longrightarrow> quota_allow bucket now peer ip cost q = (True, q)"
  by (simp add: quota_allow_def)

lemma deliver_simps [simp]:
  "remotePub (deliver now p d s) = remotePub s" "remotePeerID (deliver now p d s) = remotePeerID s"
  "remoteIP (deliver now p d s) = remoteIP s" "s_closed (deliver now p d s) = s_closed s"
  by (simp_all add: deliver_def pushChunk_def)

text \<open>Charging the sizes of a run of chunks to a peer and its address, until one is refused.\<close>

fun quota_run :: "bucket \<Rightarrow> int \<Rightarrow> gostring \<Rightarrow> gostring \<Rightarrow> nat list \<Rightarrow> quotaTracker \<Rightarrow> quotaTracker option" where
  "quota_run bucket now peer ip [] q = Some q"
| "quota_run bucket now peer ip (k # ks) q = (case quota_allow bucket now peer ip k q of
      (True, q') \<Rightarrow> quota_run bucket now peer ip ks q'
    | (False, _) \<Rightarrow> None)"

lemma pump_frames:
  assumes "key_pair w priv (remotePub s)"
    and "quota_run bucket now (remotePeerID s) (remoteIP s) (map (\<lambda>c. length (c_data c)) cs) q = Some q'"
    and "\<forall>c \<in> set cs. length (c_data c) \<le> channelMaxChunkSize"
  shows "pumpChannelReads w bucket now (concat (map (chunkFrame w priv) cs)) q s =
    (q', markClosed None (fold (\<lambda>c. deliver now (c_purpose c) (c_data c)) cs s))"
  using assms
proof (induction cs arbitrary: s q)
  case (Cons c cs)
  from Cons.prems(2) obtain q1 where q1: "quota_allow bucket now (remotePeerID s) (remoteIP s) (length (c_data c)) q = (True, q1)"
    "quota_run bucket now (remotePeerID s) (remoteIP s) (map (\<lambda>c. length (c_data c)) cs) q1 = Some q'"
    by (auto split: prod.splits bool.splits)
  have "pumpChannelReads w bucket now (chunkFrame w priv c @ concat (map (chunkFrame w priv) cs)) q s =
    pumpChannelReads w bucket now (concat (map (chunkFrame w priv) cs)) q1 (deliver now (c_purpose c) (c_data c) s)"
    using Cons.prems q1 by (intro pump_step) simp_all
  then show ?case using Cons q1 by simp
qed (simp add: pump_end)

lemma markClosed_simps [simp]:
  "s_inbox (markClosed r s) = s_inbox s" "remotePub (markClosed r s) = remotePub s" "s_closed (markClosed r s)" "\<not> s_closed s \<Longrightarrow> closeReason (markClosed r s) = r"
  by (simp_all add: markClosed_def)

lemma fold_deliver_closed [simp]: "s_closed (fold (\<lambda>c. deliver now (c_purpose c) (c_data c)) cs s) = s_closed s"
  by (induction cs arbitrary: s) simp_all

subsection \<open>Properties\<close>

text \<open>
  Channels deliver: when the sender's writes all succeed, the receiver's pump over what went
  onto the stream ends with its session closed without an error, and its inbox holds exactly
  the sent chunks in order, or the newest 4096 of them when there are more. The receiver must be
  talking to the owner of the public key it dialled, and its quotas must admit the chunks.
\<close>

theorem channel_delivers:
  assumes "send_chunks w bucket now priv cs (qa, sa) = Some (qa', sa')" "s_out sa = []"
    and "key_pair w priv (remotePub s)"
    and "quota_run bucket now' (remotePeerID s) (remoteIP s) (map (\<lambda>c. length (c_data c)) cs) q = Some q'"
    and "\<forall>c \<in> set cs. length (c_data c) \<le> channelMaxChunkSize" "s_inbox s = []" "\<not> s_closed s"
  shows "\<exists>s'. pumpChannelReads w bucket now' (s_out sa') q s = (q', s') \<and> s_closed s' \<and> closeReason s' = None \<and>
    s_inbox s' = drop (length cs - maxChannelInbox) cs"
proof -
  let ?s = "fold (\<lambda>c. deliver now' (c_purpose c) (c_data c)) cs s"
  have "s_out sa' = concat (map (chunkFrame w priv) cs)" using send_chunks_out [OF assms(1)] assms(2) by simp
  then have "pumpChannelReads w bucket now' (s_out sa') q s = (q', markClosed None ?s)"
    using pump_frames [OF assms(3-5)] by simp
  moreover have "s_inbox ?s = drop (length cs - maxChannelInbox) cs"
    using delivery.seq_pushes [of s now' cs] assms(6) by simp
  ultimately show ?thesis using assms(7) by simp
qed

theorem channel_delivers_witness:
  "\<exists>w priv sa' s'. send_chunks w (\<lambda>_ _ _. True) 0 priv [\<lparr>c_purpose = 1, c_data = [104, 105]\<rparr>]
      (newQuotaTracker 0 0 0 0, newChannelSession 0 [] [] []) = Some (newQuotaTracker 0 0 0 0, sa') \<and>
    pumpChannelReads w (\<lambda>_ _ _. True) 5 (s_out sa') (newQuotaTracker 0 0 0 0)
      (newChannelSession 0 [] (replicate 32 2) []) = (newQuotaTracker 0 0 0 0, s') \<and>
    s_inbox s' = [\<lparr>c_purpose = 1, c_data = [104, 105]\<rparr>]"
proof -
  let ?priv = "replicate 64 1 :: bytes" and ?sig = "replicate 64 3 :: bytes"
  let ?w = "\<lparr>canonicalize = \<lambda>_. Inr [9], marshal = \<lambda>_. Inl ErrEOF, unmarshal = \<lambda>_. Inl ErrEOF,
    build = \<lambda>ev. Inr (new_msg ev), ed25519_sign = \<lambda>_ _. ?sig, ed25519_verify = \<lambda>_ _ s. s = ?sig\<rparr>"
  let ?q = "newQuotaTracker 0 0 0 0" and ?c = "\<lparr>c_purpose = 1, c_data = [104, 105]\<rparr>"
  let ?sa = "newChannelSession 0 [] [] []" and ?sb = "newChannelSession 0 [] (replicate 32 2) []"
  have k: "key_pair ?w ?priv (remotePub ?sb)" by (simp add: key_pair_def newChannelSession_def)
  have z: "peerLimit ?q \<le> 0" "ipLimit ?q \<le> 0" by (simp_all add: newQuotaTracker_def)
  have sd: "send_chunks ?w (\<lambda>_ _ _. True) 0 ?priv [?c] (?q, ?sa) = Some (?q, ?sa\<lparr>s_out := chunkFrame ?w ?priv ?c\<rparr>)"
    by (simp add: session_write_def quota_off [OF z] SignChannelChunk_def write_stream_def touch_def newChannelSession_def
        chunkFrame_def Let_def)
  have "length [104, 105 :: byte] \<le> channelMaxChunkSize" by (simp add: channelMaxChunkSize_def)
  moreover have "quota_run (\<lambda>_ _ _. True) 5 (remotePeerID ?sb) (remoteIP ?sb) (map (\<lambda>c. length (c_data c)) [?c]) ?q = Some ?q"
    by (simp add: quota_off [OF z])
  ultimately obtain s' where "pumpChannelReads ?w (\<lambda>_ _ _. True) 5 (s_out (?sa\<lparr>s_out := chunkFrame ?w ?priv ?c\<rparr>)) ?q ?sb = (?q, s')"
    and "s_inbox s' = [?c]"
    using channel_delivers [OF sd _ k, of 5 ?q ?q] by (auto simp: newChannelSession_def)
  with sd show ?thesis by blast
qed



text \<open>
  The steps the daemon takes on its channel table: registering a fresh session under a random
  id, delivering or claiming a chunk, writing to, marking or closing a session, queueing and
  claiming pending channels, and the reaper.
\<close>

inductive chan_step :: "channelTable \<Rightarrow> channelTable \<Rightarrow> bool" where
  opened: "chan_step t (chan_register i (newChannelSession now peer pub ip) t)"
| received: "chan_get t i = Some s \<Longrightarrow> chan_step t (chan_register i (deliver now purpose chunk s) t)"
| polled: "chan_get t i = Some s \<Longrightarrow> popChunk s = Some (c, s') \<Longrightarrow> chan_step t (chan_register i s' t)"
| wrote: "chan_get t i = Some s \<Longrightarrow> session_write w bucket now priv purpose chunk (q, s) = (r, q', s') \<Longrightarrow>
    chan_step t (chan_register i s' t)"
| closed_by_peer: "chan_get t i = Some s \<Longrightarrow> chan_step t (chan_register i (markClosed r s) t)"
| removed: "chan_step t (chan_remove i t)"
| queued: "chan_step t (pushPending now i t)"
| claimed: "popPending t = Some (i, t') \<Longrightarrow> chan_step t t'"
| reaped: "chan_step t (reap now t)"

lemma table_ok_get: "table_ok t \<Longrightarrow> chan_get t i = Some s \<Longrightarrow> length (s_inbox s) \<le> maxChannelInbox"
  unfolding table_ok_def chan_get_def by (auto dest: map_of_SomeD)

lemma session_write_inbox: "session_write w bucket now priv purpose chunk (q, s) = (r, q', s') \<Longrightarrow> s_inbox s' = s_inbox s"
  by (auto simp: session_write_def write_stream_def touch_def Let_def split: prod.splits sum.splits if_splits)

lemma table_ok_step: "chan_step t t' \<Longrightarrow> table_ok t \<Longrightarrow> table_ok t'"
proof (induction rule: chan_step.induct)
  case (received t i s now purpose chunk)
  have "length (s_inbox s) \<le> maxChannelInbox" using received by (intro table_ok_get)
  from delivery.bounded_push [OF this, of now "\<lparr>c_purpose = purpose, c_data = chunk\<rparr>"]
  show ?case using received.prems by (intro table_ok_register) simp_all
next
  case (polled t i s c s')
  have "length (s_inbox s) \<le> maxChannelInbox" using polled by (intro table_ok_get)
  with polled show ?case by (intro table_ok_register chunks.bounded_pop [OF polled(2)])
next
  case (wrote t i s w bucket now priv purpose chunk q r q' s')
  then show ?case using table_ok_get session_write_inbox by (intro table_ok_register) metis+
next
  case (closed_by_peer t i s r)
  then show ?case using table_ok_get by (intro table_ok_register) auto
qed (auto simp: newChannelSession_def intro: table_ok_register table_ok_remove table_ok_pushPending table_ok_popPending table_ok_reap)

text \<open>
  The channel table stays well formed and bounded over every run of the daemon's channel
  operations: one session per id, at most 64 channels waiting to be claimed and at most 4096
  chunks in each inbox, whatever peers send and however long they wait.
\<close>

theorem channel_table_bounded:
  "chan_step\<^sup>*\<^sup>* newChannelTable t \<Longrightarrow> table_ok t"
  by (induction rule: rtranclp_induct) (auto simp: table_ok_new intro: table_ok_step)

theorem channel_table_bounded_witness:
  "table_ok (reap 10 (pushPending 5 [1] (chan_register [1] (newChannelSession 0 [] [] []) newChannelTable)))"
  by (rule channel_table_bounded)
    (blast intro: opened queued reaped converse_rtranclp_into_rtranclp rtranclp.rtrancl_refl)

subsection \<open>Two accounting details\<close>

text \<open>A call that the address quota refuses has already been charged to the peer's quota.\<close>

lemma quota_refusal_charges_peer:
  assumes "peerLimit q > 0" "peer \<noteq> []" "ipLimit q > 0" "ip \<noteq> []"
    and "bucket (limiter_for (q_peer q) peer (peerLimit q) (peerBurst q)) now cost"
    and "\<not> bucket (limiter_for (q_ip q) ip (ipLimit q) (ipBurst q)) now cost"
  shows "\<exists>q' lm. quota_allow bucket now peer ip cost q = (False, q') \<and> q_peer q' peer = Some lm \<and> last (lim_calls lm) = (now, cost)"
  using assms by (auto simp: quota_allow_def AllowN_def)

text \<open>A session evicted from the waiting queue is closed, but its context is never cancelled.\<close>

lemma eviction_leaves_context:
  assumes "length (pending t) \<ge> maxPendingChannels" "chan_get t (p_channelID (pending t ! 0)) = Some s" "\<not> s_cancelled s"
  shows "\<exists>s'. t_gone (pushPending now i t) = s' # t_gone t \<and> \<not> s_open s' \<and> \<not> s_cancelled s'"
  using assms by (auto simp: pushPending_def drop_session_def shut_def chan_get_def Let_def)

end
