(* ===== verification/Daemon_Node.thy ===== *)
theory Daemon_Node
  imports FSM_Invariants Daemon_State
begin

text \<open>
  The daemon's node state and the write path (src/pkg/daemon/daemon.go, forward.go): resolving
  the write target, applying an op through raft on the leader, forwarding it to the leader
  otherwise, and the leader's stream handlers. Raft, the network, peer-id decoding and JSON
  are other people's code and enter as the fields of \<open>env\<close>; a committed entry is applied to
  the node's store by the state machine. Waiting for the local replica to catch up has no
  effect on state and is left out.
\<close>

subsection \<open>State\<close>

datatype suffrage = Voter | Nonvoter

record server =
  srvID :: gostring
  srvAddress :: gostring
  srvSuffrage :: suffrage

text \<open>\<open>Follower l\<close> knows leader \<open>l\<close>, or none when \<open>l\<close> is empty; \<open>NoRaft\<close> is \<^verbatim>\<open>n.raft == nil\<close>.\<close>

datatype raft_state = NoRaft | Leader | Follower gostring

text \<open>
  \<open>entropy\<close> is what successive reads of crypto/rand return; a read of \<open>k\<close> bytes takes the
  next entry, which the lemmas that need it assume to be \<open>k\<close> bytes long.
\<close>

record node =
  peerID :: gostring
  ed25519Pub :: bytes
  ed25519Priv :: bytes
  n_store :: store
  raft :: raft_state
  servers :: "server list"
  registry :: Registry
  executeInbox :: executeInbox
  channels :: channelTable
  channelQuota :: quotaTracker
  joinRequestToken :: bytes
  RequireConfirmForJoin :: bool
  RelayPeers :: "gostring list"
  entropy :: "bytes res list"

type_synonym 'a nd = "(node, 'a) comp"

text \<open>A log record (pkg/logrecord), with its fields in the order the code sets them.\<close>

record logRecord =
  recKind :: gostring
  recUnitID :: gostring
  recTimestamp :: int
  recAuthor :: gostring
  recFields :: "(gostring \<times> gostring) list"
  recNarrative :: gostring

text \<open>One of the host's listen addresses, with what the multiaddr library says about it.\<close>

record hostAddr =
  addrText :: gostring
  addrPublic :: bool
  addrLoopback :: bool

text \<open>A peer id with its addresses.\<close>

type_synonym AddrInfo = "gostring \<times> gostring list"

text \<open>
  \<open>commit\<close> is the outcome of \<^verbatim>\<open>rf.Apply\<close>'s future for an entry (its index, or the
  error of an entry that was not committed), \<open>add_server\<close> and \<open>remove_server\<close> that of raft's
  membership changes (removing the leader itself also ends its leadership), \<open>transfer_to\<close> the
  raft state after a leadership transfer, \<open>new_raft\<close>, \<open>bootstrap\<close> and \<open>elected\<close> a fresh raft
  instance, the outcome of bootstrapping it and its state once the election settles. \<open>dial\<close> is what
  a peer answers on a stream, \<open>connect\<close> the outcome of the \<open>k\<close>-th connection attempt and \<open>conn_reset\<close>
  whether an error is a connection reset. \<open>new_multiaddr\<close> and \<open>addr_info\<close> parse an address,
  \<open>reg_open\<close> and \<open>reg_resolve\<close> look one up in the machine's registry file.
  \<open>peer_decode\<close> parses a peer id to its canonical text, and \<open>pub_extract\<close> and \<open>pub_raw\<close> take the public key out of it. \<open>join_json\<close>, \<open>join_unjson\<close>, \<open>boot_unjson\<close>,
  \<open>record_json\<close>, \<open>record_unjson\<close> and \<open>poke_json\<close> are JSON, \<open>err_text\<close> an error's message,
  \<open>wallclock\<close> the time in nanoseconds. \<open>conn_ip\<close> and \<open>public_addr\<close> come from the multiaddr library,
  \<open>relay_reserved\<close> and \<open>confirmed_reachable\<close> say what waiting for a relay reservation found, and
  \<open>ring_create\<close> and \<open>ring_open\<close> are the shared-memory data plane of channels. \<open>pages_left\<close> is how many streams the daemon's own
  context lives to open for a paged query, and \<open>slots\<close> what the generated accessors of the listRange
  variant read out of a message of another variant.
\<close>

record env =
  lims :: limits
  clock :: "64 word"
  commit :: "bytes \<Rightarrow> nat res"
  add_server :: "server \<Rightarrow> server list \<Rightarrow> server list res"
  remove_server :: "gostring \<Rightarrow> server list \<Rightarrow> (server list \<times> raft_state) res"
  dial :: "gostring \<Rightarrow> gostring \<Rightarrow> bytes \<Rightarrow> bytes res"
  peer_decode :: "gostring \<Rightarrow> gostring res"
  pub_extract :: "gostring \<Rightarrow> bytes res"
  pub_raw :: "bytes \<Rightarrow> bytes res"
  transfer_to :: "gostring \<Rightarrow> gostring \<Rightarrow> raft_state"
  join_json :: "gostring \<Rightarrow> byte \<Rightarrow> bytes"
  join_unjson :: "bytes \<Rightarrow> (gostring \<times> byte) res"
  record_json :: "logRecord \<Rightarrow> bytes res"
  record_unjson :: "bytes \<Rightarrow> logRecord res"
  poke_json :: "gostring \<Rightarrow> gostring \<Rightarrow> bytes res"
  err_text :: "error \<Rightarrow> bytes"
  wr :: wire
  wallclock :: int
  rate_bucket :: bucket
  host_addrs :: "hostAddr list"
  build_info :: VersionInfo
  new_multiaddr :: "gostring \<Rightarrow> gostring res"
  addr_info :: "gostring \<Rightarrow> AddrInfo res"
  reg_open :: "unit res"
  reg_resolve :: "gostring \<Rightarrow> gostring res"
  boot_unjson :: "bytes \<Rightarrow> (gostring \<times> byte) res"
  connect :: "gostring \<Rightarrow> nat \<Rightarrow> unit res"
  conn_reset :: "error \<Rightarrow> bool"
  conn_ip :: "gostring \<Rightarrow> gostring"
  public_addr :: "gostring \<Rightarrow> bool"
  relay_reserved :: bool
  confirmed_reachable :: bool
  ring_create :: "gostring \<Rightarrow> unit res"
  ring_open :: "gostring \<Rightarrow> unit res"
  pages_left :: nat
  slots :: "event \<Rightarrow> ptr \<times> ptr"
  new_raft :: "raft_state res"
  bootstrap :: "server \<Rightarrow> server list \<Rightarrow> server list res"
  elected :: raft_state

definition on_store :: "'a sto \<Rightarrow> 'a nd" where
  "on_store m n = (case m (n_store n) of (r, st) \<Rightarrow> (r, n\<lparr>n_store := st\<rparr>))"

definition get_node :: "node nd" where
  "get_node n = (Inr n, n)"

definition set_node :: "(node \<Rightarrow> node) \<Rightarrow> unit nd" where
  "set_node f n = (Inr (), f n)"

text \<open>\<^verbatim>\<open>cryptorand.Read\<close>.\<close>

definition rand_read :: "bytes nd" where
  "rand_read n = (case entropy n of
      [] \<Rightarrow> (Inl (Errorf ''entropy exhausted''), n)
    | r # rs \<Rightarrow> (r, n\<lparr>entropy := rs\<rparr>))"

subsection \<open>The write path\<close>

definition resolveWriteTarget :: "(bool \<times> gostring) nd" where
  "resolveWriteTarget n = (case raft n of
      NoRaft \<Rightarrow> (Inl (Errorf ''node has not been added to a cluster yet''), n)
    | Leader \<Rightarrow> (Inr (True, []), n)
    | Follower l \<Rightarrow> if l = [] then (Inl (Errorf ''not leader and no leader known''), n) else (Inr (False, l), n))"

text \<open>One entry through raft on the leader: its index and the \<^verbatim>\<open>ApplyResult\<close>'s value.\<close>

definition raft_Apply :: "env \<Rightarrow> byte \<Rightarrow> bytes \<Rightarrow> bytes \<Rightarrow> (nat \<times> bytes) nd" where
  "raft_Apply e op key value =
     bind_sto (lift_res (commit e (EncodeCommand op key value))) (\<lambda>index.
     bind_sto (on_store (Apply (lims e) \<lparr>Data = EncodeCommand op key value, AppendedAt = clock e\<rparr>)) (\<lambda>v.
     ret (index, v)))"

definition node_applyOp :: "env \<Rightarrow> byte \<Rightarrow> bytes \<Rightarrow> bytes \<Rightarrow> nat nd" where
  "node_applyOp e op key value = bind_sto (raft_Apply e op key value) (\<lambda>(index, _). ret index)"

definition forwardStatusOK :: byte where [simp]: "forwardStatusOK = 0x00"
definition forwardStatusErr :: byte where [simp]: "forwardStatusErr = 0x01"

definition ForwardProtocolID :: gostring where "ForwardProtocolID = str ''/libp2p-kv-raft/forward-set/1.0.0''"
definition ForwardConfirmProtocolID :: gostring where
  "ForwardConfirmProtocolID = str ''/libp2p-kv-raft/forward-confirm/1.0.0''"

definition decodeForwardResponse :: "bytes \<Rightarrow> nat res" where
  "decodeForwardResponse buf =
     (if length buf = 0 then Inl (Errorf ''forward set: empty response from leader'')
      else if buf ! 0 = forwardStatusOK then
        (if length buf \<noteq> 9 then Inl (Errorf ''forward set: malformed success response (%d bytes)'')
         else Inr (be_dec (slice 1 9 buf)))
      else if buf ! 0 = forwardStatusErr then Inl (Errorf ''forward set: %s'')
      else Inl (Errorf ''forward set: unrecognized response status byte 0x%02x''))"

definition writeForwardError :: "env \<Rightarrow> error \<Rightarrow> bytes" where
  "writeForwardError e err = forwardStatusErr # err_text e err"

definition writeForwardSuccess :: "nat \<Rightarrow> bytes" where
  "writeForwardSuccess index = forwardStatusOK # be64 index"

definition forwardOp :: "env \<Rightarrow> byte \<Rightarrow> gostring \<Rightarrow> bytes \<Rightarrow> bytes \<Rightarrow> nat nd" where
  "forwardOp e op leaderID key value =
     bind_sto (lift_res (wrap_err ''forward set to leader %s: %w''
       (dial e ForwardProtocolID leaderID (EncodeCommand op key value)))) (\<lambda>respBuf.
     lift_res (decodeForwardResponse respBuf))"

definition handleOpForward :: "env \<Rightarrow> byte \<Rightarrow> bytes \<Rightarrow> bytes \<Rightarrow> bool \<Rightarrow> nat nd" where
  "handleOpForward e op key value allowForward =
     bind_sto resolveWriteTarget (\<lambda>(isLeader, leaderID).
       if isLeader then node_applyOp e op key value
       else if \<not> allowForward then fail (Errorf ''not leader; current leader is %s (already forwarded once)'')
       else forwardOp e op leaderID key value)"

definition handleSetForward :: "env \<Rightarrow> bytes \<Rightarrow> bytes \<Rightarrow> bool \<Rightarrow> unit nd" where
  "handleSetForward e key value allowForward =
     bind_sto (handleOpForward e OpSet key value allowForward) (\<lambda>_. ret ())"

text \<open>
  The leader's end of a forwarded write: the bytes a stream carried in, the bytes it
  answers. The code does not look at who opened the stream.
\<close>

definition handleForwardSetStream :: "env \<Rightarrow> bytes \<Rightarrow> node \<Rightarrow> bytes \<times> node" where
  "handleForwardSetStream e buf n = (case DecodeCommand buf of
      Inl err \<Rightarrow> (writeForwardError e (Wrap ''forward set: decode command: %w'' err), n)
    | Inr (op, key, value) \<Rightarrow>
        if op \<noteq> OpSet \<and> op \<noteq> OpAppendCommandRequest \<and> op \<noteq> OpTxn
        then (writeForwardError e (Errorf ''forward set: expected OpSet, OpAppendCommandRequest, or OpTxn, got op %d''), n)
        else (case handleOpForward e op key value False n of
            (Inl err, n') \<Rightarrow> (writeForwardError e err, n')
          | (Inr index, n') \<Rightarrow> (writeForwardSuccess index, n')))"

definition isVoter :: "node \<Rightarrow> gostring \<Rightarrow> bool" where
  "isVoter n id' \<longleftrightarrow> (\<exists>srv \<in> set (servers n). srvID srv = id' \<and> srvSuffrage srv = Voter)"

subsection \<open>Voter-gated writes\<close>

text \<open>
  \<^verbatim>\<open>applyConfirm\<close> admits a joining server after an OpConfirm, and admitting a server makes
  further writes through the same function, though never an OpConfirm. The admission step is
  therefore a parameter here; \<open>handleConfirmForward\<close> in the membership theory ties the knot.
\<close>

definition applyConfirm_with :: "env \<Rightarrow> (bytes \<Rightarrow> unit nd) \<Rightarrow> byte \<Rightarrow> bytes \<Rightarrow> bytes \<Rightarrow> unit nd" where
  "applyConfirm_with e admit op key1 key2 =
     bind_sto (raft_Apply e op key1 key2) (\<lambda>_. if op = OpConfirm then admit key2 else ret ())"

definition forwardConfirm :: "env \<Rightarrow> gostring \<Rightarrow> byte \<Rightarrow> bytes \<Rightarrow> bytes \<Rightarrow> unit nd" where
  "forwardConfirm e leaderID op key1 key2 =
     bind_sto (lift_res (wrap_err ''forward confirm to leader %s: %w''
       (dial e ForwardConfirmProtocolID leaderID (EncodeCommand op key1 key2)))) (\<lambda>respBuf.
     if length respBuf > 0 then fail (Errorf ''forward confirm: %s'') else ret ())"

definition confirmForward_with :: "env \<Rightarrow> (bytes \<Rightarrow> unit nd) \<Rightarrow> byte \<Rightarrow> bytes \<Rightarrow> bytes \<Rightarrow> bool \<Rightarrow> unit nd" where
  "confirmForward_with e admit op key1 key2 allowForward =
     bind_sto resolveWriteTarget (\<lambda>(isLeader, leaderID).
       if isLeader then applyConfirm_with e admit op key1 key2
       else if \<not> allowForward then fail (Errorf ''not leader; current leader is %s (already forwarded once)'')
       else forwardConfirm e leaderID op key1 key2)"

subsection \<open>Equations on the leader\<close>

text \<open>A sound environment for the lemmas: the raft future commits what it is given.\<close>

definition commits :: "env \<Rightarrow> bool" where
  "commits e \<longleftrightarrow> (\<forall>cmd. \<not> isl (commit e cmd))"

lemma resolve_leader [simp]: "raft n = Leader \<Longrightarrow> bind_sto resolveWriteTarget f n = f (True, []) n"
  by (simp add: bind_sto_def resolveWriteTarget_def)

lemma resolve_follower [simp]:
  "raft n = Follower l \<Longrightarrow> l \<noteq> [] \<Longrightarrow> bind_sto resolveWriteTarget f n = f (False, l) n"
  by (simp add: bind_sto_def resolveWriteTarget_def)

lemma raft_Apply_leader:
  assumes "commits e" "length key + length value + 4 < 2 ^ 32"
    and "applyOp (lims e) (clock e) op key value (n_store n) = (r, st)"
  shows "\<exists>index. raft_Apply e op key value n =
    (case r of Inl x \<Rightarrow> Inl x | Inr v \<Rightarrow> Inr (index, v), n\<lparr>n_store := st\<rparr>)"
proof -
  have "\<not> isl (commit e (EncodeCommand op key value))" using assms(1) by (simp add: commits_def)
  then obtain index where i: "commit e (EncodeCommand op key value) = Inr index"
    by (cases "commit e (EncodeCommand op key value)") simp_all
  have "Apply (lims e) \<lparr>Data = EncodeCommand op key value, AppendedAt = clock e\<rparr> (n_store n) = (r, st)"
    using assms(3) Apply_Encode [OF assms(2)] by simp
  then show ?thesis
    by (intro exI [of _ index]) (simp add: raft_Apply_def i bind_sto_def on_store_def split: sum.split)
qed

lemma confirm_leader:
  assumes "raft n = Leader" "commits e" "length key1 + length key2 + 4 < 2 ^ 32" "op \<noteq> OpConfirm"
    and "applyOp (lims e) (clock e) op key1 key2 (n_store n) = (r, st)"
  shows "confirmForward_with e admit op key1 key2 allow n =
    (case r of Inl x \<Rightarrow> Inl x | Inr v \<Rightarrow> Inr (), n\<lparr>n_store := st\<rparr>)"
  using raft_Apply_leader [OF assms(2,3,5)] assms(1,4)
  by (auto simp: confirmForward_with_def applyConfirm_with_def bind_sto_def [of "raft_Apply e op key1 key2"] split: sum.split)

lemma set_leader:
  assumes "raft n = Leader" "commits e" "length key + length value + 4 < 2 ^ 32"
    and "applyOp (lims e) (clock e) OpSet key value (n_store n) = (r, st)"
  shows "handleSetForward e key value allow n =
    (case r of Inl x \<Rightarrow> Inl x | Inr v \<Rightarrow> Inr (), n\<lparr>n_store := st\<rparr>)"
proof -
  from raft_Apply_leader [OF assms(2,3,4)] obtain index where
    a: "raft_Apply e OpSet key value n = (case r of Inl x \<Rightarrow> Inl x | Inr v \<Rightarrow> Inr (index, v), n\<lparr>n_store := st\<rparr>)" by blast
  have "handleOpForward e OpSet key value allow n = node_applyOp e OpSet key value n"
    using assms(1) by (simp add: handleOpForward_def)
  also have "\<dots> = (case r of Inl x \<Rightarrow> Inl x | Inr v \<Rightarrow> Inr index, n\<lparr>n_store := st\<rparr>)"
    using a by (cases r) (simp_all add: node_applyOp_def bind_sto_def)
  finally show ?thesis by (cases r) (simp_all add: handleSetForward_def bind_sto_def)
qed

subsection \<open>A one-node cluster\<close>

text \<open>
  A concrete environment and node on which the hypotheses of the daemon's properties hold: a
  leader alone, whose entries always commit and whose other peers cannot be reached.
\<close>

definition solo_env :: env where
  "solo_env = \<lparr>lims = default_limits, clock = 100, commit = (\<lambda>_. Inr 1),
     add_server = (\<lambda>s ss. Inr (ss @ [s])),
     remove_server = (\<lambda>p ss. Inr (filter (\<lambda>s. srvID s \<noteq> p) ss, NoRaft)),
     dial = (\<lambda>_ _ _. Inl (Errorf ''no route'')), 
     peer_decode = (\<lambda>p. if p = [] then Inl (Errorf ''empty'') else Inr p), pub_extract = Inr, pub_raw = (\<lambda>_. Inr (replicate 32 7)),
     transfer_to = (\<lambda>l _. Follower l), join_json = (\<lambda>a sf. sf # a),
     join_unjson = (\<lambda>b. case b of [] \<Rightarrow> Inl (Errorf ''empty'') | sf # a \<Rightarrow> Inr (a, sf)),
     record_json = (\<lambda>r. Inr (recAuthor r)), record_unjson = (\<lambda>_. Inl (Errorf ''json'')), poke_json = (\<lambda>c i. Inr i),
     err_text = (\<lambda>_. str ''error''),
     wr = \<lparr>canonicalize = (\<lambda>_. Inr []), marshal = (\<lambda>_. Inr []), unmarshal = (\<lambda>_. Inl (Errorf ''capnp'')),
       build = (\<lambda>ev. Inr (new_msg ev)), ed25519_sign = (\<lambda>_ _. replicate 64 9), ed25519_verify = (\<lambda>_ _ s. s = replicate 64 9)\<rparr>,
     wallclock = 1000, rate_bucket = (\<lambda>_ _ _. True),
     host_addrs = [\<lparr>addrText = [47], addrPublic = True, addrLoopback = False\<rparr>],
     build_info = \<lparr>Commit = [], Dirty = False, BuildTime = [], GoVersion = [], Libp2pVersion = []\<rparr>,
     new_multiaddr = Inr, addr_info = (\<lambda>a. Inr (a, [a])), reg_open = Inr (), reg_resolve = (\<lambda>_. Inl (Errorf ''not found'')),
     boot_unjson = (\<lambda>_. Inl (Errorf ''json'')), connect = (\<lambda>_ _. Inl (Errorf ''no route'')), conn_reset = (\<lambda>_. False),
     conn_ip = (\<lambda>_. []), public_addr = (\<lambda>_. True), relay_reserved = False, confirmed_reachable = False,
     ring_create = (\<lambda>_. Inr ()), ring_open = (\<lambda>_. Inr ()), pages_left = 9, slots = (\<lambda>_. (Inr [], Inr [])),
     new_raft = Inr (Follower []), bootstrap = (\<lambda>s ss. if ss = [] then Inr [s] else Inl (Errorf ''bootstrapped'')),
     elected = Leader\<rparr>"

definition solo_node :: "table \<Rightarrow> node" where
  "solo_node t = \<lparr>peerID = [80], ed25519Pub = replicate 32 7, ed25519Priv = replicate 64 8, n_store = \<lparr>kv = t, faults = []\<rparr>, raft = Leader,
     servers = [\<lparr>srvID = [80], srvAddress = [47], srvSuffrage = Voter\<rparr>],
     registry = Map.empty, executeInbox = [], channels = newChannelTable, channelQuota = newQuotaTracker 0 0 0 0,
     joinRequestToken = [], RequireConfirmForJoin = False, RelayPeers = [], entropy = [Inr (replicate 16 1), Inr (replicate 16 2)]\<rparr>"

lemma solo_commits [simp]: "commits solo_env"
  by (simp add: commits_def solo_env_def)

lemma solo_lims [simp]: "lims solo_env = default_limits"
  by (simp add: solo_env_def)

subsection \<open>Properties\<close>

text \<open>
  The forwarding reply is unambiguous: the leader's success reply decodes to the very
  index it carries, and no error reply, whatever its text, is ever read as success.
\<close>

theorem forward_reply_unambiguous:
  "(index < 2 ^ 64 \<longrightarrow> decodeForwardResponse (writeForwardSuccess index) = Inr index) \<and>
   isl (decodeForwardResponse (writeForwardError e err))"
  by (simp add: decodeForwardResponse_def writeForwardSuccess_def writeForwardError_def slice_def)

theorem forward_reply_unambiguous_witness:
  "decodeForwardResponse (writeForwardSuccess 77) = Inr 77"
  using forward_reply_unambiguous [of 77] by simp

end
