(* ===== verification/Daemon_Members.thy ===== *)
theory Daemon_Members
  imports Daemon_Node
begin

text \<open>
  Cluster membership (src/pkg/daemon/daemon.go, forward.go, raft_lifecycle.go): admitting and
  removing servers, the member registry and the reserved groups that mirror raft's
  configuration, the records a bootstrapped cluster starts with, and the leader's stream
  handlers for voter-gated writes, leaves and kicks. The lemmas run these on a leader with a
  healthy disk and say exactly which records change.
\<close>

subsection \<open>Membership records\<close>

text \<open>
  Only an OpConfirm makes \<^verbatim>\<open>handleConfirmForward\<close> admit a server, so every caller below that
  passes another op uses \<open>opForward\<close>; \<open>handleConfirmForward_other\<close> shows the two agree.
\<close>

definition opForward :: "env \<Rightarrow> byte \<Rightarrow> bytes \<Rightarrow> bytes \<Rightarrow> bool \<Rightarrow> unit nd" where
  "opForward e = confirmForward_with e (\<lambda>_. ret ())"

definition setPeerGroup :: "env \<Rightarrow> bytes \<Rightarrow> bytes \<Rightarrow> unit nd" where
  "setPeerGroup e peer groupID =
     bind_sto (lift_res (PeerGroupKey peer groupID)) (\<lambda>key. handleSetForward e key [] True)"

definition deletePeerGroup :: "env \<Rightarrow> bytes \<Rightarrow> bytes \<Rightarrow> unit nd" where
  "deletePeerGroup e peer groupID =
     bind_sto (lift_res (PeerGroupKey peer groupID)) (\<lambda>key. opForward e OpDel key [] True)"

definition ensurePersonalGroup :: "env \<Rightarrow> gostring \<Rightarrow> unit nd" where
  "ensurePersonalGroup e peer = wrap_sto ''create personal group %q: %w''
     (opForward e OpSet (GroupKey peer) (EncodeGroupPayload peer False) True)"

definition syncMemberGroups :: "env \<Rightarrow> gostring \<Rightarrow> byte \<Rightarrow> unit nd" where
  "syncMemberGroups e peer role =
     bind_sto (ensurePersonalGroup e peer) (\<lambda>_.
     bind_sto (setPeerGroup e peer ReservedGroupCluster) (\<lambda>_.
     if role = RoleLearner
     then bind_sto (setPeerGroup e peer ReservedGroupLearner) (\<lambda>_. deletePeerGroup e peer ReservedGroupVoter)
     else bind_sto (setPeerGroup e peer ReservedGroupVoter) (\<lambda>_. deletePeerGroup e peer ReservedGroupLearner)))"

fun clearLoop :: "env \<Rightarrow> gostring \<Rightarrow> gostring list \<Rightarrow> unit nd" where
  "clearLoop e peer [] = ret ()"
| "clearLoop e peer (g # gs) = bind_sto (deletePeerGroup e peer g) (\<lambda>_. clearLoop e peer gs)"

definition clearMemberGroups :: "env \<Rightarrow> gostring \<Rightarrow> unit nd" where
  "clearMemberGroups e peer = clearLoop e peer [ReservedGroupCluster, ReservedGroupVoter, ReservedGroupLearner]"

definition recordClusterMember :: "env \<Rightarrow> gostring \<Rightarrow> byte \<Rightarrow> unit nd" where
  "recordClusterMember e peer role =
     bind_sto (lift_res (wrap_err ''decode peer id: %w'' (peer_decode e peer))) (\<lambda>pid.
     bind_sto (lift_res (wrap_err ''extract public key: %w'' (pub_extract e pid))) (\<lambda>pub.
     bind_sto (lift_res (wrap_err ''public key raw bytes: %w'' (pub_raw e pub))) (\<lambda>raw.
     handleSetForward e (ClusterMemberKey peer) (EncodeClusterMemberPayload raw role) True)))"

subsection \<open>Bootstrap records\<close>

fun reservedLoop :: "env \<Rightarrow> gostring list \<Rightarrow> unit nd" where
  "reservedLoop e [] = ret ()"
| "reservedLoop e (g # gs) =
     bind_sto (wrap_sto ''create reserved group %q: %w''
       (opForward e OpSet (GroupKey g) (EncodeGroupPayload g False) True)) (\<lambda>_. reservedLoop e gs)"

definition ensureReservedGroups :: "env \<Rightarrow> unit nd" where
  "ensureReservedGroups e = reservedLoop e
     [ReservedGroupCluster, ReservedGroupVoter, ReservedGroupLearner, ReservedGroupChannel,
      ReservedGroupRelay, ReservedGroupRemote, ReservedGroupExecute]"

definition ensureDefaultPublicCommand :: "env \<Rightarrow> unit nd" where
  "ensureDefaultPublicCommand e =
     bind_sto (wrap_sto ''create default public group: %w''
       (opForward e OpSet (GroupKey DefaultPublicGroupID) (EncodeGroupPayload DefaultPublicGroupID True) True)) (\<lambda>_.
     bind_sto (lift_res (wrap_err ''encode default public command: %w'' (EncodeCommandPayload DefaultPublicCommandID []))) (\<lambda>commandValue.
     bind_sto (wrap_sto ''create default public command: %w''
       (opForward e OpSet (CommandKey DefaultPublicCommandID) commandValue True)) (\<lambda>_.
     bind_sto (lift_res (wrap_err ''build default public group-command link key: %w''
       (GroupCommandKey DefaultPublicCommandID DefaultPublicGroupID))) (\<lambda>linkKey.
     wrap_sto ''link default public command to its group: %w'' (opForward e OpSet linkKey [] True)))))"

subsection \<open>Leadership\<close>

fun strings_Contains :: "gostring \<Rightarrow> gostring \<Rightarrow> bool" where
  "strings_Contains [] sub \<longleftrightarrow> sub = []"
| "strings_Contains (c # s) sub \<longleftrightarrow> prefix sub (c # s) \<or> strings_Contains s sub"

definition isRelayServerAddress :: "gostring \<Rightarrow> bool" where
  "isRelayServerAddress addr \<longleftrightarrow> strings_Contains addr (str ''/p2p-circuit'')"

fun serverAddr :: "gostring \<Rightarrow> server list \<Rightarrow> gostring" where
  "serverAddr self [] = []"
| "serverAddr self (srv # ss) = (if srvID srv = self then srvAddress srv else serverAddr self ss)"

fun firstStable :: "gostring \<Rightarrow> server list \<Rightarrow> (gostring \<times> gostring) option" where
  "firstStable self [] = None"
| "firstStable self (srv # ss) =
     (if srvID srv = self \<or> srvSuffrage srv \<noteq> Voter then firstStable self ss
      else if \<not> isRelayServerAddress (srvAddress srv) then Some (srvID srv, srvAddress srv)
      else firstStable self ss)"

definition preferredLeaderTransferTarget :: "server list \<Rightarrow> gostring \<Rightarrow> (gostring \<times> gostring) option" where
  "preferredLeaderTransferTarget cfg self =
     (if \<not> isRelayServerAddress (serverAddr self cfg) then None else firstStable self cfg)"

definition transferLeadershipToStableVoter :: "env \<Rightarrow> unit nd" where
  "transferLeadershipToStableVoter e n =
     (case preferredLeaderTransferTarget (servers n) (peerID n) of
        None \<Rightarrow> (Inr (), n)
      | Some (target, addr) \<Rightarrow> (Inr (), n\<lparr>raft := transfer_to e target addr\<rparr>))"

fun roleIn :: "gostring \<Rightarrow> server list \<Rightarrow> byte option" where
  "roleIn self [] = None"
| "roleIn self (srv # ss) =
     (if srvID srv = self then Some (if srvSuffrage srv = Nonvoter then RoleLearner else RoleVoter) else roleIn self ss)"

definition ownCurrentRole :: "node \<Rightarrow> byte option" where
  "ownCurrentRole n = (if raft n = Leader then Some RoleLeader else roleIn (peerID n) (servers n))"

text \<open>What one leadership observation does; logged errors are dropped.\<close>

definition watchLeadership :: "env \<Rightarrow> unit nd" where
  "watchLeadership e = bind_sto get_node (\<lambda>n.
     case ownCurrentRole n of
       None \<Rightarrow> ret ()
     | Some role \<Rightarrow>
         bind_sto (try_sto (recordClusterMember e (peerID n) role)) (\<lambda>_.
         bind_sto (if role \<noteq> RoleLearner then bind_sto (try_sto (syncMemberGroups e (peerID n) role)) (\<lambda>_. ret ()) else ret ()) (\<lambda>_.
         if role = RoleLeader then transferLeadershipToStableVoter e else ret ())))"

subsection \<open>Admitting and removing servers\<close>

text \<open>The reply line: \<^verbatim>\<open>OK\<close>, \<^verbatim>\<open>PENDING\<close> or \<^verbatim>\<open>ERR: ...\<close>.\<close>

datatype line = LineOK | LinePending | LineErr error

definition raft_AddServer :: "env \<Rightarrow> server \<Rightarrow> unit nd" where
  "raft_AddServer e srv n = (case add_server e srv (servers n) of
      Inl err \<Rightarrow> (Inl err, n) | Inr ss \<Rightarrow> (Inr (), n\<lparr>servers := ss\<rparr>))"

definition raft_RemoveServer :: "env \<Rightarrow> gostring \<Rightarrow> unit nd" where
  "raft_RemoveServer e peer n = (case remove_server e peer (servers n) of
      Inl err \<Rightarrow> (Inl err, n)
    | Inr (ss, r) \<Rightarrow> (Inr (), n\<lparr>servers := ss, raft := if peer = peerID n then r else raft n\<rparr>))"

definition addServerLine :: "env \<Rightarrow> gostring \<Rightarrow> gostring \<Rightarrow> suffrage \<Rightarrow> line nd" where
  "addServerLine e joinPeerID joinAddr sf =
     bind_sto (try_sto (raft_AddServer e \<lparr>srvID = joinPeerID, srvAddress = joinAddr, srvSuffrage = sf\<rparr>)) (\<lambda>r. case r of
       Inl err \<Rightarrow> ret (LineErr err)
     | Inr _ \<Rightarrow>
         let role = (if sf = Nonvoter then RoleLearner else RoleVoter) in
         bind_sto (try_sto (recordClusterMember e joinPeerID role)) (\<lambda>_.
         bind_sto (try_sto (syncMemberGroups e joinPeerID role)) (\<lambda>_.
         bind_sto (if sf \<noteq> Nonvoter then transferLeadershipToStableVoter e else ret ()) (\<lambda>_. ret LineOK))))"

definition admitClusterJoinIfConfirmed :: "env \<Rightarrow> bytes \<Rightarrow> unit nd" where
  "admitClusterJoinIfConfirmed e confirmedKey =
     (if length confirmedKey < 3 \<or> confirmedKey ! 0 \<noteq> SystemKeyPrefix \<or> confirmedKey ! 1 \<noteq> KindClusterJoin
      then ret ()
      else bind_sto (wrap_sto ''cluster join: read confirmed record for %s: %w'' (on_store (get confirmedKey))) (\<lambda>value.
        bind_sto (lift_res (wrap_err ''cluster join: decode confirmed record for %s: %w'' (join_unjson e value))) (\<lambda>(addr, sf).
        bind_sto (addServerLine e (drop 3 confirmedKey) addr (if sf = SuffrageLearner then Nonvoter else Voter)) (\<lambda>l.
        case l of LineErr _ \<Rightarrow> fail (Errorf ''cluster join: %s'') | _ \<Rightarrow> ret ()))))"

definition handleConfirmForward :: "env \<Rightarrow> byte \<Rightarrow> bytes \<Rightarrow> bytes \<Rightarrow> bool \<Rightarrow> unit nd" where
  "handleConfirmForward e = confirmForward_with e (admitClusterJoinIfConfirmed e)"

definition removeServerLine :: "env \<Rightarrow> gostring \<Rightarrow> line nd" where
  "removeServerLine e peer =
     bind_sto (try_sto (raft_RemoveServer e peer)) (\<lambda>r. case r of
       Inl err \<Rightarrow> ret (LineErr err)
     | Inr _ \<Rightarrow>
         bind_sto (try_sto (applyConfirm_with e (\<lambda>_. ret ()) OpDel (ClusterMemberKey peer) [])) (\<lambda>_.
         bind_sto (try_sto (clearMemberGroups e peer)) (\<lambda>_. ret LineOK)))"

definition line_result :: "line \<Rightarrow> unit res" where
  "line_result l = (case l of LineErr _ \<Rightarrow> Inl (Errorf ''%s'') | _ \<Rightarrow> Inr ())"

definition ForwardLeaveProtocolID :: gostring where
  "ForwardLeaveProtocolID = str ''/libp2p-kv-raft/forward-leave/1.0.0''"
definition ForwardKickProtocolID :: gostring where
  "ForwardKickProtocolID = str ''/libp2p-kv-raft/forward-kick/1.0.0''"

definition forwardLeave :: "env \<Rightarrow> gostring \<Rightarrow> unit nd" where
  "forwardLeave e leaderID =
     bind_sto (lift_res (wrap_err ''forward leave to leader %s: %w'' (dial e ForwardLeaveProtocolID leaderID []))) (\<lambda>respBuf.
     if length respBuf > 0 then fail (Errorf ''forward leave: %s'') else ret ())"

definition forwardKick :: "env \<Rightarrow> gostring \<Rightarrow> gostring \<Rightarrow> unit nd" where
  "forwardKick e leaderID target =
     bind_sto (lift_res (wrap_err ''forward kick to leader %s: %w'' (dial e ForwardKickProtocolID leaderID target))) (\<lambda>respBuf.
     if length respBuf > 0 then fail (Errorf ''forward kick: %s'') else ret ())"

definition leaveCluster :: "env \<Rightarrow> unit nd" where
  "leaveCluster e = bind_sto resolveWriteTarget (\<lambda>(isLeader, leaderID).
     if isLeader
     then bind_sto get_node (\<lambda>n. bind_sto (removeServerLine e (peerID n)) (\<lambda>l. lift_res (line_result l)))
     else forwardLeave e leaderID)"

definition kickPeer :: "env \<Rightarrow> gostring \<Rightarrow> unit nd" where
  "kickPeer e target =
     (if target = [] then fail (Errorf ''kick: missing target peer id'')
      else bind_sto resolveWriteTarget (\<lambda>(isLeader, leaderID).
        if isLeader then bind_sto (removeServerLine e target) (\<lambda>l. lift_res (line_result l))
        else forwardKick e leaderID target))"

subsection \<open>Stream handlers on the leader\<close>

text \<open>A handler's reply on the stream; the empty reply is success.\<close>

definition reply_of :: "env \<Rightarrow> unit res \<Rightarrow> bytes" where
  "reply_of e r = (case r of Inl err \<Rightarrow> err_text e err | Inr _ \<Rightarrow> [])"

definition handleForwardConfirmStream :: "env \<Rightarrow> gostring \<Rightarrow> bytes \<Rightarrow> node \<Rightarrow> bytes \<times> node" where
  "handleForwardConfirmStream e remote buf n =
     (if raft n = NoRaft \<or> \<not> isVoter n remote
      then (err_text e (Errorf ''forward confirm: %s is not a current raft voter''), n)
      else (case DecodeCommand buf of
          Inl _ \<Rightarrow> (err_text e (Errorf ''forward confirm: decode command: %v''), n)
        | Inr (op, key1, key2) \<Rightarrow>
            if op \<noteq> OpConfirm \<and> op \<noteq> OpDel \<and> op \<noteq> OpSet \<and> op \<noteq> OpCascadeDelete
            then (err_text e (Errorf ''forward confirm: unsupported op %d''), n)
            else (case handleConfirmForward e op key1 key2 False n of (r, n') \<Rightarrow> (reply_of e r, n'))))"

definition handleForwardLeaveStream :: "env \<Rightarrow> gostring \<Rightarrow> node \<Rightarrow> bytes \<times> node" where
  "handleForwardLeaveStream e remote n =
     (if raft n \<noteq> Leader then (err_text e (Errorf ''not leader; current leader is %s (already forwarded once)''), n)
      else (case bind_sto (removeServerLine e remote) (\<lambda>l. lift_res (line_result l)) n of (r, n') \<Rightarrow> (reply_of e r, n')))"

definition handleForwardKickStream :: "env \<Rightarrow> gostring \<Rightarrow> bytes \<Rightarrow> node \<Rightarrow> bytes \<times> node" where
  "handleForwardKickStream e remote target n =
     (if raft n = NoRaft \<or> \<not> isVoter n remote
      then (err_text e (Errorf ''forward kick: %s is not a current raft voter''), n)
      else if raft n \<noteq> Leader then (err_text e (Errorf ''not leader; current leader is %s (already forwarded once)''), n)
      else if target = [] then (err_text e (Errorf ''forward kick: missing target peer id''), n)
      else (case bind_sto (removeServerLine e target) (\<lambda>l. lift_res (line_result l)) n of (r, n') \<Rightarrow> (reply_of e r, n')))"

lemma handleConfirmForward_other:
  assumes "op \<noteq> OpConfirm"
  shows "handleConfirmForward e op k1 k2 allow = opForward e op k1 k2 allow"
proof -
  have "applyConfirm_with e admit op k1 k2 = applyConfirm_with e (\<lambda>_. ret ()) op k1 k2" for admit
    using assms by (simp add: applyConfirm_with_def)
  from this [of "admitClusterJoinIfConfirmed e"] show ?thesis
    by (simp only: handleConfirmForward_def opForward_def confirmForward_with_def)
qed

subsection \<open>Running on a leader with a healthy disk\<close>

text \<open>
  \<open>leads n c\<close>: the node leads and its healthy store holds \<open>c\<close>. \<open>runs m c c'\<close>: from any such
  node \<open>m\<close> succeeds, takes the contents from \<open>c\<close> to \<open>c'\<close> and changes nothing else of the node.
\<close>

definition leads :: "node \<Rightarrow> (bytes \<rightharpoonup> bytes) \<Rightarrow> bool" where
  "leads n c \<longleftrightarrow> raft n = Leader \<and> healthy (n_store n) \<and> wf_store (n_store n) \<and> contents (n_store n) = c"

definition runs :: "unit nd \<Rightarrow> (bytes \<rightharpoonup> bytes) \<Rightarrow> (bytes \<rightharpoonup> bytes) \<Rightarrow> bool" where
  "runs m c c' \<longleftrightarrow> (\<forall>n. leads n c \<longrightarrow> (\<exists>st. m n = (Inr (), n\<lparr>n_store := st\<rparr>) \<and> leads (n\<lparr>n_store := st\<rparr>) c'))"

lemma runs_bind:
  assumes "runs m c c'" "runs (f ()) c' c''"
  shows "runs (bind_sto m f) c c''"
  unfolding runs_def
proof (intro allI impI)
  fix n assume "leads n c"
  then obtain st where m: "m n = (Inr (), n\<lparr>n_store := st\<rparr>)" "leads (n\<lparr>n_store := st\<rparr>) c'"
    using assms(1) unfolding runs_def by blast
  then obtain st' where "f () (n\<lparr>n_store := st\<rparr>) = (Inr (), n\<lparr>n_store := st\<rparr>\<lparr>n_store := st'\<rparr>)"
    "leads (n\<lparr>n_store := st\<rparr>\<lparr>n_store := st'\<rparr>) c''"
    using assms(2) unfolding runs_def by blast
  with m(1) show "\<exists>st. bind_sto m f n = (Inr (), n\<lparr>n_store := st\<rparr>) \<and> leads (n\<lparr>n_store := st\<rparr>) c''"
    by (intro exI [of _ st']) (simp add: bind_sto_def)
qed

lemma runs_ret: "runs (ret ()) c c"
  unfolding runs_def by (intro allI impI exI) (auto intro: node.equality)

lemma runsE:
  assumes "runs m c c'" "leads n c"
  obtains st where "m n = (Inr (), n\<lparr>n_store := st\<rparr>)" "leads (n\<lparr>n_store := st\<rparr>) c'"
  using assms unfolding runs_def by blast

lemma runs_cong: "(\<And>n. leads n c \<Longrightarrow> m n = m' n) \<Longrightarrow> runs m c c' \<Longrightarrow> runs m' c c'"
  by (simp add: runs_def)

lemma runs_wrap:
  assumes "runs m c c'"
  shows "runs (wrap_sto w m) c c'"
proof (rule runs_cong [OF _ assms])
  fix n assume "leads n c"
  with assms obtain st where "m n = (Inr (), n\<lparr>n_store := st\<rparr>)" by (rule runsE)
  then show "m n = wrap_sto w m n" by (simp add: wrap_sto_def)
qed

lemma runs_try:
  assumes "runs m c c'" "runs (f (Inr ())) c' c''"
  shows "runs (bind_sto (try_sto m) f) c c''"
proof (rule runs_cong [OF _ runs_bind [where f = "\<lambda>_. f (Inr ())", OF assms]])
  fix n assume "leads n c"
  with assms(1) obtain st where "m n = (Inr (), n\<lparr>n_store := st\<rparr>)" by (rule runsE)
  then show "bind_sto m (\<lambda>_. f (Inr ())) n = bind_sto (try_sto m) f n" by (simp add: bind_sto_def try_sto_def)
qed

lemma runs_lift: "r = Inr x \<Longrightarrow> runs (f x) c c' \<Longrightarrow> runs (bind_sto (lift_res r) f) c c'"
  by (simp add: bind_sto_simps)

text \<open>An entry that the state machine accepts in contents \<open>c\<close> and that takes them to \<open>c'\<close>.\<close>

definition accepts :: "env \<Rightarrow> byte \<Rightarrow> bytes \<Rightarrow> bytes \<Rightarrow> (bytes \<rightharpoonup> bytes) \<Rightarrow> (bytes \<rightharpoonup> bytes) \<Rightarrow> bool" where
  "accepts e op key value c c' \<longleftrightarrow> length key + length value + 4 < 2 ^ 32 \<and>
     (\<forall>s. healthy s \<and> wf_store s \<and> contents s = c \<longrightarrow>
       (\<exists>v s'. applyOp (lims e) (clock e) op key value s = (Inr v, s') \<and> healthy s' \<and> wf_store s' \<and> contents s' = c'))"

lemma runs_set:
  assumes "commits e" "accepts e OpSet key value c c'"
  shows "runs (handleSetForward e key value allow) c c'"
  unfolding runs_def
proof (intro allI impI)
  fix n assume l: "leads n c"
  then obtain v s' where a: "applyOp (lims e) (clock e) OpSet key value (n_store n) = (Inr v, s')"
    "healthy s'" "wf_store s'" "contents s' = c'" and len: "length key + length value + 4 < 2 ^ 32"
    using assms(2) unfolding accepts_def leads_def by blast
  have "handleSetForward e key value allow n = (Inr (), n\<lparr>n_store := s'\<rparr>)"
    using set_leader [OF _ assms(1) len a(1)] l by (simp add: leads_def)
  with l a show "\<exists>st. handleSetForward e key value allow n = (Inr (), n\<lparr>n_store := st\<rparr>) \<and> leads (n\<lparr>n_store := st\<rparr>) c'"
    by (auto simp: leads_def)
qed

lemma runs_op:
  assumes "commits e" "accepts e op key value c c'" "op \<noteq> OpConfirm"
  shows "runs (opForward e op key value allow) c c'"
  unfolding runs_def
proof (intro allI impI)
  fix n assume l: "leads n c"
  then obtain v s' where a: "applyOp (lims e) (clock e) op key value (n_store n) = (Inr v, s')"
    "healthy s'" "wf_store s'" "contents s' = c'" and len: "length key + length value + 4 < 2 ^ 32"
    using assms(2) unfolding accepts_def leads_def by blast
  have "opForward e op key value allow n = (Inr (), n\<lparr>n_store := s'\<rparr>)"
    using confirm_leader [OF _ assms(1) len assms(3) a(1)] l by (simp add: leads_def opForward_def)
  with l a show "\<exists>st. opForward e op key value allow n = (Inr (), n\<lparr>n_store := st\<rparr>) \<and> leads (n\<lparr>n_store := st\<rparr>) c'"
    by (auto simp: leads_def)
qed

text \<open>When the state machine accepts a system record.\<close>

definition room :: "env \<Rightarrow> (bytes \<rightharpoonup> bytes) \<Rightarrow> bytes \<Rightarrow> bool" where
  "room e c key \<longleftrightarrow> c key \<noteq> None \<or> list_count c (take 3 key) < list_limit (lims e) (key ! 1)"

definition name_free :: "(bytes \<rightharpoonup> bytes) \<Rightarrow> bytes \<Rightarrow> gostring \<Rightarrow> bool" where
  "name_free c key name \<longleftrightarrow> (\<forall>k v. c k = Some v \<longrightarrow> group_range k \<longrightarrow> k \<noteq> key \<longrightarrow> v \<noteq> [] \<and> drop 1 v \<noteq> name)"

lemma accepts_del: "length key + 4 < 2 ^ 32 \<Longrightarrow> accepts e OpDel key [] c (c(key := None))"
  by (auto simp: accepts_def applyOp_def applyDel_def bind_del wf_store_def contents_def)

lemma accepts_set:
  assumes "length key + length value + 4 < 2 ^ 32"
    and "\<And>s. healthy s \<Longrightarrow> wf_store s \<Longrightarrow> contents s = c \<Longrightarrow> checkSystemListCap (lims e) key s = (Inr (), s) \<and>
      checkGroupNameUnique key value s = (Inr (), s) \<and> preserveCommandSpec key value s = (Inr value, s)"
  shows "accepts e OpSet key value c (c(key \<mapsto> value))"
  unfolding accepts_def
proof (intro conjI allI impI)
  fix s assume s: "healthy s \<and> wf_store s \<and> contents s = c"
  let ?s = "s\<lparr>kv := tbl_upsert key value (kv s)\<rparr>"
  have "applyOp (lims e) (clock e) OpSet key value s = (Inr [], ?s)"
    using s assms(2) [of s] by (simp add: applyOp_def applySet_def bind_sto_apply_Inr bind_set)
  moreover have "healthy ?s" "wf_store ?s" "contents ?s = c(key \<mapsto> value)"
    using s by (auto simp: wf_store_def contents_def)
  ultimately show "\<exists>v s'. applyOp (lims e) (clock e) OpSet key value s = (Inr v, s') \<and> healthy s' \<and> wf_store s' \<and>
      contents s' = c(key \<mapsto> value)" by blast
qed (rule assms(1))

lemma room_cap:
  "room e c (SystemKey kind st rest) \<Longrightarrow> healthy s \<Longrightarrow> wf_store s \<Longrightarrow> contents s = c \<Longrightarrow>
     checkSystemListCap (lims e) (SystemKey kind st rest) s = (Inr (), s)"
  using checkSystemListCap_healthy [of s "SystemKey kind st rest" "lims e"] by (auto simp: room_def)

lemma accepts_record:
  assumes "key = SystemKey kind st rest" "kind \<noteq> KindGroup" "kind \<noteq> KindCommand" "room e c key"
    and "length key + length value + 4 < 2 ^ 32"
  shows "accepts e OpSet key value c (c(key \<mapsto> value))"
proof (rule accepts_set [OF assms(5)], intro conjI)
  fix s assume s: "healthy s" "wf_store s" "contents s = c"
  show "checkSystemListCap (lims e) key s = (Inr (), s)" using room_cap assms(1,4) s by blast
  show "checkGroupNameUnique key value s = (Inr (), s)"
    by (rule checkGroupNameUnique_other) (use assms(1,2) in simp)
  show "preserveCommandSpec key value s = (Inr value, s)"
    by (rule preserveCommandSpec_other) (use assms(1,3) in simp)
qed

lemma accepts_group:
  assumes "room e c (GroupKey g)" "name_free c (GroupKey g) name"
    and "length (GroupKey g) + length name + 5 < 2 ^ 32"
  shows "accepts e OpSet (GroupKey g) (EncodeGroupPayload name p) c (c(GroupKey g \<mapsto> EncodeGroupPayload name p))"
proof (rule accepts_set, goal_cases)
  case 1
  show ?case using assms(3) by (simp add: EncodeGroupPayload_def)
next
  case (2 s)
  have key: "GroupKey g = SystemKey KindGroup 0 g" by (simp add: GroupKey_def)
  have free: "fst m = GroupKey g \<or> (\<exists>n q. DecodeGroupPayload (snd m) = Inr (n, q) \<and> n \<noteq> name)"
    if "m \<in> set (kv s)" "group_range (fst m)" for m
  proof (cases "fst m = GroupKey g")
    case False
    have "c (fst m) = Some (snd m)"
      using that(1) 2 tbl_ok_distinct [of "kv s"] by (auto simp: contents_def wf_store_def)
    with assms(2) that(2) False have "snd m \<noteq> [] \<and> drop 1 (snd m) \<noteq> name" unfolding name_free_def by blast
    then show ?thesis by (cases "snd m") (simp_all add: DecodeGroupPayload_def)
  qed simp
  have "nameClash (GroupKey g) name (filter (\<lambda>r. SystemKey KindGroup 0 [] \<le> fst r \<and> fst r \<le> pad_hi (SystemKey KindGroup 0 [])) (kv s)) = Inr ()"
    unfolding nameClash_Inr using free by (auto simp: group_range_def GroupKeyBounds_def keyListBounds_def Let_def)
  then have "checkGroupNameUnique (GroupKey g) (EncodeGroupPayload name p) s = (Inr (), s)"
    using checkGroupNameUnique_healthy [OF 2(1) key, of "EncodeGroupPayload name p"] by (simp add: codec_simps)
  moreover have "preserveCommandSpec (GroupKey g) (EncodeGroupPayload name p) s = (Inr (EncodeGroupPayload name p), s)"
    by (rule preserveCommandSpec_other) (simp add: key)
  moreover have "checkSystemListCap (lims e) (GroupKey g) s = (Inr (), s)"
    using assms(1) 2 unfolding key by (rule room_cap)
  ultimately show ?case by blast
qed

lemma accepts_new_command:
  assumes "room e c (CommandKey i)" "c (CommandKey i) = None" "EncodeCommandPayload name p = Inr v"
    and "length (CommandKey i) + length v + 4 < 2 ^ 32"
  shows "accepts e OpSet (CommandKey i) v c (c(CommandKey i \<mapsto> v))"
proof (rule accepts_set [OF assms(4)], intro conjI)
  fix s assume s: "healthy s" "wf_store s" "contents s = c"
  have key: "CommandKey i = SystemKey KindCommand 0 i" by (simp add: CommandKey_def)
  show "checkSystemListCap (lims e) (CommandKey i) s = (Inr (), s)" using assms(1) s unfolding key by (rule room_cap)
  show "checkGroupNameUnique (CommandKey i) v s = (Inr (), s)"
    by (rule checkGroupNameUnique_other) (simp add: key)
  show "preserveCommandSpec (CommandKey i) v s = (Inr v, s)"
    using s assms(2) DecodeSpec_v1 [OF assms(3)] unfolding key
    by (simp add: preserveCommandSpec_def bind_try_get)
qed

subsection \<open>Membership over abstract contents\<close>

lemma peer_in_group_upd:
  assumes "PeerGroupKey p g = Inr k"
  shows "peer_in_group (c(k \<mapsto> v)) q h \<longleftrightarrow> q = p \<and> h = g \<or> peer_in_group c q h"
    and "peer_in_group (c(k := None)) q h \<longleftrightarrow> peer_in_group c q h \<and> \<not> (q = p \<and> h = g)"
  using assms pg.mk_inj [OF assms, of q h] by (cases "PeerGroupKey q h"; auto simp: peer_in_group_def)+

lemma peer_in_group_other:
  "\<not> prefix AllPeerGroupsPrefix k \<Longrightarrow> peer_in_group (c(k := v)) q h \<longleftrightarrow> peer_in_group c q h"
  using pg.all_prefix [of q h k] by (cases "PeerGroupKey q h") (auto simp: peer_in_group_def)

lemma list_count_other: "\<not> prefix p k \<Longrightarrow> list_count (c(k := v)) p = list_count c p"
  unfolding list_count_def by (rule arg_cong [of _ _ card]) auto

lemma list_count_upd:
  assumes "finite (dom c)"
  shows "list_count (c(k \<mapsto> v)) p \<le> Suc (list_count c p)"
proof -
  have fin: "finite {x \<in> dom c. prefix p x}" using assms by simp
  have "card {x \<in> dom (c(k \<mapsto> v)). prefix p x} \<le> card (insert k {x \<in> dom c. prefix p x})"
    by (rule card_mono) (use fin in auto)
  also have "\<dots> \<le> Suc (card {x \<in> dom c. prefix p x})" using fin by (simp add: card_insert_if)
  finally show ?thesis by (simp add: list_count_def)
qed

lemma leads_finite: "leads n c \<Longrightarrow> finite (dom c)"
  by (auto simp: leads_def contents_def finite_dom_map_of)

lemma setPeerGroup_runs:
  assumes "commits e" "PeerGroupKey p g = Inr k" "room e c k" "length k + 4 < 2 ^ 32"
  shows "runs (setPeerGroup e p g) c (c(k \<mapsto> []))"
  unfolding setPeerGroup_def
  by (rule runs_lift [OF assms(2)], rule runs_set [OF assms(1)],
      rule accepts_record [OF relation_keys_system(2) [OF assms(2)] _ _ assms(3)]) (use assms(4) in simp_all)

lemma deletePeerGroup_runs:
  assumes "commits e" "PeerGroupKey p g = Inr k" "length k + 4 < 2 ^ 32"
  shows "runs (deletePeerGroup e p g) c (c(k := None))"
  unfolding deletePeerGroup_def
  by (rule runs_lift [OF assms(2)], rule runs_op [OF assms(1) accepts_del [OF assms(3)]]) simp

lemma peer_group_key_room:
  assumes "PeerGroupKey p g = Inr k" "list_count c [SystemKeyPrefix, KindPeerGroup, 0] < list_limit (lims e) KindPeerGroup"
  shows "room e c k"
  using assms(2) relation_keys_system(2) [OF assms(1)] by (simp add: room_def)

lemma peer_group_key_length:
  assumes "PeerGroupKey p g = Inr k" "length p \<le> 0xFFFF" "length g \<le> 7"
  shows "length k + 4 < 2 ^ 32"
  using assms(2,3) relation_keys_system(2) [OF assms(1)] by simp

lemma length_reserved [simp]:
  "length ReservedGroupCluster = 7" "length ReservedGroupVoter = 5" "length ReservedGroupLearner = 7"
  by (simp_all add: reserved_defs str_def)

lemma reserved_distinct [simp]:
  "ReservedGroupCluster \<noteq> ReservedGroupVoter" "ReservedGroupCluster \<noteq> ReservedGroupLearner" "ReservedGroupVoter \<noteq> ReservedGroupLearner"
  "ReservedGroupVoter \<noteq> ReservedGroupCluster" "ReservedGroupLearner \<noteq> ReservedGroupCluster" "ReservedGroupLearner \<noteq> ReservedGroupVoter"
  by (simp_all add: reserved_defs)

lemma syncMemberGroups_runs:
  assumes "commits e" "finite (dom c)" "length p \<le> 0xFFFF"
    and "room e c (GroupKey p)" "name_free c (GroupKey p) p"
    and "list_count c [SystemKeyPrefix, KindPeerGroup, 0] + 2 \<le> list_limit (lims e) KindPeerGroup"
    and "PeerGroupKey p ReservedGroupCluster = Inr kc"
    and "PeerGroupKey p (if role = RoleLearner then ReservedGroupLearner else ReservedGroupVoter) = Inr ka"
    and "PeerGroupKey p (if role = RoleLearner then ReservedGroupVoter else ReservedGroupLearner) = Inr kd"
  shows "runs (syncMemberGroups e p role) c
    (c(GroupKey p \<mapsto> EncodeGroupPayload p False, kc \<mapsto> [], ka \<mapsto> [], kd := None))"
proof -
  let ?c1 = "c(GroupKey p \<mapsto> EncodeGroupPayload p False)"
  let ?pg = "[SystemKeyPrefix, KindPeerGroup, 0]"
  have n1: "list_count ?c1 ?pg = list_count c ?pg"
    by (rule list_count_other) (simp add: GroupKey_def SystemKey_def)
  have n2: "list_count (?c1(kc \<mapsto> [])) ?pg \<le> Suc (list_count c ?pg)"
    using list_count_upd [of ?c1 kc "[]" ?pg] assms(2) n1 by simp
  have r1: "room e ?c1 kc" by (rule peer_group_key_room [OF assms(7)]) (use n1 assms(6) in simp)
  have r2: "room e (?c1(kc \<mapsto> [])) ka" by (rule peer_group_key_room [OF assms(8)]) (use n2 assms(6) in simp)
  have len: "length kc + 4 < 2 ^ 32" "length ka + 4 < 2 ^ 32" "length kd + 4 < 2 ^ 32"
    using peer_group_key_length [OF assms(7,3)] peer_group_key_length [OF assms(8,3)] peer_group_key_length [OF assms(9,3)]
    by (simp_all split: if_splits)
  have "runs (ensurePersonalGroup e p) c ?c1"
    unfolding ensurePersonalGroup_def
    by (rule runs_wrap, rule runs_op [OF assms(1) accepts_group [OF assms(4,5)]])
      (use assms(3) in \<open>simp_all add: GroupKey_def\<close>)
  moreover have "runs (setPeerGroup e p ReservedGroupCluster) ?c1 (?c1(kc \<mapsto> []))"
    by (rule setPeerGroup_runs [OF assms(1,7) r1 len(1)])
  moreover have "runs (setPeerGroup e p (if role = RoleLearner then ReservedGroupLearner else ReservedGroupVoter))
      (?c1(kc \<mapsto> [])) (?c1(kc \<mapsto> [], ka \<mapsto> []))"
    by (rule setPeerGroup_runs [OF assms(1,8) r2 len(2)])
  moreover have "runs (deletePeerGroup e p (if role = RoleLearner then ReservedGroupVoter else ReservedGroupLearner))
      (?c1(kc \<mapsto> [], ka \<mapsto> [])) (?c1(kc \<mapsto> [], ka \<mapsto> [], kd := None))"
    by (rule deletePeerGroup_runs [OF assms(1,9) len(3)])
  ultimately show ?thesis unfolding syncMemberGroups_def
    by (cases "role = RoleLearner") (auto intro!: runs_bind simp del: RoleLearner_def)
qed

lemma clearMemberGroups_runs:
  assumes "commits e" "length p \<le> 0xFFFF"
    and "PeerGroupKey p ReservedGroupCluster = Inr k1" "PeerGroupKey p ReservedGroupVoter = Inr k2"
    and "PeerGroupKey p ReservedGroupLearner = Inr k3"
  shows "runs (clearMemberGroups e p) c (c(k1 := None, k2 := None, k3 := None))"
proof -
  have len: "length k1 + 4 < 2 ^ 32" "length k2 + 4 < 2 ^ 32" "length k3 + 4 < 2 ^ 32"
    using peer_group_key_length [OF assms(3,2)] peer_group_key_length [OF assms(4,2)] peer_group_key_length [OF assms(5,2)]
    by simp_all
  show ?thesis unfolding clearMemberGroups_def clearLoop.simps
    by (intro runs_bind [OF deletePeerGroup_runs [OF assms(1,3) len(1)]] runs_bind [OF deletePeerGroup_runs [OF assms(1,4) len(2)]]
        runs_bind [OF deletePeerGroup_runs [OF assms(1,5) len(3)]] runs_ret)
qed

lemma applyConfirm_with_runs:
  assumes "commits e" "accepts e op key value c c'" "op \<noteq> OpConfirm"
  shows "runs (applyConfirm_with e (\<lambda>_. ret ()) op key value) c c'"
  by (rule runs_cong [OF _ runs_op [OF assms, of True]]) (simp add: opForward_def confirmForward_with_def leads_def)

subsection \<open>A bootstrapped cluster\<close>

text \<open>Every group is named by its own id, as the groups the daemon creates itself are.\<close>

definition own_names :: "(bytes \<rightharpoonup> bytes) \<Rightarrow> bool" where
  "own_names c \<longleftrightarrow> (\<forall>k v. c k = Some v \<longrightarrow> group_range k \<longrightarrow> (\<exists>g p. k = GroupKey g \<and> v = EncodeGroupPayload g p))"

lemma own_names_free: "own_names c \<Longrightarrow> name_free c (GroupKey g) g"
  unfolding own_names_def name_free_def by (fastforce simp: EncodeGroupPayload_def)

lemma own_names_upd: "own_names c \<Longrightarrow> own_names (c(GroupKey g \<mapsto> EncodeGroupPayload g p))"
  by (auto simp: own_names_def)

lemma own_names_other: "own_names c \<Longrightarrow> \<not> group_range k \<Longrightarrow> own_names (c(k := v))"
  by (auto simp: own_names_def)

definition put_group :: "bool \<Rightarrow> gostring \<Rightarrow> (bytes \<rightharpoonup> bytes) \<Rightarrow> (bytes \<rightharpoonup> bytes)" where
  "put_group p g c = c(GroupKey g \<mapsto> EncodeGroupPayload g p)"

lemma own_names_put [simp]: "own_names c \<Longrightarrow> own_names (put_group p g c)"
  unfolding put_group_def by (rule own_names_upd)

lemma finite_put [simp]: "finite (dom c) \<Longrightarrow> finite (dom (put_group p g c))"
  unfolding put_group_def by (simp only: dom_fun_upd) simp

lemma put_group_count:
  "finite (dom c) \<Longrightarrow> list_count (put_group p g c) pre \<le> Suc (list_count c pre)"
  unfolding put_group_def by (rule list_count_upd)

lemma put_group_runs:
  assumes "commits e" "own_names c" "length g \<le> 0xFFFF"
    and "list_count c [SystemKeyPrefix, KindGroup, 0] < list_limit (lims e) KindGroup"
  shows "runs (opForward e OpSet (GroupKey g) (EncodeGroupPayload g p) True) c (put_group p g c)"
proof -
  have "room e c (GroupKey g)" using assms(4) by (simp add: room_def GroupKey_def)
  moreover have "length (GroupKey g) + length g + 5 < 2 ^ 32" using assms(3) by (simp add: GroupKey_def)
  ultimately show ?thesis unfolding put_group_def
    by (intro runs_op [OF assms(1)] accepts_group own_names_free [OF assms(2)]) simp_all
qed

lemma reservedLoop_runs:
  assumes "commits e" "finite (dom c)" "own_names c" "\<forall>g \<in> set gs. length g \<le> 0xFFFF"
    and "list_count c [SystemKeyPrefix, KindGroup, 0] + length gs \<le> list_limit (lims e) KindGroup"
  shows "runs (reservedLoop e gs) c (fold (put_group False) gs c)"
  using assms(2-)
proof (induction gs arbitrary: c)
  case Nil
  then show ?case by (simp only: reservedLoop.simps fold_simps runs_ret)
next
  case (Cons g gs)
  have "runs (reservedLoop e gs) (put_group False g c) (fold (put_group False) gs (put_group False g c))"
    using Cons.prems put_group_count [of c False g "[SystemKeyPrefix, KindGroup, 0]"] by (intro Cons.IH) simp_all
  moreover have "runs (opForward e OpSet (GroupKey g) (EncodeGroupPayload g False) True) c (put_group False g c)"
    using Cons.prems by (intro put_group_runs [OF assms(1)]) simp_all
  ultimately show ?case unfolding reservedLoop.simps by (auto intro!: runs_bind [OF runs_wrap])
qed

definition reserved_ids :: "gostring list" where
  "reserved_ids = [ReservedGroupCluster, ReservedGroupVoter, ReservedGroupLearner, ReservedGroupChannel,
     ReservedGroupRelay, ReservedGroupRemote, ReservedGroupExecute]"

text \<open>The records of a fresh cluster.\<close>

definition fresh_contents :: "bytes \<rightharpoonup> bytes" where
  "fresh_contents = (put_group True DefaultPublicGroupID (fold (put_group False) reserved_ids Map.empty))
     (CommandKey DefaultPublicCommandID \<mapsto> be16 (length DefaultPublicCommandID) @ DefaultPublicCommandID,
      SystemKey KindGroupCommand 0 (be16 (length DefaultPublicCommandID) @ DefaultPublicCommandID @ DefaultPublicGroupID) \<mapsto> [])"

lemma put_group_apply: "put_group p g c k = (if k = GroupKey g then Some (EncodeGroupPayload g p) else c k)"
  by (simp add: put_group_def)

lemma fold_put_apply:
  "fold (put_group p) gs c k = (if \<exists>g \<in> set gs. k = GroupKey g then Some (EncodeGroupPayload (drop 3 k) p) else c k)"
  by (induction gs arbitrary: c) (auto simp: put_group_apply GroupKey_def)

lemma fold_put_inv:
  assumes "finite (dom c)" "own_names c"
  shows "finite (dom (fold (put_group p) gs c))" "own_names (fold (put_group p) gs c)"
    "list_count (fold (put_group p) gs c) pre \<le> list_count c pre + length gs"
proof -
  have "finite (dom (fold (put_group p) gs c)) \<and> own_names (fold (put_group p) gs c) \<and>
      list_count (fold (put_group p) gs c) pre \<le> list_count c pre + length gs"
    using assms
  proof (induction gs arbitrary: c)
    case (Cons g gs)
    from Cons.IH [of "put_group p g c"] finite_put [OF Cons.prems(1), of p g] own_names_put [OF Cons.prems(2), of p g]
      put_group_count [OF Cons.prems(1), of p g pre]
    show ?case by simp
  qed simp
  then show "finite (dom (fold (put_group p) gs c))" "own_names (fold (put_group p) gs c)"
    "list_count (fold (put_group p) gs c) pre \<le> list_count c pre + length gs" by blast+
qed

lemma list_count_empty: "(\<And>k. prefix pre k \<Longrightarrow> c k = None) \<Longrightarrow> list_count c pre = 0"
  by (simp add: list_count_def) (auto simp: dom_def intro: card_eq_0_iff [THEN iffD2])

lemma reserved_short: "\<forall>g \<in> set reserved_ids. length g \<le> 0xFFFF" "length reserved_ids = 7"
  "length DefaultPublicGroupID = 6" "length DefaultPublicCommandID = 13"
  by (simp_all add: reserved_ids_def reserved_defs DefaultPublicGroupID_def DefaultPublicCommandID_def str_def)

lemma default_list_limit [simp]:
  "list_limit default_limits KindGroup = 200" "list_limit default_limits KindCommand = 2000"
  "list_limit default_limits KindGroupCommand = 65000" "list_limit default_limits KindPeerGroup = 65000"
  "list_limit default_limits KindClusterMember = 65000"
  by (simp_all add: list_limit_def default_limits_def)

lemma bootstrap_runs:
  assumes "commits e" "lims e = default_limits"
  shows "runs (bind_sto (ensureReservedGroups e) (\<lambda>_. ensureDefaultPublicCommand e)) Map.empty fresh_contents"
proof -
  let ?c1 = "fold (put_group False) reserved_ids Map.empty"
  let ?c2 = "put_group True DefaultPublicGroupID ?c1"
  let ?ck = "CommandKey DefaultPublicCommandID"
  let ?v = "be16 (length DefaultPublicCommandID) @ DefaultPublicCommandID"
  let ?lk = "SystemKey KindGroupCommand 0 (be16 (length DefaultPublicCommandID) @ DefaultPublicCommandID @ DefaultPublicGroupID)"
  have e0: "own_names Map.empty" "finite (dom (Map.empty :: bytes \<rightharpoonup> bytes))"
    "list_count Map.empty pre = 0" for pre by (simp_all add: own_names_def list_count_def)
  note inv = fold_put_inv [OF e0(2,1), of False reserved_ids]
  have cnt: "list_count ?c1 [SystemKeyPrefix, KindGroup, 0] < list_limit (lims e) KindGroup"
    using inv(3) [of "[SystemKeyPrefix, KindGroup, 0]"] unfolding assms(2) default_list_limit(1) e0(3) reserved_short(2) by linarith
  have "runs (ensureReservedGroups e) Map.empty ?c1"
    unfolding ensureReservedGroups_def reserved_ids_def [symmetric]
    by (rule reservedLoop_runs [OF assms(1) e0(2,1) reserved_short(1)])
      (simp only: e0(3) reserved_short(2) assms(2) default_list_limit)
  moreover have "runs (opForward e OpSet (GroupKey DefaultPublicGroupID) (EncodeGroupPayload DefaultPublicGroupID True) True) ?c1 ?c2"
    by (rule put_group_runs [OF assms(1) inv(2) _ cnt]) (simp add: reserved_short)
  moreover have "runs (opForward e OpSet ?ck ?v True) ?c2 (?c2(?ck \<mapsto> ?v))"
  proof (rule runs_op [OF assms(1) accepts_new_command])
    have "?c2 k = None" if "prefix [0, 7, 0] k" for k
      using that by (auto simp: put_group_apply fold_put_apply GroupKey_def SystemKey_def)
    then have "list_count ?c2 [0, 7, 0] = 0" by (rule list_count_empty)
    then show "room e ?c2 ?ck"
      unfolding room_def by (simp add: CommandKey_def assms(2) list_limit_def default_limits_def)
    show "?c2 ?ck = None" by (simp add: put_group_apply fold_put_apply GroupKey_def CommandKey_def)
    show "EncodeCommandPayload DefaultPublicCommandID [] = Inr ?v" by (simp add: EncodeCommandPayload_Inr reserved_short)
  qed (simp_all add: CommandKey_def reserved_short)
  moreover have "runs (opForward e OpSet ?lk [] True) (?c2(?ck \<mapsto> ?v)) fresh_contents"
    unfolding fresh_contents_def
  proof (rule runs_op [OF assms(1) accepts_record [OF refl]])
    have "(?c2(?ck \<mapsto> ?v)) k = None" if "prefix [0, 8, 0] k" for k
      using that by (auto simp: put_group_apply fold_put_apply GroupKey_def CommandKey_def SystemKey_def)
    then have "list_count (?c2(?ck \<mapsto> ?v)) [0, 8, 0] = 0" by (rule list_count_empty)
    then show "room e (?c2(?ck \<mapsto> ?v)) ?lk"
      unfolding room_def by (simp add: assms(2) list_limit_def default_limits_def)
  qed (simp_all add: reserved_short)
  moreover have "GroupCommandKey DefaultPublicCommandID DefaultPublicGroupID = Inr ?lk"
    by (simp add: GroupCommandKey_def SystemKey_def reserved_short)
  moreover have "EncodeCommandPayload DefaultPublicCommandID [] = Inr ?v" by (simp add: EncodeCommandPayload_Inr reserved_short)
  ultimately show ?thesis unfolding ensureDefaultPublicCommand_def
    by (intro runs_bind runs_wrap runs_lift) (auto intro!: runs_bind runs_wrap runs_lift)
qed

lemma fresh_links: "command_in_group fresh_contents cmd g \<longleftrightarrow> cmd = DefaultPublicCommandID \<and> g = DefaultPublicGroupID"
proof -
  have lk: "GroupCommandKey DefaultPublicCommandID DefaultPublicGroupID = Inr (SystemKey KindGroupCommand 0
      (be16 (length DefaultPublicCommandID) @ DefaultPublicCommandID @ DefaultPublicGroupID))"
    by (simp add: GroupCommandKey_def SystemKey_def reserved_short)
  have other: "fresh_contents (SystemKey KindGroupCommand 0 r) \<noteq> None \<longleftrightarrow>
      SystemKey KindGroupCommand 0 r = SystemKey KindGroupCommand 0
        (be16 (length DefaultPublicCommandID) @ DefaultPublicCommandID @ DefaultPublicGroupID)" for r
    by (simp add: fresh_contents_def put_group_apply fold_put_apply GroupKey_def CommandKey_def)
  have "fresh_contents k \<noteq> None \<longleftrightarrow> cmd = DefaultPublicCommandID \<and> g = DefaultPublicGroupID"
    if "GroupCommandKey cmd g = Inr k" for k
    using relation_keys_system(1) [OF that] other gc.mk_inj [OF lk, of cmd g] that lk by metis
  then show ?thesis
    by (cases "GroupCommandKey cmd g") (use lk in \<open>auto simp: command_in_group_def\<close>)
qed

lemma fresh_members: "\<not> peer_in_group fresh_contents p g"
proof -
  have "fresh_contents (SystemKey KindPeerGroup 0 r) = None" for r
    by (simp add: fresh_contents_def put_group_apply fold_put_apply GroupKey_def CommandKey_def)
  then show ?thesis using relation_keys_system(2) by (auto simp: peer_in_group_def)
qed

lemma fresh_public: "group_public fresh_contents DefaultPublicGroupID"
  by (simp add: group_public_def fresh_contents_def put_group_apply EncodeGroupPayload_def GroupKey_def CommandKey_def)

lemma solo_leads: "tbl_ok t \<Longrightarrow> leads (solo_node t) (map_of t)"
  by (simp add: leads_def solo_node_def healthy_def wf_store_def contents_def)

subsection \<open>Properties\<close>

text \<open>
  C23. The reserved groups mirror raft roles: on a leader with room for the records,
  reconciling a peer succeeds, and afterwards the peer is in the cluster group and in
  exactly one of the voter and learner groups, by its role, while every other membership of
  this and of all other peers is what it was.
\<close>

theorem sync_groups_mirror_role:
  assumes "commits e" "leads n c" "length p \<le> 0xFFFF"
    and "room e c (GroupKey p)" "name_free c (GroupKey p) p"
    and "list_count c [SystemKeyPrefix, KindPeerGroup, 0] + 2 \<le> list_limit (lims e) KindPeerGroup"
  shows "\<exists>st. syncMemberGroups e p role n = (Inr (), n\<lparr>n_store := st\<rparr>) \<and>
    (\<forall>q g. peer_in_group (contents st) q g \<longleftrightarrow>
       (if q = p \<and> g = ReservedGroupCluster then True
        else if q = p \<and> g = ReservedGroupVoter then role \<noteq> RoleLearner
        else if q = p \<and> g = ReservedGroupLearner then role = RoleLearner
        else peer_in_group c q g))"
proof -
  let ?ga = "if role = RoleLearner then ReservedGroupLearner else ReservedGroupVoter"
  let ?gd = "if role = RoleLearner then ReservedGroupVoter else ReservedGroupLearner"
  obtain kc ka kd where k: "PeerGroupKey p ReservedGroupCluster = Inr kc" "PeerGroupKey p ?ga = Inr ka" "PeerGroupKey p ?gd = Inr kd"
    using pg.mk_total [OF assms(3)] by blast
  from syncMemberGroups_runs [OF assms(1) leads_finite [OF assms(2)] assms(3-6) k] obtain st where
    st: "syncMemberGroups e p role n = (Inr (), n\<lparr>n_store := st\<rparr>)"
      "contents st = c(GroupKey p \<mapsto> EncodeGroupPayload p False, kc \<mapsto> [], ka \<mapsto> [], kd := None)"
    using assms(2) by (elim runsE) (auto simp: leads_def)
  have "\<not> prefix AllPeerGroupsPrefix (GroupKey p)"
    by (simp add: AllPeerGroupsPrefix_def GroupKey_def SystemKey_def)
  then have "peer_in_group (contents st) q g \<longleftrightarrow>
      (q = p \<and> g = ?ga \<or> q = p \<and> g = ReservedGroupCluster \<or> peer_in_group c q g) \<and> \<not> (q = p \<and> g = ?gd)" for q g
    unfolding st(2) peer_in_group_upd [OF k(1)] peer_in_group_upd [OF k(2)] peer_in_group_upd [OF k(3)]
    by (simp add: peer_in_group_other del: RoleLearner_def)
  then show ?thesis using st(1)
    by (intro exI [of _ st] conjI allI) (auto simp del: RoleLearner_def)
qed

theorem sync_groups_mirror_role_witness:
  "\<exists>st. syncMemberGroups solo_env [65] RoleLearner (solo_node []) = (Inr (), (solo_node [])\<lparr>n_store := st\<rparr>) \<and>
     peer_in_group (contents st) [65] ReservedGroupLearner \<and> \<not> peer_in_group (contents st) [65] ReservedGroupVoter"
proof -
  have "leads (solo_node []) (map_of [])" by (rule solo_leads) (simp add: tbl_ok_def)
  from sync_groups_mirror_role [OF solo_commits this, of "[65]" RoleLearner] show ?thesis
    by (auto simp: room_def name_free_def list_count_def GroupKey_def list_limit_def default_limits_def)
qed

text \<open>
  C9. Kicking a peer removes its standing: on the leader the kick succeeds, the server is out
  of raft's configuration, its member record is gone and it is in none of the three
  raft-derived groups, while no other membership and no other record changes.
\<close>

theorem kick_removes_standing:
  assumes "commits e" "leads n c" "length p \<le> 0xFFFF" "p \<noteq> []" "p \<noteq> peerID n"
    and "remove_server e p (servers n) = Inr (ss, r)"
  shows "\<exists>st. kickPeer e p n = (Inr (), n\<lparr>servers := ss, n_store := st\<rparr>) \<and>
    contents st (ClusterMemberKey p) = None \<and>
    (\<forall>q g. peer_in_group (contents st) q g \<longleftrightarrow> peer_in_group c q g \<and> \<not> (q = p \<and> IsAutoManagedGroupID g)) \<and>
    (\<forall>k. k \<noteq> ClusterMemberKey p \<longrightarrow> \<not> prefix AllPeerGroupsPrefix k \<longrightarrow> contents st k = c k)"
proof -
  obtain k1 k2 k3 where k: "PeerGroupKey p ReservedGroupCluster = Inr k1" "PeerGroupKey p ReservedGroupVoter = Inr k2"
    "PeerGroupKey p ReservedGroupLearner = Inr k3"
    using pg.mk_total [OF assms(3)] by blast
  let ?m = "ClusterMemberKey p" and ?n = "n\<lparr>servers := ss\<rparr>"
  let ?run = "bind_sto (try_sto (applyConfirm_with e (\<lambda>_. ret ()) OpDel ?m [])) (\<lambda>_.
    bind_sto (try_sto (clearMemberGroups e p)) (\<lambda>_. ret ()))"
  have run: "runs ?run c (c(?m := None, k1 := None, k2 := None, k3 := None))"
    by (rule runs_try [OF _ runs_try [OF clearMemberGroups_runs [OF assms(1,3) k] runs_ret]],
        rule applyConfirm_with_runs [OF assms(1) accepts_del])
      (use assms(3) in \<open>simp_all add: ClusterMemberKey_def\<close>)
  have "leads ?n c" using assms(2) by (simp add: leads_def)
  from runsE [OF run this] obtain st where st: "?run ?n = (Inr (), ?n\<lparr>n_store := st\<rparr>)"
      and lst: "leads (?n\<lparr>n_store := st\<rparr>) (c(?m := None, k1 := None, k2 := None, k3 := None))" by blast
  have c': "contents st = c(?m := None, k1 := None, k2 := None, k3 := None)" using lst by (simp add: leads_def)
  have rm: "raft_RemoveServer e p n = (Inr (), ?n)"
    using assms(5,6) by (simp add: raft_RemoveServer_def)
  have "removeServerLine e p n = (Inr LineOK, ?n\<lparr>n_store := st\<rparr>)"
    using st unfolding removeServerLine_def
    by (simp add: rm bind_sto_def [of "try_sto (raft_RemoveServer e p)"] try_sto_def [of "raft_RemoveServer e p"])
      (auto simp: bind_sto_def try_sto_def split: prod.splits)
  then have kick: "kickPeer e p n = (Inr (), n\<lparr>servers := ss, n_store := st\<rparr>)"
    using assms(2,4) by (simp add: kickPeer_def leads_def bind_sto_def [of "removeServerLine e p"] line_result_def)
  have mk: "\<not> prefix AllPeerGroupsPrefix ?m" by (simp add: AllPeerGroupsPrefix_def ClusterMemberKey_def SystemKey_def)
  have km: "prefix AllPeerGroupsPrefix k1" "prefix AllPeerGroupsPrefix k2" "prefix AllPeerGroupsPrefix k3"
    using k pg.all_prefix by blast+
  have "contents st ?m = None" using mk km by (auto simp: c')
  moreover have "peer_in_group (contents st) q g \<longleftrightarrow> peer_in_group c q g \<and> \<not> (q = p \<and> IsAutoManagedGroupID g)" for q g
    unfolding c' peer_in_group_upd [OF k(1)] peer_in_group_upd [OF k(2)] peer_in_group_upd [OF k(3)]
      peer_in_group_other [OF mk] IsAutoManagedGroupID_def by auto
  moreover have "contents st k' = c k'" if "k' \<noteq> ?m" "\<not> prefix AllPeerGroupsPrefix k'" for k'
    using that km by (auto simp: c')
  ultimately show ?thesis using kick by blast
qed

theorem kick_removes_standing_witness:
  "\<exists>st. kickPeer solo_env [65] (solo_node [(SystemKey KindPeerGroup 0 ([0, 1, 65] @ ReservedGroupVoter), [])]) =
       (Inr (), (solo_node [])\<lparr>n_store := st\<rparr>) \<and> \<not> peer_in_group (contents st) [65] ReservedGroupVoter"
proof -
  let ?t = "[(SystemKey KindPeerGroup 0 ([0, 1, 65] @ ReservedGroupVoter), [])] :: table"
  have "leads (solo_node ?t) (map_of ?t)" by (rule solo_leads) (simp add: tbl_ok_def)
  from kick_removes_standing [OF solo_commits this, of "[65]" "servers (solo_node [])" NoRaft] show ?thesis
    by (auto simp: solo_node_def solo_env_def IsAutoManagedGroupID_def)
qed

text \<open>
  C24. Bootstrapping an empty store creates the seven reserved private groups and makes the
  default public command, and only it, available to everyone; no peer is a member of any
  group yet.
\<close>

theorem bootstrap_opens_public_command_only:
  assumes "commits e" "lims e = default_limits" "leads n Map.empty"
  shows "\<exists>st. bind_sto (ensureReservedGroups e) (\<lambda>_. ensureDefaultPublicCommand e) n = (Inr (), n\<lparr>n_store := st\<rparr>) \<and>
    (\<forall>g. IsReservedGroupID g \<longrightarrow> contents st (GroupKey g) = Some (EncodeGroupPayload g False)) \<and>
    (\<forall>cmd peer. permitted (contents st) cmd peer \<longleftrightarrow> cmd = DefaultPublicCommandID) \<and>
    (\<forall>peer g. \<not> peer_in_group (contents st) peer g)"
proof -
  from bootstrap_runs [OF assms(1,2)] assms(3) obtain st where
    st: "bind_sto (ensureReservedGroups e) (\<lambda>_. ensureDefaultPublicCommand e) n = (Inr (), n\<lparr>n_store := st\<rparr>)"
      "contents st = fresh_contents"
    by (elim runsE) (auto simp: leads_def)
  have "fresh_contents (GroupKey g) = Some (EncodeGroupPayload g False)" if "IsReservedGroupID g" for g
    using that
    by (auto simp: fresh_contents_def put_group_apply fold_put_apply GroupKey_def CommandKey_def IsReservedGroupID_def
        reserved_ids_def reserved_defs DefaultPublicGroupID_def)
  then show ?thesis using st fresh_public fresh_members
    by (auto simp: permitted_def fresh_links)
qed

theorem bootstrap_opens_public_command_only_witness:
  "\<exists>st. bind_sto (ensureReservedGroups solo_env) (\<lambda>_. ensureDefaultPublicCommand solo_env) (solo_node []) =
       (Inr (), (solo_node [])\<lparr>n_store := st\<rparr>) \<and>
     permitted (contents st) DefaultPublicCommandID [65] \<and> \<not> permitted (contents st) [1] [65]"
proof -
  have "leads (solo_node []) (map_of [])" by (rule solo_leads) (simp add: tbl_ok_def)
  then have "leads (solo_node []) Map.empty" by simp
  from bootstrap_opens_public_command_only [OF solo_commits solo_lims this] show ?thesis
    by (auto simp: DefaultPublicCommandID_def str_def)
qed

end
