(* ===== verification/Daemon_ACL.thy ===== *)
theory Daemon_ACL
  imports Daemon_Members
begin

text \<open>
  Who may do what on a node (src/pkg/daemon/acl.go): the caller's identity, group-based gates,
  the reserved key namespaces, the command-log carve-out that lets strangers submit public
  commands and read back their own results, and the relay service's filter. The rules at the
  end bound the keys a computation can change, whatever the disk and the network do.
\<close>

subsection \<open>Callers\<close>

text \<open>\<open>remotePeer\<close> is empty for a caller on the node's own machine.\<close>

record callerIdentity =
  verifyPub :: bytes
  remotePeer :: gostring

definition localCaller :: "node \<Rightarrow> callerIdentity" where
  "localCaller n = \<lparr>verifyPub = ed25519Pub n, remotePeer = []\<rparr>"

text \<open>The connection of a stream: the authenticated key, if any, with its raw bytes, and peer id.\<close>

record conn =
  connKey :: "bytes res option"
  connPeer :: gostring
  connIP :: gostring

definition remoteCaller :: "conn \<Rightarrow> callerIdentity res" where
  "remoteCaller s = (case connKey s of
      None \<Rightarrow> Inl (Errorf ''remote caller: connection has no authenticated public key'')
    | Some raw \<Rightarrow> bind_res (wrap_err ''remote caller: %w'' raw) (\<lambda>pub. Inr \<lparr>verifyPub = pub, remotePeer = connPeer s\<rparr>))"

definition requireVoter :: "callerIdentity \<Rightarrow> unit nd" where
  "requireVoter caller n =
     (if remotePeer caller = [] then (Inr (), n)
      else if raft n = NoRaft \<or> \<not> isVoter n (remotePeer caller)
      then (Inl (Errorf ''%s is not a current raft voter''), n)
      else (Inr (), n))"

text \<open>The reply to a failed request. It is an error only when not even an empty message can be built.\<close>

definition errorMsg :: "env \<Rightarrow> 16 word \<Rightarrow> error \<Rightarrow> msg res" where
  "errorMsg e i err =
     bind_res (case NewError (build (wr e)) (err_text e err) of
         Inr resp \<Rightarrow> Inr resp
       | Inl _ \<Rightarrow> NewError (build (wr e)) [])
     (\<lambda>resp. Inr (resp\<lparr>msgId := i\<rparr>))"

subsection \<open>Group gates\<close>

definition isInGroupSt :: "gostring \<Rightarrow> gostring \<Rightarrow> bool sto" where
  "isInGroupSt i groupID = (case PeerGroupKey i groupID of
      Inl _ \<Rightarrow> ret False
    | Inr key \<Rightarrow> bind_sto (try_sto (get key)) (\<lambda>r. ret (\<not> isl r)))"

definition isAuthorizedForGatedAccessSt :: "gostring \<Rightarrow> gostring \<Rightarrow> gostring \<Rightarrow> bool sto" where
  "isAuthorizedForGatedAccessSt selfPeerID i groupID =
     bind_sto (isInGroupSt i ReservedGroupCluster) (\<lambda>a. if a then ret True else
     bind_sto (isInGroupSt i groupID) (\<lambda>b. if b then ret True else
     isInGroupSt i selfPeerID))"

definition isAuthorizedForGatedAccess :: "gostring \<Rightarrow> gostring \<Rightarrow> bool nd" where
  "isAuthorizedForGatedAccess i groupID = bind_sto get_node (\<lambda>n.
     on_store (isAuthorizedForGatedAccessSt (peerID n) i groupID))"

definition isPeerIdentityGroupID :: "env \<Rightarrow> gostring \<Rightarrow> bool" where
  "isPeerIdentityGroupID e i \<longleftrightarrow> \<not> isl (peer_decode e i)"

definition rejectReservedKey :: "bytes \<Rightarrow> unit res" where
  "rejectReservedKey key =
     (if length key = 0 then Inr ()
      else if key ! 0 = SystemKeyPrefix then Inl (Errorf ''key namespace starting with 0x%02x is reserved for system use'')
      else if key ! 0 = LogKeyPrefix then Inl (Errorf ''key namespace starting with 0x%02x is reserved for logrecord use'')
      else Inr ())"

record relayACL =
  aclStore :: store
  aclSelf :: gostring
  aclQuota :: quotaTracker

definition relay_allow :: "env \<Rightarrow> gostring \<Rightarrow> gostring \<Rightarrow> relayACL \<Rightarrow> bool \<times> relayACL" where
  "relay_allow e p ip a =
     (case isAuthorizedForGatedAccessSt (aclSelf a) p ReservedGroupRelay (aclStore a) of
        (Inr True, st) \<Rightarrow>
          (case quota_allow (rate_bucket e) (wallclock e) p ip 1 (aclQuota a) of
             (ok, q) \<Rightarrow> (ok, a\<lparr>aclStore := st, aclQuota := q\<rparr>))
      | (_, st) \<Rightarrow> (False, a\<lparr>aclStore := st\<rparr>))"

definition AllowReserve :: "env \<Rightarrow> gostring \<Rightarrow> gostring \<Rightarrow> relayACL \<Rightarrow> bool \<times> relayACL" where
  "AllowReserve e p ip = relay_allow e p ip"

definition AllowConnect :: "env \<Rightarrow> gostring \<Rightarrow> gostring \<Rightarrow> gostring \<Rightarrow> relayACL \<Rightarrow> bool \<times> relayACL" where
  "AllowConnect e src ip dest = relay_allow e src ip"

subsection \<open>The command-log carve-out\<close>

definition logKindOfBound :: "bytes \<Rightarrow> gostring option" where
  "logKindOfBound key =
     (if length key < 3 \<or> key ! 0 \<noteq> LogKeyPrefix then None
      else if 3 + u16_at 1 key > length key then None
      else Some (slice 3 (3 + u16_at 1 key) key))"

definition isCommandLogReadableKind :: "gostring \<Rightarrow> gostring \<Rightarrow> bool nd" where
  "isCommandLogReadableKind kind callerID =
     (if kind = CommandExecLogKind then ret True
      else case ParseCommandRequestLogKind kind of
        Some commandID \<Rightarrow> bind_sto (try_sto (on_store (IsPermittedForCommand commandID callerID))) (\<lambda>r. ret (r = Inr True))
      | None \<Rightarrow> (case ParseCommandExecIndexKind kind of
          Some p \<Rightarrow> ret (p = callerID)
        | None \<Rightarrow> ret False))"

definition isCommandLogCarveOut :: "event \<Rightarrow> gostring \<Rightarrow> bool nd" where
  "isCommandLogCarveOut ev callerID = (case ev of
      Ev_logAppend k _ \<Rightarrow> (case k of
          Inl _ \<Rightarrow> ret False
        | Inr key \<Rightarrow> (case logKindOfBound key of
            None \<Rightarrow> ret False
          | Some kind \<Rightarrow> ret (ParseCommandRequestLogKind kind \<noteq> None)))
    | Ev_getFieldByKey k _ \<Rightarrow> (case k of
          Inl _ \<Rightarrow> ret False
        | Inr key \<Rightarrow> (case logKindOfBound key of
            None \<Rightarrow> ret False
          | Some kind \<Rightarrow> isCommandLogReadableKind kind callerID))
    | Ev_listRange s en _ _ \<Rightarrow> (case (s, en) of
          (Inr start, Inr end') \<Rightarrow> (case (logKindOfBound start, logKindOfBound end') of
              (Some startKind, Some endKind) \<Rightarrow>
                if startKind \<noteq> endKind then ret False else isCommandLogReadableKind startKind callerID
            | _ \<Rightarrow> ret False)
        | _ \<Rightarrow> ret False)
    | _ \<Rightarrow> ret False)"

subsection \<open>Which keys a computation can change\<close>

text \<open>
  \<open>agrees K c t\<close>: outside the keys \<open>K\<close> the table \<open>t\<close> holds \<open>c\<close>. \<open>touches K m\<close>: whatever the
  disk and the network do, \<open>m\<close> changes the local store at keys in \<open>K\<close> only.
\<close>

definition agrees :: "bytes set \<Rightarrow> (bytes \<rightharpoonup> bytes) \<Rightarrow> table \<Rightarrow> bool" where
  "agrees K c t \<longleftrightarrow> tbl_ok t \<and> (\<forall>k. k \<notin> K \<longrightarrow> map_of t k = c k)"

definition touches :: "bytes set \<Rightarrow> 'a nd \<Rightarrow> bool" where
  "touches K m \<longleftrightarrow> (\<forall>n. wf_store (n_store n) \<longrightarrow> wf_store (n_store (snd (m n))) \<and>
     (\<forall>k. k \<notin> K \<longrightarrow> contents (n_store (snd (m n))) k = contents (n_store n) k))"

lemma keeps_agrees_write:
  "k \<in> K \<Longrightarrow> keeps (agrees K c) (set_kv k v)" "k \<in> K \<Longrightarrow> keeps (agrees K c) (del k)"
  by (auto simp: set_kv_def del_def agrees_def intro!: keeps_exec)

lemma keeps_agrees_writes:
  "\<forall>x \<in> set ops. \<not> IsCompare x \<longrightarrow> Key x \<in> K \<Longrightarrow> keeps (agrees K c) (applyWrites ops)"
proof (induction ops)
  case (Cons x ops)
  show ?case
  proof (cases "IsCompare x")
    case True
    with Cons show ?thesis by simp
  next
    case False
    with Cons have "Key x \<in> K" "keeps (agrees K c) (applyWrites ops)" by simp_all
    then have "keeps (agrees K c) (if Op x = TxnOpSet then set_kv (Key x) (Value x) else del (Key x))"
      by (simp add: keeps_agrees_write)
    with False \<open>keeps (agrees K c) (applyWrites ops)\<close> show ?thesis
      by (simp only: applyWrites.simps if_False) (intro keeps_bind keeps_wrap)
  qed
qed (simp only: applyWrites.simps keeps_leaf)

lemma keeps_agrees_grant:
  "\<forall>g \<in> set gs. \<forall>key. PeerGroupKey peer g = Inr key \<longrightarrow> key \<in> K \<Longrightarrow> keeps (agrees K c) (grantLoop peer gs)"
proof (induction gs)
  case (Cons g gs)
  then have "keeps (agrees K c) (grantLoop peer gs)" by simp
  with Cons.prems show ?case
    by (simp only: grantLoop.simps) (intro keeps_bind_lift keeps_bind keeps_agrees_write, auto)
qed (simp only: grantLoop.simps keeps_leaf)

lemma keeps_agrees_set: "key \<in> K \<Longrightarrow> keeps (agrees K c) (applySet lm key value)"
  unfolding apply_defs by (intro keeps_intros check_keeps keeps_agrees_write)

lemma keeps_agrees_txn:
  assumes "\<And>ops x. DecodeTxnPayload value = Inr ops \<Longrightarrow> x \<in> set ops \<Longrightarrow> Key x \<in> K"
  shows "keeps (agrees K c) (applyTxn value)"
  unfolding applyTxn_def
proof (intro keeps_bind_lift keeps_intros check_keeps)
  fix ops assume "wrap_err ''kvfsm: txn: decode payload: %w'' (DecodeTxnPayload value) = Inr ops"
  then show "keeps (agrees K c) (applyWrites ops)" using assms by (intro keeps_agrees_writes) simp
qed

text \<open>The memberships the default public command grants.\<close>

definition grant_keys :: "bytes \<Rightarrow> bytes set" where
  "grant_keys peer = {key. PeerGroupKey peer ReservedGroupChannel = Inr key \<or> PeerGroupKey peer ReservedGroupRelay = Inr key}"

lemma keeps_agrees_append:
  assumes "key \<in> K" "\<And>a v. DecodeCommandRequestApplyPayload value = Inr (a, v) \<Longrightarrow> grant_keys a \<subseteq> K"
  shows "keeps (agrees K c) (applyAppendCommandRequest lm key value)"
  unfolding applyAppendCommandRequest_def
proof (intro keeps_bind_lift, clarsimp simp del: bind_sto_simps, intro keeps_bind_lift, clarsimp simp del: bind_sto_simps)
  fix a v kind u ts
  assume "DecodeCommandRequestApplyPayload value = Inr (a, v)"
  then have g: "grant_keys a \<subseteq> K" by (rule assms(2))
  have "keeps (agrees K c) (grantChannelRelayAccess a)"
    unfolding grantChannelRelayAccess_def using g by (intro keeps_agrees_grant) (auto simp: grant_keys_def)
  then show "keeps (agrees K c) (case ParseCommandRequestLogKind kind of
      None \<Rightarrow> fail (Errorf ''kvfsm: append command request: kind %q is not a command-request kind'')
    | Some commandID \<Rightarrow>
        bind_sto (wrap_sto ''kvfsm: append command request: acl check: %w'' (IsPermittedForCommand commandID a)) (\<lambda>permitted.
        if \<not> permitted then fail (Errorf ''kvfsm: %s is not permitted to submit command %s'')
        else bind_sto (checkSystemListCap lm key) (\<lambda>_.
          bind_sto (WithTx (bind_sto (set_kv key v) (\<lambda>_.
            if commandID = DefaultPublicCommandID
            then wrap_sto ''kvfsm: grant channel/relay access to %s: %w'' (grantChannelRelayAccess a)
            else ret ()))) (\<lambda>_. ret []))))"
    using assms(1) by (intro keeps_intros check_keeps keeps_agrees_write)
qed

named_theorems touch_rules \<open>rules that bound the keys a node computation changes\<close>

lemma touches_leaf [touch_rules]:
  "touches K (ret x)" "touches K (fail err)" "touches K (lift_res r)" "touches K get_node" "touches K rand_read"
  "touches K resolveWriteTarget" "touches K (requireVoter caller)" "touches K (Pair r)"
  by (simp_all add: touches_def get_node_def rand_read_def resolveWriteTarget_def requireVoter_def
      split: list.splits raft_state.splits)

lemma touches_set_node [touch_rules]: "(\<And>n. n_store (f n) = n_store n) \<Longrightarrow> touches K (set_node f)"
  by (simp add: touches_def set_node_def)

lemma touches_bindI:
  assumes "touches K m" "\<And>x n n'. m n = (Inr x, n') \<Longrightarrow> touches K (f x)"
  shows "touches K (bind_sto m f)"
  unfolding touches_def
proof (intro allI impI)
  fix n :: node assume w: "wf_store (n_store n)"
  obtain r n' where m: "m n = (r, n')" by fastforce
  have 1: "wf_store (n_store n')" "\<And>k. k \<notin> K \<Longrightarrow> contents (n_store n') k = contents (n_store n) k"
    using assms(1) w m unfolding touches_def by (metis snd_conv)+
  show "wf_store (n_store (snd (bind_sto m f n))) \<and>
    (\<forall>k. k \<notin> K \<longrightarrow> contents (n_store (snd (bind_sto m f n))) k = contents (n_store n) k)"
  proof (cases r)
    case (Inl err)
    with m 1 show ?thesis by (simp add: bind_sto_def)
  next
    case (Inr x)
    with m have "touches K (f x)" by (blast intro: assms(2))
    with Inr m 1 show ?thesis by (simp add: bind_sto_def touches_def)
  qed
qed

lemma touches_bind [touch_rules]: "touches K m \<Longrightarrow> (\<And>x. touches K (f x)) \<Longrightarrow> touches K (bind_sto m f)"
  by (rule touches_bindI)

lemma touches_bind_lift: "(\<And>x. r = Inr x \<Longrightarrow> touches K (f x)) \<Longrightarrow> touches K (bind_sto (lift_res r) f)"
  by (rule touches_bindI) (simp_all add: touch_rules)

lemma snd_try_nd: "snd (try_sto m n) = snd (m n)"
  by (simp add: try_sto_def split: prod.splits)

lemma snd_wrap_nd: "snd (wrap_sto w m n) = snd (m n)"
  by (simp add: wrap_sto_def split: prod.splits)

lemma touches_try [touch_rules]: "touches K m \<Longrightarrow> touches K (try_sto m)"
  by (simp add: touches_def snd_try_nd)

lemma touches_wrap [touch_rules]: "touches K m \<Longrightarrow> touches K (wrap_sto w m)"
  by (simp add: touches_def snd_wrap_nd)

lemma touches_branch [touch_rules]:
  "(b \<Longrightarrow> touches K m) \<Longrightarrow> (\<not> b \<Longrightarrow> touches K m') \<Longrightarrow> touches K (if b then m else m')"
  "(\<And>x y. touches K (f x y)) \<Longrightarrow> touches K (case p of (x, y) \<Rightarrow> f x y)"
  "touches K m \<Longrightarrow> (\<And>x. touches K (g x)) \<Longrightarrow> touches K (case o' of None \<Rightarrow> m | Some x \<Rightarrow> g x)"
  "(\<And>x. touches K (h x)) \<Longrightarrow> (\<And>x. touches K (g' x)) \<Longrightarrow> touches K (case r of Inl x \<Rightarrow> h x | Inr x \<Rightarrow> g' x)"
  by (simp_all split: prod.splits option.splits sum.splits)

lemma touches_on_store:
  assumes "\<And>c. keeps (agrees K c) m"
  shows "touches K (on_store m)"
  unfolding touches_def
proof (intro allI impI)
  fix n :: node assume "wf_store (n_store n)"
  then have "agrees K (contents (n_store n)) (kv (n_store n))" by (simp add: agrees_def wf_store_def contents_def)
  then have "agrees K (contents (n_store n)) (kv (snd (m (n_store n))))" using assms unfolding keeps_def by blast
  then show "wf_store (n_store (snd (on_store m n))) \<and>
    (\<forall>k. k \<notin> K \<longrightarrow> contents (n_store (snd (on_store m n))) k = contents (n_store n) k)"
    by (auto simp: on_store_def agrees_def wf_store_def contents_def split: prod.splits)
qed

lemma touches_read_only [touch_rules]: "read_only m \<Longrightarrow> touches K (on_store m)"
  by (rule touches_on_store) (rule read_only_keeps)

lemma touches_raft_Apply:
  assumes "length key + length value + 4 < 2 ^ 32" "\<And>c. keeps (agrees K c) (applyOp (lims e) (clock e) op key value)"
  shows "touches K (raft_Apply e op key value)"
proof -
  have "Apply (lims e) \<lparr>Data = EncodeCommand op key value, AppendedAt = clock e\<rparr> = applyOp (lims e) (clock e) op key value"
    by (rule ext) (simp add: Apply_Encode [OF assms(1)])
  then show ?thesis unfolding raft_Apply_def using assms(2) by (intro touch_rules touches_on_store) simp
qed

lemma touches_forward [touch_rules]: "touches K (forwardOp e op l key value)"
  unfolding forwardOp_def by (intro touch_rules)

lemma touches_handleOpForward:
  assumes "length key + length value + 4 < 2 ^ 32" "\<And>c. keeps (agrees K c) (applyOp (lims e) (clock e) op key value)"
  shows "touches K (handleOpForward e op key value allow)"
  unfolding handleOpForward_def node_applyOp_def
  using touches_raft_Apply [OF assms] by (intro touch_rules)

lemma touches_handleSetForward:
  assumes "length key + length value + 4 < 2 ^ 32" "key \<in> K"
  shows "touches K (handleSetForward e key value allow)"
  unfolding handleSetForward_def
  using assms by (intro touch_rules touches_handleOpForward) (simp_all add: applyOp_def keeps_agrees_set)

lemma read_only_gates [sto_rules]:
  "read_only (isInGroupSt i g)" "read_only (isAuthorizedForGatedAccessSt self i g)"
proof -
  show 1: "read_only (isInGroupSt i g)" for i g
    unfolding isInGroupSt_def by (intro read_only_intros)
  show "read_only (isAuthorizedForGatedAccessSt self i g)"
    unfolding isAuthorizedForGatedAccessSt_def by (intro read_only_intros 1)
qed

lemma touches_gates [touch_rules]:
  "touches K (isAuthorizedForGatedAccess i g)" "touches K (isCommandLogReadableKind kind i)"
  "touches K (isCommandLogCarveOut ev i)"
proof -
  show "touches K (isAuthorizedForGatedAccess i g)"
    unfolding isAuthorizedForGatedAccess_def by (intro touch_rules read_only_gates)
  show 1: "touches K (isCommandLogReadableKind kind i)" for kind
    unfolding isCommandLogReadableKind_def by (intro touch_rules read_only_checks)
  show "touches K (isCommandLogCarveOut ev i)"
    unfolding isCommandLogCarveOut_def using 1 by (cases ev) (simp_all add: touch_rules split: sum.splits option.splits)
qed

subsection \<open>Which fields a computation leaves alone\<close>

text \<open>\<open>preserves f m\<close>: whatever happens, \<open>m\<close> leaves the node's field \<open>f\<close> as it was.\<close>

definition preserves :: "(node \<Rightarrow> 'f) \<Rightarrow> 'a nd \<Rightarrow> bool" where
  "preserves f m \<longleftrightarrow> (\<forall>n. f (snd (m n)) = f n)"

definition store_free :: "(node \<Rightarrow> 'f) \<Rightarrow> bool" where
  "store_free f \<longleftrightarrow> (\<forall>n st. f (n\<lparr>n_store := st\<rparr>) = f n)"

named_theorems pres_rules \<open>rules that show which fields of a node a computation leaves alone\<close>

lemma store_free_fields [simp]:
  "store_free peerID" "store_free raft" "store_free servers" "store_free registry" "store_free joinRequestToken"
  "store_free RequireConfirmForJoin" "store_free executeInbox" "store_free channels" "store_free entropy"
  by (simp_all add: store_free_def)

lemma preserves_leaf [pres_rules]:
  "preserves f (ret x)" "preserves f (fail err)" "preserves f (lift_res r)" "preserves f get_node"
  "preserves f resolveWriteTarget" "preserves f (requireVoter caller)" "preserves f (Pair r)"
  by (simp_all add: preserves_def get_node_def resolveWriteTarget_def requireVoter_def split: raft_state.splits)

lemma preserves_set_node: "(\<And>n. f (g n) = f n) \<Longrightarrow> preserves f (set_node g)"
  by (simp add: preserves_def set_node_def)

lemma preserves_bind [pres_rules]:
  assumes "preserves f m" "\<And>x. preserves f (k x)"
  shows "preserves f (bind_sto m k)"
  unfolding preserves_def
proof
  fix n
  obtain r n' where m: "m n = (r, n')" by fastforce
  then have "f n' = f n" using assms(1) by (auto simp: preserves_def dest: spec [of _ n])
  with m assms(2) show "f (snd (bind_sto m k n)) = f n" by (cases r) (simp_all add: bind_sto_def preserves_def)
qed

lemma preserves_try [pres_rules]: "preserves f m \<Longrightarrow> preserves f (try_sto m)"
  by (simp add: preserves_def snd_try_nd)

lemma preserves_wrap [pres_rules]: "preserves f m \<Longrightarrow> preserves f (wrap_sto w m)"
  by (simp add: preserves_def snd_wrap_nd)

lemma preserves_branch [pres_rules]:
  "(b \<Longrightarrow> preserves f m) \<Longrightarrow> (\<not> b \<Longrightarrow> preserves f m') \<Longrightarrow> preserves f (if b then m else m')"
  "(\<And>x y. preserves f (h2 x y)) \<Longrightarrow> preserves f (case p of (x, y) \<Rightarrow> h2 x y)"
  "preserves f m \<Longrightarrow> (\<And>x. preserves f (g x)) \<Longrightarrow> preserves f (case o' of None \<Rightarrow> m | Some x \<Rightarrow> g x)"
  "(\<And>x. preserves f (h x)) \<Longrightarrow> (\<And>x. preserves f (g' x)) \<Longrightarrow> preserves f (case r of Inl x \<Rightarrow> h x | Inr x \<Rightarrow> g' x)"
  by (simp_all split: prod.splits option.splits sum.splits)

lemma preserves_on_store [pres_rules]: "store_free f \<Longrightarrow> preserves f (on_store m)"
  by (simp add: preserves_def on_store_def store_free_def split: prod.splits)

lemma preserves_writes [pres_rules]:
  assumes "store_free f"
  shows "preserves f (raft_Apply e op key value)" "preserves f (handleOpForward e op key value allow)"
    "preserves f (handleSetForward e key value allow)" "preserves f (opForward e op key value allow)"
proof -
  show 1: "preserves f (raft_Apply e op key value)" for op key "value"
    unfolding raft_Apply_def using assms by (intro pres_rules)
  show 2: "preserves f (handleOpForward e op key value allow)" for op key "value" allow
    unfolding handleOpForward_def node_applyOp_def forwardOp_def using 1 by (intro pres_rules)
  show "preserves f (handleSetForward e key value allow)"
    unfolding handleSetForward_def using 2 by (intro pres_rules)
  show "preserves f (opForward e op key value allow)"
    unfolding opForward_def confirmForward_with_def applyConfirm_with_def forwardConfirm_def using 1 by (intro pres_rules)
qed

lemma preserves_members [pres_rules]:
  assumes "store_free f"
  shows "preserves f (syncMemberGroups e p role)" "preserves f (recordClusterMember e p role)"
    "preserves f (ensureReservedGroups e)" "preserves f (ensureDefaultPublicCommand e)"
proof -
  note w = preserves_writes [OF assms]
  show "preserves f (syncMemberGroups e p role)"
    unfolding syncMemberGroups_def ensurePersonalGroup_def setPeerGroup_def deletePeerGroup_def by (intro pres_rules w)
  show "preserves f (recordClusterMember e p role)"
    unfolding recordClusterMember_def by (intro pres_rules w)
  have "preserves f (reservedLoop e gs)" for gs
    by (induction gs) (simp_all only: reservedLoop.simps, (intro pres_rules w | assumption)+)
  then show "preserves f (ensureReservedGroups e)" unfolding ensureReservedGroups_def .
  show "preserves f (ensureDefaultPublicCommand e)"
    unfolding ensureDefaultPublicCommand_def by (intro pres_rules w)
qed

text \<open>The keys the membership records of a peer use.\<close>

definition member_keys :: "gostring \<Rightarrow> bytes set" where
  "member_keys p = insert (ClusterMemberKey p) (insert (GroupKey p) {k. \<exists>g. PeerGroupKey p g = Inr k})"

text \<open>Raw public keys are short; an Ed25519 key has 32 bytes.\<close>

definition short_keys :: "env \<Rightarrow> bool" where
  "short_keys e \<longleftrightarrow> (\<forall>pub raw. pub_raw e pub = Inr raw \<longrightarrow> length raw \<le> 0xFFFF)"

lemma touches_opForward:
  assumes "length key1 + length key2 + 4 < 2 ^ 32" "\<And>c. keeps (agrees K c) (applyOp (lims e) (clock e) op key1 key2)"
  shows "touches K (opForward e op key1 key2 allow)"
  unfolding opForward_def confirmForward_with_def applyConfirm_with_def forwardConfirm_def
  using touches_raft_Apply [OF assms] by (intro touch_rules)

lemma keeps_agrees_del: "key \<in> K \<Longrightarrow> keeps (agrees K c) (applyDel key)"
  unfolding applyDel_def by (intro keeps_intros keeps_agrees_write)

lemma touches_members:
  assumes "length p \<le> 0xFFFF" "member_keys p \<subseteq> K"
  shows "touches K (syncMemberGroups e p role)"
    and "short_keys e \<Longrightarrow> touches K (recordClusterMember e p role)"
proof -
  have len: "length k + 4 < 2 ^ 32" if "PeerGroupKey p g = Inr k" "length g \<le> 0xFFFF" for g k
    using that assms(1) by (auto simp: PeerGroupKey_def split: if_splits)
  have "touches K (setPeerGroup e p g)" "touches K (deletePeerGroup e p g)" if "length g \<le> 0xFFFF" for g
    unfolding setPeerGroup_def deletePeerGroup_def using assms(2) len that
    by (intro touches_bind_lift touches_handleSetForward touches_opForward; force simp: member_keys_def applyOp_def keeps_agrees_del)+
  moreover have "touches K (ensurePersonalGroup e p)"
    unfolding ensurePersonalGroup_def using assms
    by (intro touch_rules touches_opForward)
      (auto simp: GroupKey_def EncodeGroupPayload_def applyOp_def member_keys_def intro!: keeps_agrees_set)
  ultimately show "touches K (syncMemberGroups e p role)"
    unfolding syncMemberGroups_def
    by (intro touch_rules) (simp_all add: ReservedGroupCluster_def ReservedGroupVoter_def ReservedGroupLearner_def)
  show "touches K (recordClusterMember e p role)" if "short_keys e"
    unfolding recordClusterMember_def using that assms
    by (intro touches_bind_lift touches_handleSetForward)
      (fastforce simp: ClusterMemberKey_def EncodeClusterMemberPayload_def member_keys_def short_keys_def)+
qed

subsection \<open>The gates over abstract contents\<close>

definition has_standing :: "(bytes \<rightharpoonup> bytes) \<Rightarrow> gostring \<Rightarrow> gostring \<Rightarrow> gostring \<Rightarrow> bool" where
  "has_standing c self i g \<longleftrightarrow>
     peer_in_group c i ReservedGroupCluster \<or> peer_in_group c i g \<or> peer_in_group c i self"

lemma isInGroupSt_healthy: "healthy s \<Longrightarrow> isInGroupSt i g s = (Inr (peer_in_group (contents s) i g), s)"
  by (cases "PeerGroupKey i g") (auto simp: isInGroupSt_def bind_try_get peer_in_group_def lookup_res_def split: option.splits)

lemma on_store_same: "m (n_store n) = (r, n_store n) \<Longrightarrow> on_store m n = (r, n)"
  by (simp add: on_store_def)

lemma isAuthorized_healthy:
  assumes "healthy (n_store n)"
  shows "isAuthorizedForGatedAccess i g n = (Inr (has_standing (contents (n_store n)) (peerID n) i g), n)"
proof -
  have "isAuthorizedForGatedAccessSt (peerID n) i g (n_store n) =
    (Inr (has_standing (contents (n_store n)) (peerID n) i g), n_store n)"
    using assms by (simp add: isAuthorizedForGatedAccessSt_def bind_sto_apply_Inr [OF isInGroupSt_healthy]
        isInGroupSt_healthy has_standing_def)
  then show ?thesis by (simp add: isAuthorizedForGatedAccess_def bind_sto_def get_node_def on_store_same)
qed

lemma isInGroupSt_any:
  obtains b s' where "isInGroupSt i g s = (Inr b, s')" "kv s' = kv s" "b \<longrightarrow> peer_in_group (contents s) i g"
proof (cases "PeerGroupKey i g")
  case (Inl x)
  then show thesis using that [of False s] by (simp add: isInGroupSt_def)
next
  case (Inr key)
  obtain r s' where r: "get key s = (r, s')" by fastforce
  have "kv s' = kv s" using read_only_ops(1) [of key] r unfolding read_only_def by (metis snd_conv)
  moreover have "\<not> isl r \<longrightarrow> peer_in_group (contents s) i g"
    using r Inr by (cases r) (auto simp: peer_in_group_def contents_def dest: get_Inr)
  ultimately show thesis
    using that [of "\<not> isl r" s'] r Inr by (simp add: isInGroupSt_def bind_sto_def try_sto_def)
qed

lemma isAuthorized_any:
  obtains b s' where "isAuthorizedForGatedAccess i g n = (Inr b, n\<lparr>n_store := s'\<rparr>)" "kv s' = kv (n_store n)"
    "b \<longrightarrow> has_standing (contents (n_store n)) (peerID n) i g"
proof -
  obtain b1 s1 where 1: "isInGroupSt i ReservedGroupCluster (n_store n) = (Inr b1, s1)" "kv s1 = kv (n_store n)"
    "b1 \<longrightarrow> peer_in_group (contents (n_store n)) i ReservedGroupCluster" by (rule isInGroupSt_any)
  obtain b2 s2 where 2: "isInGroupSt i g s1 = (Inr b2, s2)" "kv s2 = kv s1" "b2 \<longrightarrow> peer_in_group (contents s1) i g"
    by (rule isInGroupSt_any)
  obtain b3 s3 where 3: "isInGroupSt i (peerID n) s2 = (Inr b3, s3)" "kv s3 = kv s2" "b3 \<longrightarrow> peer_in_group (contents s2) i (peerID n)"
    by (rule isInGroupSt_any)
  have "contents s1 = contents (n_store n)" "contents s2 = contents (n_store n)" using 1(2) 2(2) by (simp_all add: contents_def)
  with 1 2 3 show thesis
    using that [of "b1 \<or> b2 \<or> b3" "if b1 then s1 else if b2 then s2 else s3"]
    by (auto simp: isAuthorizedForGatedAccess_def isAuthorizedForGatedAccessSt_def has_standing_def bind_sto_def get_node_def on_store_def)
qed

text \<open>What the carve-out lets a stranger read: results, requests it may submit, its own index.\<close>

definition readable_kind :: "(bytes \<rightharpoonup> bytes) \<Rightarrow> gostring \<Rightarrow> gostring \<Rightarrow> bool" where
  "readable_kind c caller kind \<longleftrightarrow> kind = CommandExecLogKind \<or>
     (\<exists>cmd. kind = CommandRequestLogKind cmd \<and> permitted c cmd caller) \<or> kind = CommandExecIndexKind caller"

lemma logKindOfBound_prefix:
  "logKindOfBound key = Some kind \<longleftrightarrow> length kind \<le> 0xFFFF \<and> prefix (KindPrefix kind) key"
proof
  assume a: "logKindOfBound key = Some kind"
  let ?l = "u16_at 1 key"
  have l: "3 \<le> length key" "key ! 0 = 1" "3 + ?l \<le> length key" "kind = slice 3 (3 + ?l) key"
    using a by (auto simp: logKindOfBound_def split: if_splits)
  have "key = 1 # drop 1 key" using l by (cases key) simp_all
  also have "drop 1 key = be16 ?l @ drop 3 key" using drop_u16 [of 1 key] l by (simp add: eval_nat_numeral)
  also have "drop 3 key = kind @ drop (3 + ?l) key" unfolding l(4) by (rule drop_slice) simp
  finally have "key = KindPrefix kind @ drop (3 + ?l) key"
    using l by (simp add: KindPrefix_def length_slice)
  moreover have "length kind \<le> 0xFFFF" using l u16_at_less [of 1 key] by (simp add: length_slice)
  ultimately show "length kind \<le> 0xFFFF \<and> prefix (KindPrefix kind) key" by (metis prefixI)
next
  assume a: "length kind \<le> 0xFFFF \<and> prefix (KindPrefix kind) key"
  then obtain r where r: "key = KindPrefix kind @ r" by (auto simp: prefix_def)
  have "u16_at 1 key = length kind"
    using a u16_at_mid [of 1 "[1]" "length kind" "kind @ r"] by (simp add: r KindPrefix_def)
  moreover have "slice 3 (3 + length kind) key = kind"
    using slice_mid [of 3 "1 # be16 (length kind)" "3 + length kind" kind r] by (simp add: r KindPrefix_def)
  ultimately show "logKindOfBound key = Some kind" by (simp add: logKindOfBound_def r KindPrefix_def)
qed

lemma readable_kind_healthy:
  assumes "healthy (n_store n)" "wf_store (n_store n)" "length caller \<le> 0xFFFF" "length kind \<le> 0xFFFF"
  shows "isCommandLogReadableKind kind caller n = (Inr (readable_kind (contents (n_store n)) caller kind), n)"
proof (cases "ParseCommandRequestLogKind kind")
  case None
  then have no: "kind \<noteq> CommandRequestLogKind cmd" for cmd using ParseCommandRequestLogKind_iff [of kind cmd] by auto
  show ?thesis
  proof (cases "ParseCommandExecIndexKind kind")
    case ix: None
    then have "kind \<noteq> CommandExecIndexKind caller" using ParseCommandExecIndexKind_iff [of kind caller] by auto
    with None no ix show ?thesis by (auto simp: isCommandLogReadableKind_def readable_kind_def)
  next
    case ix: (Some p)
    then have "kind = CommandExecIndexKind p" by (simp add: codec_simps)
    with None no ix log_kinds_disjoint(3) [of p] show ?thesis
      by (auto simp: isCommandLogReadableKind_def readable_kind_def CommandExecIndexKind_def)
  qed
next
  case (Some cmd)
  then have kind: "kind = CommandRequestLogKind cmd" by (simp add: codec_simps)
  then have "length cmd \<le> 0xFFFF" using assms(4) by (simp add: CommandRequestLogKind_def)
  then have "IsPermittedForCommand cmd caller (n_store n) = (Inr (permitted (contents (n_store n)) cmd caller), n_store n)"
    using assms by (intro IsPermitted_permitted)
  then have "on_store (IsPermittedForCommand cmd caller) n = (Inr (permitted (contents (n_store n)) cmd caller), n)"
    by (rule on_store_same)
  moreover have "readable_kind (contents (n_store n)) caller kind \<longleftrightarrow> permitted (contents (n_store n)) cmd caller"
    using log_kinds_disjoint(1) [of cmd caller] log_kinds_disjoint(2) [of cmd] by (auto simp: readable_kind_def kind CommandRequestLogKind_def)
  ultimately show ?thesis
    using Some log_kinds_disjoint(2) [of cmd] by (simp add: isCommandLogReadableKind_def kind bind_sto_def try_sto_def)
qed

subsection \<open>Properties\<close>

text \<open>
  The carve-out for strangers cannot be used to read around: when it admits a range query,
  every row the scan returns belongs to one log kind, and that kind is the result log, the
  request log of a command the caller is permitted for, or the caller's own index.
\<close>

theorem carve_out_confines_reads:
  assumes "healthy (n_store n)" "wf_store (n_store n)" "length caller \<le> 0xFFFF"
    and "isCommandLogCarveOut (Ev_listRange (Inr start) (Inr stop) k v) caller n = (Inr True, n')"
    and "scanRange start stop limit (n_store n') = (Inr rows, st)"
  shows "\<exists>kind. readable_kind (contents (n_store n)) caller kind \<and> (\<forall>(key, val) \<in> set rows. prefix (KindPrefix kind) key)"
proof -
  from assms(4) obtain kind where k: "logKindOfBound start = Some kind" "logKindOfBound stop = Some kind"
    and r: "isCommandLogReadableKind kind caller n = (Inr True, n')"
    by (auto simp: isCommandLogCarveOut_def split: option.splits if_splits)
  have l: "length kind \<le> 0xFFFF" and p: "prefix (KindPrefix kind) start" "prefix (KindPrefix kind) stop"
    using k by (simp_all add: logKindOfBound_prefix)
  from r have rk: "readable_kind (contents (n_store n)) caller kind" and n': "n' = n"
    using readable_kind_healthy [OF assms(1-3) l] by auto
  have "prefix (KindPrefix kind) key" if "start \<le> key" "key \<le> stop" for key
    using p that between_prefix [of "KindPrefix kind"] by (auto simp: prefix_def)
  moreover have "set rows \<subseteq> {r \<in> set (kv (n_store n)). start \<le> fst r \<and> fst r \<le> stop}"
    using assms(1,5) n' by (auto simp: scanRange_healthy limit_rows_def dest: in_set_takeD split: if_splits)
  ultimately show ?thesis using rk by fastforce
qed

theorem carve_out_confines_reads_witness:
  "\<exists>kind. readable_kind (contents (n_store (solo_node []))) [65] kind"
proof -
  let ?b = "KindPrefix (CommandExecIndexKind [65])"
  have h: "healthy (n_store (solo_node []))" "wf_store (n_store (solo_node []))"
    by (simp_all add: solo_node_def healthy_def wf_store_def)
  have l: "length (CommandExecIndexKind [65]) \<le> 0xFFFF"
    by (simp add: CommandExecIndexKind_def CommandExecIndexKindPrefix_def)
  have b: "logKindOfBound ?b = Some (CommandExecIndexKind [65])" using l by (simp add: logKindOfBound_prefix)
  have "readable_kind (contents (n_store (solo_node []))) [65] (CommandExecIndexKind [65])" by (simp add: readable_kind_def)
  then have "isCommandLogCarveOut (Ev_listRange (Inr ?b) (Inr ?b) (Inr []) (Inr [])) [65] (solo_node []) = (Inr True, solo_node [])"
    using b readable_kind_healthy [OF h _ l, of "[65]"] by (simp add: isCommandLogCarveOut_def)
  from carve_out_confines_reads [OF h _ this, of 1 "[]" "n_store (solo_node [])"] show ?thesis
    using h by (auto simp: scanRange_healthy limit_rows_def solo_node_def)
qed

text \<open>
  C31. The forwarding stream forges standing: the leader's handler for forwarded writes looks at
  neither the sender nor the key, so whoever can open that stream can write its own membership of
  the cluster group, and every gate that asks for cluster membership then lets it through.
\<close>

theorem forwarded_write_forges_standing:
  assumes "commits e" "leads n c" "PeerGroupKey p ReservedGroupCluster = Inr key" "room e c key" "length key + 4 < 2 ^ 32"
  shows "\<exists>index n'. handleForwardSetStream e (EncodeCommand OpSet key []) n = (writeForwardSuccess index, n') \<and>
    isAuthorizedForGatedAccess p g n' = (Inr True, n')"
proof -
  have acc: "accepts e OpSet key [] c (c(key \<mapsto> []))"
    using assms(4,5) by (intro accepts_record [OF relation_keys_system(2) [OF assms(3)]]) simp_all
  then obtain v st where a: "applyOp (lims e) (clock e) OpSet key [] (n_store n) = (Inr v, st)"
    "healthy st" "contents st = c(key \<mapsto> [])" and len: "length key + length ([] :: bytes) + 4 < 2 ^ 32"
    using assms(2) unfolding accepts_def leads_def by blast
  from raft_Apply_leader [OF assms(1) len a(1)] obtain index where
    "raft_Apply e OpSet key [] n = (Inr (index, v), n\<lparr>n_store := st\<rparr>)" by auto
  then have "handleOpForward e OpSet key [] False n = (Inr index, n\<lparr>n_store := st\<rparr>)"
    using assms(2) by (simp add: handleOpForward_def node_applyOp_def leads_def bind_sto_apply_Inr)
  moreover have "DecodeCommand (EncodeCommand OpSet key []) = Inr (OpSet, key, [])"
    unfolding DecodeCommand_def by (rule decodeCommand_Encode [OF len])
  ultimately have "handleForwardSetStream e (EncodeCommand OpSet key []) n = (writeForwardSuccess index, n\<lparr>n_store := st\<rparr>)"
    by (simp add: handleForwardSetStream_def)
  moreover have "peer_in_group (contents st) p ReservedGroupCluster" using assms(3) a(3) by (simp add: peer_in_group_def)
  ultimately show ?thesis using a(2) isAuthorized_healthy [of "n\<lparr>n_store := st\<rparr>" p g] by (auto simp: has_standing_def)
qed

theorem forwarded_write_forges_standing_witness:
  "isAuthorizedForGatedAccess [65] ReservedGroupRemote (solo_node []) = (Inr False, solo_node []) \<and>
   (\<exists>buf reply n'. handleForwardSetStream solo_env buf (solo_node []) = (reply, n') \<and>
      isAuthorizedForGatedAccess [65] ReservedGroupRemote n' = (Inr True, n'))"
proof -
  let ?k = "[0, 9, 0, 0, 1, 65] @ ReservedGroupCluster"
  have k: "PeerGroupKey [65] ReservedGroupCluster = Inr ?k" by (simp add: PeerGroupKey_def be16_def)
  have l: "leads (solo_node []) Map.empty" using solo_leads [of "[]"] by simp
  have "room solo_env Map.empty ?k" by (simp add: room_def list_count_def list_limit_def default_limits_def)
  from forwarded_write_forges_standing [OF solo_commits l k this, of ReservedGroupRemote]
  have "\<exists>index n'. handleForwardSetStream solo_env (EncodeCommand OpSet ?k []) (solo_node []) = (writeForwardSuccess index, n') \<and>
    isAuthorizedForGatedAccess [65] ReservedGroupRemote n' = (Inr True, n')" by (simp add: ReservedGroupCluster_def)
  moreover have "healthy (n_store (solo_node []))" by (simp add: solo_node_def healthy_def)
  moreover have "contents (n_store (solo_node [])) = Map.empty" by (simp add: solo_node_def contents_def fun_eq_iff)
  ultimately show ?thesis
    using isAuthorized_healthy [of "solo_node []" "[65]" ReservedGroupRemote] by (auto simp: has_standing_def peer_in_group_def)
qed

end
