(* ===== verification/KV_Text.thy ===== *)
theory KV_Text
  imports KV_Prelude
begin

text \<open>
  The parts of Go's standard library that the line-based stream protocols use: hexadecimal
  (encoding/hex), splitting at white space, cutting prefixes and suffixes (strings) and reading
  a line (bufio.Scanner). The lemmas are the round trips that the protocols rest on.
\<close>

subsection \<open>Hexadecimal\<close>

definition hex_digit :: "nat \<Rightarrow> byte" where
  "hex_digit d = (if d < 10 then word_of_nat (48 + d) else word_of_nat (87 + d))"

definition fromHexChar :: "byte \<Rightarrow> nat option" where
  "fromHexChar c = (let k = unat c in
     if 48 \<le> k \<and> k \<le> 57 then Some (k - 48)
     else if 97 \<le> k \<and> k \<le> 102 then Some (k - 87)
     else if 65 \<le> k \<and> k \<le> 70 then Some (k - 55)
     else None)"

definition hex_EncodeToString :: "bytes \<Rightarrow> gostring" where
  "hex_EncodeToString bs = concat (map (\<lambda>b. [hex_digit (unat b div 16), hex_digit (unat b mod 16)]) bs)"

fun hex_DecodeString :: "gostring \<Rightarrow> bytes res" where
  "hex_DecodeString [] = Inr []"
| "hex_DecodeString [a] = Inl (Errorf ''encoding/hex: odd length hex string or invalid byte'')"
| "hex_DecodeString (a # b # s) = (case (fromHexChar a, fromHexChar b) of
      (Some x, Some y) \<Rightarrow> bind_res (hex_DecodeString s) (\<lambda>bs. Inr (word_of_nat (16 * x + y) # bs))
    | _ \<Rightarrow> Inl (Errorf ''encoding/hex: invalid byte: %#U''))"

lemma fromHexChar_digit [simp]: "d < 16 \<Longrightarrow> fromHexChar (hex_digit d) = Some d"
proof -
  assume d: "d < 16"
  have "unat (word_of_nat (48 + d) :: byte) = 48 + d" "unat (word_of_nat (87 + d) :: byte) = 87 + d"
    using d unat_byte_of_nat [of "48 + d"] unat_byte_of_nat [of "87 + d"] by simp_all
  with d show ?thesis by (auto simp: fromHexChar_def hex_digit_def)
qed

lemma hex_round_trip [codec_simps]: "hex_DecodeString (hex_EncodeToString bs) = Inr bs"
proof (induction bs)
  case (Cons b bs)
  have "unat b div 16 < 16" using unsigned_less [of b, where ?'a = nat] by simp
  moreover have "word_of_nat (16 * (unat b div 16) + unat b mod 16) = b" by simp
  ultimately show ?case using Cons by (simp add: hex_EncodeToString_def)
qed (simp add: hex_EncodeToString_def)

definition hex_char :: "byte \<Rightarrow> bool" where
  "hex_char c \<longleftrightarrow> fromHexChar c \<noteq> None"

lemma hex_chars: "list_all hex_char (hex_EncodeToString bs)"
proof -
  have "unat b div 16 < 16" for b :: byte using unsigned_less [of b, where ?'a = nat] by simp
  then show ?thesis by (auto simp: hex_EncodeToString_def list_all_iff hex_char_def)
qed

lemma hex_length: "length (hex_EncodeToString bs) = 2 * length bs"
  by (induction bs) (simp_all add: hex_EncodeToString_def)

interpretation hex: codec "\<lambda>bs. Inr (hex_EncodeToString bs)" hex_DecodeString "\<lambda>_. True"
  by unfold_locales (auto simp: codec_simps)

subsection \<open>White space\<close>

text \<open>
  The number of bytes of white space a string starts with. Besides the ASCII characters these
  are the UTF-8 forms of the other characters \<^verbatim>\<open>unicode.IsSpace\<close> accepts; their lead bytes
  never continue another character, so they are recognised wherever they occur.
\<close>

definition space_len :: "gostring \<Rightarrow> nat" where
  "space_len s =
     (if s \<noteq> [] \<and> hd s \<in> {9, 10, 11, 12, 13, 32} then 1
      else if take 2 s \<in> {[0xC2, 0x85], [0xC2, 0xA0]} then 2
      else if take 3 s \<in> {[0xE1, 0x9A, 0x80], [0xE2, 0x80, 0xA8], [0xE2, 0x80, 0xA9], [0xE2, 0x80, 0xAF],
        [0xE2, 0x81, 0x9F], [0xE3, 0x80, 0x80]} then 3
      else if take 2 s = [0xE2, 0x80] \<and> length s > 2 \<and> 0x80 \<le> s ! 2 \<and> s ! 2 \<le> 0x8A then 3
      else 0)"

fun fieldsFrom :: "gostring \<Rightarrow> gostring \<Rightarrow> gostring list" where
  "fieldsFrom cur [] = (if cur = [] then [] else [cur])"
| "fieldsFrom cur (b # s) =
     (if space_len (b # s) = 0 then fieldsFrom (cur @ [b]) s
      else (if cur = [] then [] else [cur]) @ fieldsFrom [] (drop (space_len (b # s) - 1) s))"

definition strings_Fields :: "gostring \<Rightarrow> gostring list" where
  "strings_Fields s = fieldsFrom [] s"

text \<open>A printable ASCII word, as peer ids, multiaddrs and hexadecimal are.\<close>

definition word_char :: "byte \<Rightarrow> bool" where
  "word_char b \<longleftrightarrow> 33 \<le> b \<and> b \<le> 126"

lemma space_len_word: "word_char b \<Longrightarrow> space_len (b # s) = 0"
proof -
  assume "word_char b"
  then have "33 \<le> unat b" "unat b \<le> 126" by (simp_all add: word_char_def word_le_nat_alt)
  then have "b \<noteq> 9" "b \<noteq> 10" "b \<noteq> 11" "b \<noteq> 12" "b \<noteq> 13" "b \<noteq> 32" "b \<noteq> 0xC2" "b \<noteq> 0xE1" "b \<noteq> 0xE2" "b \<noteq> 0xE3"
    by auto
  then show ?thesis by (simp add: space_len_def numeral_3_eq_3 numeral_2_eq_2)
qed

lemma space_len_blank: "space_len (32 # s) = 1"
  by (simp add: space_len_def)

lemma fieldsFrom_word: "list_all word_char w \<Longrightarrow> fieldsFrom cur (w @ s) = fieldsFrom (cur @ w) s"
  by (induction w arbitrary: cur) (simp_all add: space_len_word)

lemma fields_step: "list_all word_char w \<Longrightarrow> w \<noteq> [] \<Longrightarrow> fieldsFrom [] (w @ 32 # s) = w # fieldsFrom [] s"
  by (simp add: fieldsFrom_word space_len_blank)

lemma fields_last: "list_all word_char w \<Longrightarrow> w \<noteq> [] \<Longrightarrow> fieldsFrom [] w = [w]"
  using fieldsFrom_word [of w "[]" "[]"] by simp

lemma hex_word: "hex_char c \<Longrightarrow> word_char c"
proof -
  assume "hex_char c"
  then have "48 \<le> unat c" "unat c \<le> 102" by (simp_all add: hex_char_def fromHexChar_def Let_def split: if_splits)
  then show ?thesis by (simp add: word_char_def word_le_nat_alt)
qed

lemma hex_words: "list_all word_char (hex_EncodeToString bs)"
  using hex_chars [of bs] by (auto simp: list_all_iff hex_word)

subsection \<open>Cutting\<close>

definition strings_CutPrefix :: "gostring \<Rightarrow> gostring \<Rightarrow> gostring option" where
  "strings_CutPrefix s p = (if prefix p s then Some (drop (length p) s) else None)"

definition strings_CutSuffix :: "gostring \<Rightarrow> gostring \<Rightarrow> gostring option" where
  "strings_CutSuffix s p = (if suffix p s then Some (take (length s - length p) s) else None)"

definition strings_IndexByte :: "gostring \<Rightarrow> byte \<Rightarrow> nat option" where
  "strings_IndexByte s b = (if b \<in> set s then Some (length (takeWhile (\<lambda>c. c \<noteq> b) s)) else None)"

subsection \<open>Lines\<close>

text \<open>
  The first token of a \<^verbatim>\<open>bufio.Scanner\<close>: \<open>Inr None\<close> at the end of input, an error when no
  newline comes within the 64 KB buffer. A trailing carriage return is dropped.
\<close>

definition MaxScanTokenSize :: nat where "MaxScanTokenSize = 64 * 1024"

definition dropCR :: "bytes \<Rightarrow> bytes" where
  "dropCR l = (if l \<noteq> [] \<and> last l = 13 then butlast l else l)"

definition scanLine :: "bytes \<Rightarrow> bytes option res" where
  "scanLine input =
     (if input = [] then Inr None
      else if length (takeWhile (\<lambda>c. c \<noteq> 10) input) \<ge> MaxScanTokenSize
      then Inl (Errorf ''bufio.Scanner: token too long'')
      else Inr (Some (dropCR (takeWhile (\<lambda>c. c \<noteq> 10) input))))"

lemma scanLine_line:
  assumes "10 \<notin> set l" "l = [] \<or> last l \<noteq> 13" "length l < MaxScanTokenSize"
  shows "scanLine (l @ 10 # rest) = Inr (Some l)"
proof -
  have "takeWhile (\<lambda>c. c \<noteq> 10) (l @ 10 # rest) = l" using assms(1) by (induction l) auto
  with assms show ?thesis by (auto simp: scanLine_def dropCR_def)
qed

end
