(* ===== verification/Daemon_Dial.thy ===== *)
theory Daemon_Dial
  imports Daemon_Members KV_Text
begin

text \<open>
  Reaching other nodes (src/pkg/daemon/daemon.go, host.go): the order in which a node advertises
  its own addresses, the relays it may use, turning an address or a bare peer id into something
  to dial, and the connection retry policy. The lemmas show what these choose.
\<close>

subsection \<open>Limits taken from the configuration\<close>

text \<open>A zero field means the default, so no configuration leaves a quota unlimited.\<close>

definition relayQuotaLimits :: "rat \<Rightarrow> int \<Rightarrow> rat \<Rightarrow> int \<Rightarrow> rat \<times> int \<times> rat \<times> int" where
  "relayQuotaLimits peerPerSec pb ipPerSec ib =
     (if peerPerSec = 0 then 1 else peerPerSec, if pb = 0 then 5 else pb,
      if ipPerSec = 0 then 5 else ipPerSec, if ib = 0 then 10 else ib)"

definition channelQuotaLimits :: "rat \<Rightarrow> int \<Rightarrow> rat \<Rightarrow> int \<Rightarrow> rat \<times> int \<times> rat \<times> int" where
  "channelQuotaLimits peerPerSec pb ipPerSec ib =
     (if peerPerSec = 0 then 512 * 2 ^ 20 else peerPerSec, if pb = 0 then 64 * 2 ^ 20 else pb,
      if ipPerSec = 0 then 1024 * 2 ^ 20 else ipPerSec, if ib = 0 then 128 * 2 ^ 20 else ib)"

subsection \<open>Own addresses\<close>

definition addr_score :: "hostAddr \<Rightarrow> nat" where
  "addr_score a = (if addrPublic a then 0
     else if strings_Contains (addrText a) (str ''/p2p-circuit'') then 1
     else if addrLoopback a then 3 else 2)"

definition advertisedAddrs :: "env \<Rightarrow> node \<Rightarrow> gostring list" where
  "advertisedAddrs e n =
     map (\<lambda>a. addrText a @ str ''/p2p/'' @ peerID n) (sort_key addr_score (host_addrs e))"

text \<open>\<^verbatim>\<open>advertisedAddrs()[0]\<close>; the index is out of range when the host listens nowhere.\<close>

definition ownAddr :: "env \<Rightarrow> gostring nd" where
  "ownAddr e n = (case advertisedAddrs e n of
      [] \<Rightarrow> (Inl (Errorf ''index out of range [0] with length 0''), n)
    | a # _ \<Rightarrow> (Inr a, n))"

subsection \<open>Relays\<close>

definition addCandidate :: "env \<Rightarrow> gostring \<Rightarrow> AddrInfo list \<Rightarrow> AddrInfo list" where
  "addCandidate e addr candidates = (case new_multiaddr e addr of
      Inl _ \<Rightarrow> candidates
    | Inr maddr \<Rightarrow> (case addr_info e maddr of
        Inl _ \<Rightarrow> candidates
      | Inr info \<Rightarrow> if fst info \<in> fst ` set candidates then candidates else candidates @ [info]))"

definition bootstrapEntries :: "env \<Rightarrow> table \<Rightarrow> (gostring \<times> byte) list" where
  "bootstrapEntries e rows = concat (map (\<lambda>r. case boot_unjson e (snd r) of Inl _ \<Rightarrow> [] | Inr x \<Rightarrow> [x]) rows)"

definition relayCandidates :: "env \<Rightarrow> AddrInfo list nd" where
  "relayCandidates e = bind_sto get_node (\<lambda>n.
     let seeds = fold (addCandidate e) (filter (\<lambda>a. a \<noteq> []) (RelayPeers n)) [];
         (lo, hi) = BootstrapNodeKeyBounds in
     bind_sto (try_sto (on_store (scanRange lo hi 0))) (\<lambda>matches. case matches of
         Inl _ \<Rightarrow> ret seeds
       | Inr rows \<Rightarrow> ret (fold (addCandidate e) (map fst (sort_key (\<lambda>x. unat (snd x)) (bootstrapEntries e rows))) seeds)))"

definition isRelayCandidate :: "env \<Rightarrow> gostring \<Rightarrow> bool nd" where
  "isRelayCandidate e pid = bind_sto (relayCandidates e) (\<lambda>cs. ret (pid \<in> fst ` set cs))"

subsection \<open>Resolving addresses\<close>

definition IsMultiaddr :: "gostring \<Rightarrow> bool" where
  "IsMultiaddr s \<longleftrightarrow> prefix (str ''/'') s"

definition dialAddr :: "env \<Rightarrow> gostring \<Rightarrow> AddrInfo res" where
  "dialAddr e addr =
     bind_res (wrap_err ''invalid address %q: %w'' (new_multiaddr e addr)) (\<lambda>maddr.
     wrap_err ''address %q missing peer id: %w'' (addr_info e maddr))"

text \<open>The circuit addresses of a peer through the known relays, unparseable ones left out.\<close>

definition circuitAddrs :: "env \<Rightarrow> AddrInfo list \<Rightarrow> gostring \<Rightarrow> gostring list" where
  "circuitAddrs e candidates targetID =
     concat (map (\<lambda>(relay, addrs). concat (map (\<lambda>relayAddr.
       case new_multiaddr e (relayAddr @ str ''/p2p/'' @ relay @ str ''/p2p-circuit/p2p/'' @ targetID) of
         Inl _ \<Rightarrow> [] | Inr circuit \<Rightarrow> [circuit]) addrs)) candidates)"

definition resolveDialAddr :: "env \<Rightarrow> gostring \<Rightarrow> AddrInfo nd" where
  "resolveDialAddr e addr =
     (if IsMultiaddr addr then lift_res (dialAddr e addr)
      else case (reg_open e, reg_resolve e addr) of
          (Inr _, Inr resolved) \<Rightarrow> lift_res (dialAddr e resolved)
        | _ \<Rightarrow>
            bind_sto (lift_res (wrap_err ''%q is neither a multiaddr, a peer id created on this machine, nor a valid peer id: %w''
              (peer_decode e addr))) (\<lambda>targetID.
            bind_sto (relayCandidates e) (\<lambda>candidates.
            if candidates = [] then fail (Errorf ''%q is not a peer id created on this machine, and this node has no relay candidates to try reaching it through'')
            else if circuitAddrs e candidates targetID = []
            then fail (Errorf ''%q is not a peer id created on this machine, and no usable relay-circuit address could be built for it'')
            else ret (targetID, circuitAddrs e candidates targetID))))"

subsection \<open>Connecting\<close>

definition connectRetryAttempts :: nat where "connectRetryAttempts = 3"
definition connectRetryReservationAttempts :: nat where "connectRetryReservationAttempts = 11"

definition isRetriableRelayCircuitError :: "env \<Rightarrow> error \<Rightarrow> bool" where
  "isRetriableRelayCircuitError e err \<longleftrightarrow>
     strings_Contains (err_text e err) (str ''NO_RESERVATION'') \<or> strings_Contains (err_text e err) (str ''CONNECTION_FAILED'')"

definition isRetriableDialResetError :: "env \<Rightarrow> error \<Rightarrow> bool" where
  "isRetriableDialResetError e err \<longleftrightarrow> conn_reset e err"

text \<open>\<open>dialAttempts e pid k m\<close> makes up to \<open>m\<close> further attempts, the next being the \<open>k\<close>-th overall.\<close>

fun dialAttempts :: "env \<Rightarrow> gostring \<Rightarrow> nat \<Rightarrow> nat \<Rightarrow> unit res \<Rightarrow> unit res" where
  "dialAttempts e pid k 0 lastErr = lastErr"
| "dialAttempts e pid k (Suc m) lastErr = (case connect e pid k of
      Inr _ \<Rightarrow> Inr ()
    | Inl err \<Rightarrow> dialAttempts e pid (Suc k) m (Inl err))"

definition connectWithRetry :: "env \<Rightarrow> gostring \<Rightarrow> unit res" where
  "connectWithRetry e pid = (case dialAttempts e pid 0 connectRetryAttempts (Inr ()) of
      Inr _ \<Rightarrow> Inr ()
    | Inl lastErr \<Rightarrow>
        if \<not> isRetriableRelayCircuitError e lastErr \<and> \<not> isRetriableDialResetError e lastErr then Inl lastErr
        else dialAttempts e pid connectRetryAttempts connectRetryReservationAttempts (Inr ()))"

subsection \<open>Lemmas\<close>

lemma quota_limits_positive:
  assumes "0 \<le> a" "0 \<le> c" "relayQuotaLimits a b c d = (pp, pb, ii, ib) \<or> channelQuotaLimits a b c d = (pp, pb, ii, ib)"
  shows "0 < pp \<and> 0 < ii"
  using assms by (auto simp: relayQuotaLimits_def channelQuotaLimits_def split: if_splits)

lemma dialAttempts_Inr:
  "dialAttempts e pid k m r = Inr () \<longleftrightarrow> (m = 0 \<and> r = Inr ()) \<or> (\<exists>i. k \<le> i \<and> i < k + m \<and> connect e pid i = Inr ())"
proof (induction m arbitrary: k r)
  case (Suc m)
  show ?case
  proof (cases "connect e pid k")
    case (Inl err)
    have "(\<exists>i. Suc k \<le> i \<and> i < Suc k + m \<and> connect e pid i = Inr ()) \<longleftrightarrow>
      (\<exists>i. k \<le> i \<and> i < k + Suc m \<and> connect e pid i = Inr ())"
      (is "?l \<longleftrightarrow> ?r")
    proof
      assume ?l
      then obtain i where "Suc k \<le> i" "i < Suc k + m" "connect e pid i = Inr ()" by blast
      then show ?r by (intro exI [of _ i]) simp
    next
      assume ?r
      then obtain i where i: "k \<le> i" "i < k + Suc m" "connect e pid i = Inr ()" by blast
      with Inl have "i \<noteq> k" by auto
      with i show ?l by (intro exI [of _ i]) simp
    qed
    with Inl Suc show ?thesis by simp
  qed auto
qed auto

lemma dialAttempts_last:
  "\<forall>i. k \<le> i \<and> i < k + Suc m \<longrightarrow> connect e pid i \<noteq> Inr () \<Longrightarrow>
   dialAttempts e pid k (Suc m) r = connect e pid (k + m)"
proof (induction m arbitrary: k r)
  case 0
  then show ?case by (cases "connect e pid k") auto
next
  case (Suc m)
  then obtain err where err: "connect e pid k = Inl err" by (cases "connect e pid k") force+
  have "dialAttempts e pid (Suc k) (Suc m) (Inl err) = connect e pid (Suc k + m)" using Suc.prems by (intro Suc.IH) simp
  with err show ?case by simp
qed

lemma addCandidate_distinct: "distinct (map fst cs) \<Longrightarrow> distinct (map fst (addCandidate e a cs))"
  by (auto simp: addCandidate_def split: sum.splits)

lemma addCandidates_distinct: "distinct (map fst cs) \<Longrightarrow> distinct (map fst (fold (addCandidate e) as cs))"
  by (induction as arbitrary: cs) (simp_all add: addCandidate_distinct)

lemma addCandidate_prefix: "prefix cs (addCandidate e a cs)"
  by (auto simp: addCandidate_def split: sum.splits)

lemma addCandidates_prefix: "prefix cs (fold (addCandidate e) as cs)"
  by (induction as arbitrary: cs) (auto intro: prefix_order.trans [OF addCandidate_prefix])

lemma relayCandidates_order:
  assumes "relayCandidates e n = (Inr cs, n')"
  shows "distinct (map fst cs) \<and> prefix (fold (addCandidate e) (filter (\<lambda>a. a \<noteq> []) (RelayPeers n)) []) cs"
  using assms addCandidates_distinct [of "[]"] addCandidates_prefix
  by (auto simp: relayCandidates_def get_node_def bind_sto_def try_sto_def Let_def addCandidates_distinct
      split: prod.splits sum.splits)

subsection \<open>Properties\<close>

text \<open>
  The connection retry policy: a dial succeeds exactly when one of the first three attempts
  does, or all three fail, the third with a relay status or reset known to be transient, and one
  of eleven more attempts succeeds. Fourteen attempts bound every dial.
\<close>

theorem connect_retry_policy:
  "connectWithRetry e pid = Inr () \<longleftrightarrow>
     (\<exists>k < 3. connect e pid k = Inr ()) \<or>
     (\<exists>err. connect e pid 2 = Inl err \<and> (isRetriableRelayCircuitError e err \<or> isRetriableDialResetError e err) \<and>
        (\<exists>k. 3 \<le> k \<and> k < 14 \<and> connect e pid k = Inr ()))"
proof (cases "\<exists>k < 3. connect e pid k = Inr ()")
  case True
  then have "dialAttempts e pid 0 3 (Inr ()) = Inr ()" by (auto simp: dialAttempts_Inr)
  with True show ?thesis by (simp add: connectWithRetry_def connectRetryAttempts_def)
next
  case False
  then obtain err where err: "connect e pid 2 = Inl err" by (cases "connect e pid 2") force+
  have "dialAttempts e pid 0 (Suc 2) (Inr ()) = connect e pid (0 + 2)" using False by (intro dialAttempts_last) auto
  then have "dialAttempts e pid 0 3 (Inr ()) = Inl err" using err by (simp add: eval_nat_numeral)
  moreover have "dialAttempts e pid 3 11 (Inr ()) = Inr () \<longleftrightarrow> (\<exists>k. 3 \<le> k \<and> k < 14 \<and> connect e pid k = Inr ())"
    by (simp add: dialAttempts_Inr)
  ultimately show ?thesis
    using False err by (auto simp: connectWithRetry_def connectRetryAttempts_def connectRetryReservationAttempts_def)
qed

text \<open>
  The address baked into the raft configuration is the best one the host has: it is taken
  from an address whose score no other address of the host beats, so a public address whenever
  there is one, and a loopback address only when there is nothing else.
\<close>

theorem own_addr_is_best:
  assumes "ownAddr e n = (Inr addr, n')"
  shows "n' = n \<and> (\<exists>a \<in> set (host_addrs e). addr = addrText a @ str ''/p2p/'' @ peerID n \<and>
    (\<forall>b \<in> set (host_addrs e). addr_score a \<le> addr_score b))"
proof -
  obtain a as where s: "sort_key addr_score (host_addrs e) = a # as"
    using assms by (cases "sort_key addr_score (host_addrs e)") (simp_all add: ownAddr_def advertisedAddrs_def)
  then have addr: "addr = addrText a @ str ''/p2p/'' @ peerID n" "n' = n"
    using assms by (auto simp add: ownAddr_def advertisedAddrs_def)
  have "sorted (map addr_score (sort_key addr_score (host_addrs e)))" by simp
  then have "sorted (map addr_score (a # as))" unfolding s .
  moreover have "set (sort_key addr_score (host_addrs e)) = set (host_addrs e)" by simp
  then have "set (host_addrs e) = set (a # as)" unfolding s by (rule sym)
  ultimately show ?thesis using addr by (intro conjI bexI [of _ a]) auto
qed

theorem own_addr_is_best_witness:
  "\<exists>a. ownAddr solo_env (solo_node []) = (Inr a, solo_node []) \<and> prefix (addrText (hd (host_addrs solo_env))) a"
proof -
  have "ownAddr solo_env (solo_node []) = (Inr ([47] @ str ''/p2p/'' @ [80]), solo_node [])"
    by (simp add: ownAddr_def advertisedAddrs_def solo_env_def solo_node_def)
  with own_addr_is_best [OF this] show ?thesis by (auto simp: solo_env_def)
qed

end
