(* ===== verification/Daemon_Join.thy ===== *)
theory Daemon_Join
  imports Daemon_ACL Daemon_Dial
begin

text \<open>
  Joining a cluster (src/pkg/daemon/daemon.go): bootstrapping, asking a leader to be admitted,
  the leader's side of a join with invites and confirmation, browser learners, and recruiting a
  device through its join-request ticket. A request and its answer on a stream are one call of
  \<open>dial\<close>, whose error stands for whichever step of the exchange failed; waiting for a relay
  address before joining has no effect on state and is left out.
\<close>

subsection \<open>Raft start-up\<close>

definition initRaft :: "env \<Rightarrow> unit nd" where
  "initRaft e n = (case raft n of
      NoRaft \<Rightarrow> (case new_raft e of
          Inl err \<Rightarrow> (Inl (Wrap ''daemon: create raft node: %w'' err), n)
        | Inr r \<Rightarrow> (Inr (), n\<lparr>raft := r\<rparr>))
    | _ \<Rightarrow> (Inr (), n))"

definition awaitLeader :: "unit nd" where
  "awaitLeader n = (case raft n of
      Leader \<Rightarrow> (Inr (), n)
    | NoRaft \<Rightarrow> (Inl (Errorf ''node has not been added to a cluster yet''), n)
    | Follower l \<Rightarrow> if l \<noteq> [] then (Inl (Errorf ''not leader; current leader is %s''), n)
                    else (Inl (Errorf ''not leader and no leader known''), n))"

definition BootstrapCluster :: "env \<Rightarrow> server \<Rightarrow> unit nd" where
  "BootstrapCluster e srv n = (case bootstrap e srv (servers n) of
      Inl err \<Rightarrow> (Inl err, n)
    | Inr ss \<Rightarrow> (Inr (), n\<lparr>servers := ss, raft := elected e\<rparr>))"

subsection \<open>The join line\<close>

definition JoinProtocolID :: gostring where "JoinProtocolID = str ''/libp2p-kv-raft/join/1.0.0''"
definition ForwardJoinProtocolID :: gostring where "ForwardJoinProtocolID = str ''/libp2p-kv-raft/forward-join/1.0.0''"
definition RecruitProtocolID :: gostring where "RecruitProtocolID = str ''/libp2p-kv-raft/recruit/1.0.0''"

definition splitInviteToken :: "gostring \<Rightarrow> (gostring \<times> bytes) res" where
  "splitInviteToken addr = (case strings_IndexByte addr 35 of
      None \<Rightarrow> Inr (addr, [])
    | Some i \<Rightarrow> bind_res (wrap_err ''invalid invite token in %q: %w'' (hex_DecodeString (drop (i + 1) addr)))
        (\<lambda>token. Inr (take i addr, token)))"

definition suffrageWord :: "suffrage \<Rightarrow> gostring" where
  "suffrageWord sf = (if sf = Nonvoter then str ''learner'' else str ''voter'')"

definition joinLine :: "gostring \<Rightarrow> gostring \<Rightarrow> suffrage \<Rightarrow> bytes \<Rightarrow> gostring" where
  "joinLine peer addr sf token = peer @ [32] @ addr @ [32] @ suffrageWord sf @
     (if length token > 0 then [32] @ hex_EncodeToString token else [])"

definition parseJoinRequest :: "bytes \<Rightarrow> (gostring \<times> gostring \<times> suffrage \<times> bytes) res" where
  "parseJoinRequest input =
     bind_res (scanLine input) (\<lambda>l. case l of
       None \<Rightarrow> Inl (Errorf ''empty join request'')
     | Some txt \<Rightarrow>
         bind_res (case strings_Fields txt of
             [p, a] \<Rightarrow> Inr (p, a, str ''voter'', [])
           | [p, a, w] \<Rightarrow> Inr (p, a, w, [])
           | [p, a, w, t] \<Rightarrow> Inr (p, a, w, t)
           | _ \<Rightarrow> Inl (Errorf ''expected \"<peer-id> <multiaddr> [voter|learner] [inviteToken]\", got %q''))
         (\<lambda>(p, a, w, t).
         bind_res (if w = str ''voter'' then Inr Voter else if w = str ''learner'' then Inr Nonvoter
           else Inl (Errorf ''unknown suffrage %q'')) (\<lambda>sf.
         if t \<noteq> [] then bind_res (wrap_err ''invalid invite token %q: %w'' (hex_DecodeString t)) (\<lambda>token. Inr (p, a, sf, token))
         else Inr (p, a, sf, []))))"

subsection \<open>The leader's decision\<close>

definition consumeJoinInvite :: "env \<Rightarrow> bytes \<Rightarrow> suffrage nd" where
  "consumeJoinInvite e token =
     (let cmd = EncodeCommand OpConsumeInvite (JoinInviteKey token) [] in
      bind_sto (lift_res (wrap_err ''invite: %w'' (commit e cmd))) (\<lambda>_.
      bind_sto (wrap_sto ''invalid or already-used invite: %w''
        (on_store (Apply (lims e) \<lparr>Data = cmd, AppendedAt = clock e\<rparr>))) (\<lambda>v.
      bind_sto (lift_res (wrap_err ''invite: %w'' (DecodeJoinInviteRecord v))) (\<lambda>sf.
      ret (if sf = SuffrageLearner then Nonvoter else Voter)))))"

definition lodgeJoinRequest :: "env \<Rightarrow> gostring \<Rightarrow> gostring \<Rightarrow> suffrage \<Rightarrow> line nd" where
  "lodgeJoinRequest e joinPeerID joinAddr sf =
     bind_sto (try_sto (handleSetForward e (SystemKey KindClusterJoin StatusPending joinPeerID)
       (join_json e joinAddr (if sf = Nonvoter then SuffrageLearner else SuffrageVoter)) True)) (\<lambda>r.
     case r of Inl err \<Rightarrow> ret (LineErr err) | Inr _ \<Rightarrow> ret LinePending)"

definition admitOrLodgeJoin :: "env \<Rightarrow> gostring \<Rightarrow> gostring \<Rightarrow> suffrage \<Rightarrow> bytes \<Rightarrow> line nd" where
  "admitOrLodgeJoin e joinPeerID joinAddr sf inviteToken =
     (if length inviteToken > 0 then
        bind_sto (try_sto (consumeJoinInvite e inviteToken)) (\<lambda>r. case r of
          Inl err \<Rightarrow> ret (LineErr err)
        | Inr grantedSuffrage \<Rightarrow> addServerLine e joinPeerID joinAddr grantedSuffrage)
      else bind_sto get_node (\<lambda>n.
        if \<not> RequireConfirmForJoin n then addServerLine e joinPeerID joinAddr sf
        else lodgeJoinRequest e joinPeerID joinAddr sf))"

definition lineText :: "env \<Rightarrow> line \<Rightarrow> gostring" where
  "lineText e l = (case l of LineOK \<Rightarrow> str ''OK'' | LinePending \<Rightarrow> str ''PENDING'' | LineErr err \<Rightarrow> str ''ERR: '' @ err_text e err)"

text \<open>A request line to another node and the first line of its answer.\<close>

definition exchangeLine :: "env \<Rightarrow> gostring \<Rightarrow> gostring \<Rightarrow> gostring \<Rightarrow> gostring nd" where
  "exchangeLine e proto peer l =
     bind_sto (lift_res (dial e proto peer (l @ [10]))) (\<lambda>resp.
     bind_sto (lift_res (wrap_err ''read response from leader %s: %w'' (scanLine resp))) (\<lambda>answer.
     case answer of None \<Rightarrow> fail (Errorf ''no response from leader %s'') | Some a \<Rightarrow> ret a))"

definition forwardJoin :: "env \<Rightarrow> gostring \<Rightarrow> gostring \<Rightarrow> gostring \<Rightarrow> suffrage \<Rightarrow> bytes \<Rightarrow> gostring nd" where
  "forwardJoin e leaderID joinPeerID joinAddr sf inviteToken =
     exchangeLine e ForwardJoinProtocolID leaderID (joinLine joinPeerID joinAddr sf inviteToken)"

definition knownLeader :: "node \<Rightarrow> gostring" where
  "knownLeader n = (case raft n of Follower l \<Rightarrow> l | _ \<Rightarrow> [])"

definition handleJoinStream :: "env \<Rightarrow> bytes \<Rightarrow> node \<Rightarrow> bytes \<times> node" where
  "handleJoinStream e input n = (case parseJoinRequest input of
      Inl err \<Rightarrow> (lineText e (LineErr (Errorf ''malformed join request: %v'')) @ [10], n)
    | Inr (joinPeerID, joinAddr, sf, inviteToken) \<Rightarrow>
        if raft n = Leader then
          (case admitOrLodgeJoin e joinPeerID joinAddr sf inviteToken n of
             (Inl err, n') \<Rightarrow> (lineText e (LineErr err) @ [10], n')
           | (Inr l, n') \<Rightarrow> (lineText e l @ [10], n'))
        else if knownLeader n = [] then (lineText e (LineErr (Errorf ''not leader'')) @ [10], n)
        else (case forwardJoin e (knownLeader n) joinPeerID joinAddr sf inviteToken n of
             (Inl err, n') \<Rightarrow> (lineText e (LineErr (Errorf ''forward join: %v'')) @ [10], n')
           | (Inr l, n') \<Rightarrow> (l @ [10], n')))"

definition handleForwardJoinStream :: "env \<Rightarrow> bytes \<Rightarrow> node \<Rightarrow> bytes \<times> node" where
  "handleForwardJoinStream e input n = (case parseJoinRequest input of
      Inl err \<Rightarrow> (lineText e (LineErr (Errorf ''malformed join request: %v'')) @ [10], n)
    | Inr (joinPeerID, joinAddr, sf, inviteToken) \<Rightarrow>
        if raft n \<noteq> Leader
        then (lineText e (LineErr (Errorf ''not leader; current leader is %s (already forwarded once)'')) @ [10], n)
        else (case admitOrLodgeJoin e joinPeerID joinAddr sf inviteToken n of
             (Inl err, n') \<Rightarrow> (lineText e (LineErr err) @ [10], n')
           | (Inr l, n') \<Rightarrow> (lineText e l @ [10], n')))"

subsection \<open>The joining node\<close>

definition join_cluster :: "env \<Rightarrow> gostring \<Rightarrow> suffrage \<Rightarrow> bytes \<Rightarrow> gostring nd" where
  "join_cluster e leaderAddr sf inviteToken =
     bind_sto (lift_res (wrap_err ''invalid leader address %q: %w'' (new_multiaddr e leaderAddr))) (\<lambda>maddr.
     bind_sto (lift_res (wrap_err ''leader address %q missing peer id: %w'' (addr_info e maddr))) (\<lambda>(leader, _).
     bind_sto (lift_res (wrap_err ''connect to leader %s: %w'' (connectWithRetry e leader))) (\<lambda>_.
     bind_sto (ownAddr e) (\<lambda>selfAddr.
     bind_sto get_node (\<lambda>n.
     bind_sto (exchangeLine e JoinProtocolID leader (joinLine (peerID n) selfAddr sf inviteToken)) (\<lambda>l.
     if l = str ''OK'' then ret (str ''ok'')
     else if l = str ''PENDING'' then ret (str ''pending'')
     else fail (Errorf ''leader rejected join: %s'')))))))"

definition bootstrapSelf :: "env \<Rightarrow> gostring nd" where
  "bootstrapSelf e =
     bind_sto (ownAddr e) (\<lambda>addr.
     bind_sto get_node (\<lambda>n.
     bind_sto (wrap_sto ''bootstrap: %w'' (BootstrapCluster e \<lparr>srvID = peerID n, srvAddress = addr, srvSuffrage = Voter\<rparr>)) (\<lambda>_.
     bind_sto (wrap_sto ''await self-election: %w'' awaitLeader) (\<lambda>_.
     bind_sto (wrap_sto ''bootstrap reserved groups: %w'' (ensureReservedGroups e)) (\<lambda>_.
     bind_sto (wrap_sto ''bootstrap default public command: %w'' (ensureDefaultPublicCommand e)) (\<lambda>_.
     ret (peerID n)))))))"

definition handleAdd :: "env \<Rightarrow> gostring \<Rightarrow> gostring nd" where
  "handleAdd e leaderPeerID =
     bind_sto (wrap_sto ''init raft: %w'' (initRaft e)) (\<lambda>_.
     let (leader, sf) = (case strings_CutSuffix leaderPeerID (str '' learner'') of
           Some rest \<Rightarrow> (rest, Nonvoter) | None \<Rightarrow> (leaderPeerID, Voter)) in
     if leader = [] then bootstrapSelf e
     else bind_sto (lift_res (splitInviteToken leader)) (\<lambda>(addr, inviteToken).
       bind_sto (if IsMultiaddr addr then ret addr
         else bind_sto (lift_res (reg_open e)) (\<lambda>_. lift_res (reg_resolve e addr))) (\<lambda>leaderAddr.
       bind_sto (wrap_sto ''join: %w'' (join_cluster e leaderAddr sf inviteToken)) (\<lambda>status.
       bind_sto get_node (\<lambda>n. ret (peerID n @ [32] @ status))))))"

subsection \<open>Learners over the client protocol\<close>

definition handleAddLearner :: "env \<Rightarrow> gostring \<Rightarrow> gostring \<Rightarrow> gostring nd" where
  "handleAddLearner e joinPeerID joinAddr =
     (if joinPeerID = [] \<or> joinAddr = [] then fail (Errorf ''client add: missing peer id or multiaddr'')
      else bind_sto get_node (\<lambda>n.
        if raft n = Leader then
          bind_sto (addServerLine e joinPeerID joinAddr Nonvoter) (\<lambda>l. case l of
            LineErr err \<Rightarrow> fail (Errorf ''%s'')
          | _ \<Rightarrow> ret (peerID n))
        else if knownLeader n = [] then fail (Errorf ''client add: not leader and no leader known'')
        else bind_sto (wrap_sto ''client add: forward: %w'' (forwardJoin e (knownLeader n) joinPeerID joinAddr Nonvoter [])) (\<lambda>l.
          case strings_CutPrefix l (str ''ERR: '') of
            Some reason \<Rightarrow> fail (Errorf ''%s'')
          | None \<Rightarrow> ret (peerID n))))"

definition handleAddDispatch :: "env \<Rightarrow> 16 word \<Rightarrow> ptr \<Rightarrow> gostring \<Rightarrow> gostring nd" where
  "handleAddDispatch e claimedPeerId addr remote =
     bind_sto get_node (\<lambda>n. case Lookup (registry n) claimedPeerId of
       None \<Rightarrow> fail (Errorf ''no peer id registered under id %d -- send SetKey first'')
     | Some joinPeerID \<Rightarrow>
         if remote \<noteq> [] \<and> joinPeerID \<noteq> remote
         then fail (Errorf ''add: claimed peer id %q does not match the authenticated connection identity %s'')
         else bind_sto (lift_res addr) (\<lambda>a. handleAddLearner e joinPeerID a))"

subsection \<open>Recruiting\<close>

definition setJoinRequestToken :: "bytes \<Rightarrow> unit nd" where
  "setJoinRequestToken token = set_node (\<lambda>n. n\<lparr>joinRequestToken := token\<rparr>)"

definition cancelJoinRequestToken :: "bytes \<Rightarrow> unit nd" where
  "cancelJoinRequestToken token = set_node (\<lambda>n. if joinRequestToken n = token then n\<lparr>joinRequestToken := []\<rparr> else n)"

definition consumeJoinRequestToken :: "bytes \<Rightarrow> bool nd" where
  "consumeJoinRequestToken token n =
     (Inr (length (joinRequestToken n) > 0 \<and> joinRequestToken n = token), n\<lparr>joinRequestToken := []\<rparr>)"

definition mintJoinInvite :: "env \<Rightarrow> byte \<Rightarrow> bytes nd" where
  "mintJoinInvite e sf =
     bind_sto (wrap_sto ''generate invite token: %w'' rand_read) (\<lambda>token.
     bind_sto (handleConfirmForward e OpSet (JoinInviteKey token) (EncodeJoinInviteRecord sf) True) (\<lambda>_. ret token))"

definition recruitAddr :: "env \<Rightarrow> gostring \<Rightarrow> gostring res" where
  "recruitAddr e deviceAddr =
     (if IsMultiaddr deviceAddr then Inr deviceAddr
      else bind_res (wrap_err ''recruit: ticket address %q is not a multiaddr, and this device has no local registry to resolve a bare peer id against: %w''
          (reg_open e)) (\<lambda>_.
        wrap_err ''recruit: resolve ticket address %q: %w'' (reg_resolve e deviceAddr)))"

definition dialAndPushRecruit :: "env \<Rightarrow> gostring \<Rightarrow> byte \<Rightarrow> gostring nd" where
  "dialAndPushRecruit e ticket sf =
     bind_sto (lift_res (splitInviteToken ticket)) (\<lambda>(deviceAddr, correlationToken).
     if length correlationToken = 0 then fail (Errorf ''recruit: ticket %q missing a correlation token'')
     else if deviceAddr = [] then fail (Errorf ''recruit: ticket %q has no device address -- expected \"<multiaddr>#<tokenHex>\"'')
     else bind_sto (wrap_sto ''recruit: mint join invite: %w'' (mintJoinInvite e sf)) (\<lambda>inviteToken.
       bind_sto (lift_res (recruitAddr e deviceAddr)) (\<lambda>addr.
       bind_sto (lift_res (wrap_err ''invalid device address %q: %w'' (new_multiaddr e addr))) (\<lambda>maddr.
       bind_sto (lift_res (wrap_err ''device address %q missing peer id: %w'' (addr_info e maddr))) (\<lambda>(device, _).
       bind_sto (lift_res (wrap_err ''connect to %s: %w'' (connectWithRetry e device))) (\<lambda>_.
       bind_sto (ownAddr e) (\<lambda>own.
       bind_sto (exchangeLine e RecruitProtocolID device
         (own @ [32] @ hex_EncodeToString inviteToken @ [32] @ hex_EncodeToString correlationToken)) (\<lambda>l.
       case strings_CutPrefix l (str ''OK '') of
         Some rest \<Rightarrow> ret rest
       | None \<Rightarrow> fail (Errorf ''recruit rejected: %s'')))))))))"

definition handleRecruitStream :: "env \<Rightarrow> bytes \<Rightarrow> node \<Rightarrow> bytes \<times> node" where
  "handleRecruitStream e input n = (case scanLine input of
      Inr (Some txt) \<Rightarrow> (case strings_Fields txt of
          [leaderAddr, inviteTokenHex, correlationHex] \<Rightarrow> (case hex_DecodeString correlationHex of
              Inl _ \<Rightarrow> (str ''ERR: invalid correlation token'' @ [10], n)
            | Inr correlationToken \<Rightarrow> (case consumeJoinRequestToken correlationToken n of
                (Inr True, n1) \<Rightarrow> (case handleAdd e (leaderAddr @ [35] @ inviteTokenHex) n1 of
                    (Inl err, n2) \<Rightarrow> (str ''ERR: '' @ err_text e err @ [10], n2)
                  | (Inr result, n2) \<Rightarrow> (str ''OK '' @ result @ [10], n2))
              | (_, n1) \<Rightarrow> (str ''ERR: unknown or already-used join request ticket'' @ [10], n1)))
        | _ \<Rightarrow> (str ''ERR: malformed request'' @ [10], n))
    | _ \<Rightarrow> (str ''ERR: no request line'' @ [10], n))"

subsection \<open>Lemmas\<close>

lemma word_char_not: "word_char b \<Longrightarrow> b \<noteq> 10 \<and> b \<noteq> 13 \<and> b \<noteq> 32"
  by (auto simp: word_char_def word_le_nat_alt)

lemma suffrage_words: "list_all word_char (suffrageWord sf)" "suffrageWord sf \<noteq> []"
  by (cases sf; simp add: suffrageWord_def str_Cons word_char_def word_le_nat_alt)+

lemma joinLine_fields:
  assumes "list_all word_char p" "p \<noteq> []" "list_all word_char a" "a \<noteq> []"
  shows "strings_Fields (joinLine p a sf token) =
    p # a # suffrageWord sf # (if token = [] then [] else [hex_EncodeToString token])"
proof -
  have "token \<noteq> [] \<Longrightarrow> hex_EncodeToString token \<noteq> []" using hex_length [of token] by (metis length_0_conv mult_is_0 zero_neq_numeral)
  with assms show ?thesis
    by (simp add: strings_Fields_def joinLine_def fields_step fields_last suffrage_words hex_words)
qed

lemma joinLine_chars:
  assumes "list_all word_char p" "list_all word_char a"
  shows "\<forall>b \<in> set (joinLine p a sf token). b \<noteq> 10 \<and> b \<noteq> 13"
  using assms suffrage_words(1) [of sf] hex_words [of token]
  by (auto simp: joinLine_def list_all_iff dest: word_char_not split: if_splits)

lemma preserves_addServer [pres_rules]:
  assumes "store_free f" "\<And>n ss. f (n\<lparr>servers := ss\<rparr>) = f n" "\<And>n r. f (n\<lparr>raft := r\<rparr>) = f n"
  shows "preserves f (addServerLine e p a sf)"
proof -
  have "preserves f (raft_AddServer e srv)" for srv
    using assms(2) by (simp add: preserves_def raft_AddServer_def split: sum.splits)
  moreover have "preserves f (transferLeadershipToStableVoter e)"
    using assms(3) by (simp add: preserves_def transferLeadershipToStableVoter_def split: option.splits)
  ultimately show ?thesis
    unfolding addServerLine_def Let_def by (intro pres_rules assms(1))
qed

lemma preserves_handleAdd:
  assumes "store_free f" "\<And>n ss. f (n\<lparr>servers := ss\<rparr>) = f n" "\<And>n r. f (n\<lparr>raft := r\<rparr>) = f n"
  shows "preserves f (handleAdd e leader)"
proof -
  have "preserves f (initRaft e)" "preserves f awaitLeader" "preserves f (ownAddr e)"
    using assms(3) by (simp_all add: preserves_def initRaft_def awaitLeader_def ownAddr_def split: raft_state.splits sum.splits list.splits)
  moreover have "preserves f (BootstrapCluster e srv)" for srv
  proof -
    have "f (n\<lparr>servers := ss, raft := r\<rparr>) = f n" for n ss r using assms(2,3) by metis
    then show ?thesis by (simp add: preserves_def BootstrapCluster_def split: sum.splits)
  qed
  ultimately show ?thesis
    unfolding handleAdd_def bootstrapSelf_def join_cluster_def exchangeLine_def Let_def
    by (intro pres_rules assms(1))
qed

lemma touches_lodge:
  assumes "length p + length (join_json e a (if sf = Nonvoter then SuffrageLearner else SuffrageVoter)) + 7 < 2 ^ 32"
  shows "touches {SystemKey KindClusterJoin StatusPending p} (lodgeJoinRequest e p a sf)"
  unfolding lodgeJoinRequest_def using assms by (intro touch_rules touches_handleSetForward) simp_all

lemma preserves_lodge: "store_free f \<Longrightarrow> preserves f (lodgeJoinRequest e p a sf)"
  unfolding lodgeJoinRequest_def by (intro pres_rules)

lemma handleJoinStream_leader:
  assumes "raft n = Leader" "parseJoinRequest input = Inr (p, a, sf, token)"
  shows "snd (handleJoinStream e input n) = snd (admitOrLodgeJoin e p a sf token n)"
    "snd (handleForwardJoinStream e input n) = snd (admitOrLodgeJoin e p a sf token n)"
  using assms by (simp_all add: handleJoinStream_def handleForwardJoinStream_def split: prod.splits sum.splits)

text \<open>What follows a successful membership change cannot fail it and stays within the peer's own records.\<close>

lemma bind_try_total: "\<exists>r n'. m n = (r, n') \<and> bind_sto (try_sto m) k n = k r n'"
  by (cases "m n") (simp add: bind_sto_def try_sto_def)

lemma addServerLine_ok:
  assumes "add_server e \<lparr>srvID = p, srvAddress = a, srvSuffrage = sf\<rparr> (servers n) = Inr ss"
    and "wf_store (n_store n)" "length p \<le> 0xFFFF" "short_keys e"
  shows "\<exists>n'. addServerLine e p a sf n = (Inr LineOK, n') \<and> servers n' = ss \<and>
    (\<forall>k. k \<notin> member_keys p \<longrightarrow> contents (n_store n') k = contents (n_store n) k)"
proof -
  let ?role = "if sf = Nonvoter then RoleLearner else RoleVoter" and ?n = "n\<lparr>servers := ss\<rparr>"
  let ?t = "bind_sto (if sf \<noteq> Nonvoter then transferLeadershipToStableVoter e else ret ()) (\<lambda>_. ret LineOK)"
  let ?m = "bind_sto (try_sto (recordClusterMember e p ?role)) (\<lambda>_. bind_sto (try_sto (syncMemberGroups e p ?role)) (\<lambda>_. ?t))"
  have eq: "addServerLine e p a sf n = ?m ?n"
    using assms(1) by (simp add: addServerLine_def raft_AddServer_def bind_sto_def [of "try_sto (raft_AddServer e _)"] try_sto_def Let_def)
  have tr: "preserves servers (transferLeadershipToStableVoter e)" "touches K (transferLeadershipToStableVoter e)" for K
    by (simp_all add: preserves_def touches_def transferLeadershipToStableVoter_def split: option.splits)
  have "preserves servers ?m" using tr by (intro pres_rules) simp_all
  moreover have "touches (member_keys p) ?m"
    using tr touches_members [OF assms(3) subset_refl] assms(4) by (intro touch_rules) simp_all
  moreover have "fst (?t n2) = Inr LineOK" for n2
    by (simp add: bind_sto_def transferLeadershipToStableVoter_def split: option.splits)
  then have "fst (?m ?n) = Inr LineOK"
    using bind_try_total [of "recordClusterMember e p ?role" ?n] bind_try_total [of "syncMemberGroups e p ?role"] by metis
  ultimately show ?thesis
    unfolding eq preserves_def touches_def using assms(2) by (intro exI [of _ "snd (?m ?n)"]) (simp add: prod_eq_iff)
qed

subsection \<open>Properties\<close>

text \<open>
  C32. An invite decides: a leader that can change the raft configuration admits whoever presents
  a valid invite, with the suffrage the invite grants whatever suffrage was asked for and whether
  or not joins need confirmation, and the invite is gone afterwards.
\<close>

theorem invite_admits_once:
  assumes "commits e" "leads n c" "token \<noteq> []" "length token + 7 < 2 ^ 32" "length p \<le> 0xFFFF" "short_keys e"
    and "c (JoinInviteKey token) = Some (EncodeJoinInviteRecord g)"
    and "granted_sf = (if g = SuffrageLearner then Nonvoter else Voter)"
    and "add_server e \<lparr>srvID = p, srvAddress = a, srvSuffrage = granted_sf\<rparr> (servers n) = Inr ss"
  shows "\<exists>n'. admitOrLodgeJoin e p a sf token n = (Inr LineOK, n') \<and> servers n' = ss \<and>
    contents (n_store n') (JoinInviteKey token) = None"
proof -
  let ?k = "JoinInviteKey token"
  have l: "healthy (n_store n)" "wf_store (n_store n)" "contents (n_store n) = c" using assms(2) by (simp_all add: leads_def)
  have len: "length ?k + length ([] :: bytes) + 4 < 2 ^ 32" using assms(4) by (simp add: JoinInviteKey_def)
  let ?st = "(n_store n)\<lparr>kv := tbl_delete ?k (kv (n_store n))\<rparr>"
  have "applyOp (lims e) (clock e) OpConsumeInvite ?k [] (n_store n) = (Inr (EncodeJoinInviteRecord g), ?st)"
    using applyConsumeInvite_healthy [OF l(1), of ?k] l(3) assms(7) by (simp add: applyOp_def)
  then have "on_store (Apply (lims e) \<lparr>Data = EncodeCommand OpConsumeInvite ?k [], AppendedAt = clock e\<rparr>) n =
      (Inr (EncodeJoinInviteRecord g), n\<lparr>n_store := ?st\<rparr>)"
    using Apply_Encode [OF len, of "lims e" OpConsumeInvite "clock e"] by (simp add: on_store_def)
  moreover obtain i where "commit e (EncodeCommand OpConsumeInvite ?k []) = Inr i"
    using assms(1) by (cases "commit e (EncodeCommand OpConsumeInvite ?k [])") (auto simp: commits_def dest: spec [of _ "EncodeCommand OpConsumeInvite ?k []"])
  ultimately have c: "consumeJoinInvite e token n = (Inr granted_sf, n\<lparr>n_store := ?st\<rparr>)"
    using assms(8) by (simp add: consumeJoinInvite_def Let_def bind_sto_def wrap_sto_def codec_simps)
  have wf: "wf_store (n_store (n\<lparr>n_store := ?st\<rparr>))" using l(2) by (simp add: wf_store_def)
  have "servers (n\<lparr>n_store := ?st\<rparr>) = servers n" by simp
  then obtain n' where "addServerLine e p a granted_sf (n\<lparr>n_store := ?st\<rparr>) = (Inr LineOK, n')" "servers n' = ss"
    and same: "\<forall>k. k \<notin> member_keys p \<longrightarrow> contents (n_store n') k = contents ?st k"
    using addServerLine_ok [OF _ wf assms(5,6), of a granted_sf ss] assms(9) by auto
  moreover have "?k \<notin> member_keys p"
    by (auto simp: member_keys_def JoinInviteKey_def ClusterMemberKey_def GroupKey_def PeerGroupKey_def SystemKey_def split: if_splits)
  moreover have "contents ?st ?k = None" by simp
  ultimately show ?thesis
    using assms(3) c by (simp add: admitOrLodgeJoin_def bind_sto_def [of "try_sto (consumeJoinInvite e token)"] try_sto_def)
qed

theorem invite_admits_once_witness:
  "\<exists>n'. admitOrLodgeJoin solo_env [65] [47] Voter [7]
      ((solo_node [(JoinInviteKey [7], EncodeJoinInviteRecord SuffrageLearner)])\<lparr>RequireConfirmForJoin := True\<rparr>) = (Inr LineOK, n') \<and>
    last (servers n') = \<lparr>srvID = [65], srvAddress = [47], srvSuffrage = Nonvoter\<rparr>"
proof -
  let ?t = "[(JoinInviteKey [7], EncodeJoinInviteRecord SuffrageLearner)]"
  let ?n = "(solo_node ?t)\<lparr>RequireConfirmForJoin := True\<rparr>"
  have l: "leads ?n (map_of ?t)" by (simp add: leads_def solo_node_def healthy_def wf_store_def contents_def tbl_ok_def)
  have "\<exists>n'. admitOrLodgeJoin solo_env [65] [47] Voter [7] ?n = (Inr LineOK, n') \<and>
      servers n' = servers ?n @ [\<lparr>srvID = [65], srvAddress = [47], srvSuffrage = Nonvoter\<rparr>] \<and>
      contents (n_store n') (JoinInviteKey [7]) = None"
    by (rule invite_admits_once [OF solo_commits l, where g = SuffrageLearner and granted_sf = Nonvoter])
      (simp_all add: short_keys_def solo_env_def)
  then show ?thesis by auto
qed

text \<open>
  What a joining node writes, the leader reads: the join line parses back to the same peer
  id, address, suffrage and invite token, whatever bytes the token holds.
\<close>

theorem join_request_round_trip:
  assumes "list_all word_char p" "p \<noteq> []" "list_all word_char a" "a \<noteq> []"
    and "length p + length a + 2 * length token + 10 < MaxScanTokenSize"
  shows "parseJoinRequest (joinLine p a sf token @ [10]) = Inr (p, a, sf, token)"
proof -
  have l: "length (joinLine p a sf token) < MaxScanTokenSize"
    using assms(5) by (cases sf) (simp_all add: joinLine_def suffrageWord_def hex_length)
  have "scanLine (joinLine p a sf token @ [10]) = Inr (Some (joinLine p a sf token))"
    using joinLine_chars [OF assms(1,3), of sf token] l by (intro scanLine_line) auto
  moreover have "hex_EncodeToString token = [] \<longleftrightarrow> token = []" using hex_length [of token] by auto
  ultimately show ?thesis
    using joinLine_fields [OF assms(1-4), of sf token]
    by (cases sf) (auto simp: parseJoinRequest_def suffrageWord_def codec_simps)
qed

theorem join_request_round_trip_witness:
  "parseJoinRequest (joinLine [80] [47, 97] Nonvoter [1, 255] @ [10]) = Inr ([80], [47, 97], Nonvoter, [1, 255])"
  by (rule join_request_round_trip) (simp_all add: word_char_def MaxScanTokenSize_def)

text \<open>
  Confirmation is enforced: on a leader that requires it, a join request without an invite,
  however it arrives, leaves the raft configuration alone and changes no record but the pending
  request of the peer it names, whatever the disk and the network do.
\<close>

theorem join_needs_confirmation:
  assumes "raft n = Leader" "RequireConfirmForJoin n" "wf_store (n_store n)"
    and "parseJoinRequest input = Inr (p, a, sf, [])"
    and "length p + length (join_json e a (if sf = Nonvoter then SuffrageLearner else SuffrageVoter)) + 7 < 2 ^ 32"
    and "(reply, n') = handleJoinStream e input n \<or> (reply, n') = handleForwardJoinStream e input n"
  shows "servers n' = servers n \<and> raft n' = raft n \<and>
    (\<forall>k. k \<noteq> SystemKey KindClusterJoin StatusPending p \<longrightarrow> contents (n_store n') k = contents (n_store n) k)"
proof -
  have "n' = snd (admitOrLodgeJoin e p a sf [] n)"
    using handleJoinStream_leader [OF assms(1,4), of e] assms(6) by (metis snd_conv)
  then have n': "n' = snd (lodgeJoinRequest e p a sf n)"
    using assms(2) by (simp add: admitOrLodgeJoin_def bind_sto_def get_node_def)
  have "servers n' = servers n" "raft n' = raft n"
    using preserves_lodge [of servers e p a sf] preserves_lodge [of raft e p a sf] by (simp_all add: n' preserves_def)
  then show ?thesis using touches_lodge [OF assms(5)] assms(3) unfolding n' touches_def by simp
qed

theorem join_needs_confirmation_witness:
  "servers (snd (handleJoinStream solo_env (joinLine [65] [47] Voter [] @ [10])
     ((solo_node [])\<lparr>RequireConfirmForJoin := True\<rparr>))) = servers (solo_node [])"
proof -
  let ?n = "(solo_node [])\<lparr>RequireConfirmForJoin := True\<rparr>" and ?i = "joinLine [65] [47] Voter [] @ [10]"
  have parse: "parseJoinRequest ?i = Inr ([65], [47], Voter, [])"
    by (simp add: parseJoinRequest_def joinLine_def suffrageWord_def scanLine_def MaxScanTokenSize_def dropCR_def
        str_Cons strings_Fields_def space_len_def)
  have n: "raft ?n = Leader" "RequireConfirmForJoin ?n" "wf_store (n_store ?n)"
    by (simp_all add: solo_node_def wf_store_def)
  have l: "length [65 :: byte] + length (join_json solo_env [47] (if Voter = Nonvoter then SuffrageLearner else SuffrageVoter)) + 7 < 2 ^ 32"
    by (simp add: solo_env_def)
  obtain reply n' where h: "handleJoinStream solo_env ?i ?n = (reply, n')" by fastforce
  with join_needs_confirmation [OF n parse l, of reply n'] show ?thesis by simp
qed

text \<open>
  A join-request ticket works once: whatever a recruiter sends that names a correlation
  token, the device's ticket is gone afterwards, and unless the token is the one the device
  minted, nothing else on the device changes.
\<close>

theorem recruit_ticket_single_use:
  assumes "scanLine input = Inr (Some txt)" "strings_Fields txt = [leader, invite, corr]" "hex_DecodeString corr = Inr token"
  shows "joinRequestToken (snd (handleRecruitStream e input n)) = [] \<and>
    (joinRequestToken n = [] \<or> joinRequestToken n \<noteq> token \<longrightarrow>
       handleRecruitStream e input n = (str ''ERR: unknown or already-used join request ticket'' @ [10], n\<lparr>joinRequestToken := []\<rparr>))"
proof (cases "joinRequestToken n = [] \<or> joinRequestToken n \<noteq> token")
  case True
  then have "handleRecruitStream e input n = (str ''ERR: unknown or already-used join request ticket'' @ [10], n\<lparr>joinRequestToken := []\<rparr>)"
    using assms by (auto simp: handleRecruitStream_def consumeJoinRequestToken_def)
  then show ?thesis by simp
next
  case False
  let ?n = "n\<lparr>joinRequestToken := []\<rparr>"
  have "joinRequestToken (snd (handleAdd e (leader @ [35] @ invite) ?n)) = joinRequestToken ?n"
    using preserves_handleAdd [of joinRequestToken e "leader @ [35] @ invite"] unfolding preserves_def by simp
  moreover have "snd (handleRecruitStream e input n) = snd (handleAdd e (leader @ [35] @ invite) ?n)"
    using assms False by (auto simp: handleRecruitStream_def consumeJoinRequestToken_def split: prod.splits sum.splits bool.splits)
  ultimately show ?thesis using False by auto
qed

theorem recruit_ticket_single_use_witness:
  "handleRecruitStream solo_env [47, 32, 65, 66, 32, 48, 49, 10] (solo_node []) =
     (str ''ERR: unknown or already-used join request ticket'' @ [10], (solo_node [])\<lparr>joinRequestToken := []\<rparr>)"
proof -
  have 1: "scanLine [47, 32, 65, 66, 32, 48, 49, 10] = Inr (Some [47, 32, 65, 66, 32, 48, 49])"
    by (simp add: scanLine_def MaxScanTokenSize_def dropCR_def)
  have 2: "strings_Fields [47, 32, 65, 66, 32, 48, 49] = [[47], [65, 66], [48, 49]]"
    by (simp add: strings_Fields_def space_len_def)
  have 3: "hex_DecodeString [48, 49] = Inr [1]" by (simp add: fromHexChar_def)
  show ?thesis
    using recruit_ticket_single_use [OF 1 2 3, of solo_env "solo_node []"] by (simp add: solo_node_def)
qed

subsection \<open>Two gaps in admission\<close>

text \<open>The client protocol's learner join is admitted on the leader even where joins need confirmation.\<close>

lemma learner_skips_confirmation:
  assumes "raft n = Leader" "RequireConfirmForJoin n" "p \<noteq> []" "a \<noteq> []" "wf_store (n_store n)" "length p \<le> 0xFFFF" "short_keys e"
    and "add_server e \<lparr>srvID = p, srvAddress = a, srvSuffrage = Nonvoter\<rparr> (servers n) = Inr ss"
  shows "\<exists>n'. handleAddLearner e p a n = (Inr (peerID n), n') \<and> servers n' = ss"
proof -
  from addServerLine_ok [OF assms(8,5-7)] obtain n' where
    "addServerLine e p a Nonvoter n = (Inr LineOK, n')" "servers n' = ss" by blast
  then show ?thesis
    using assms(1-4) by (auto simp: handleAddLearner_def get_node_def bind_sto_def)
qed

text \<open>A recruit whose ticket address does not resolve still leaves a live invite behind.\<close>

lemma failed_recruit_leaves_invite:
  assumes "commits e" "leads n c" "splitInviteToken ticket = Inr (addr, corr)" "corr \<noteq> []" "addr \<noteq> []"
    and "entropy n = Inr token # rs" "room e c (JoinInviteKey token)" "length token + 8 < 2 ^ 32"
    and "recruitAddr e addr = Inl err"
  shows "\<exists>n'. dialAndPushRecruit e ticket sf n = (Inl err, n') \<and>
    contents (n_store n') (JoinInviteKey token) = Some (EncodeJoinInviteRecord sf)"
proof -
  let ?n = "n\<lparr>entropy := rs\<rparr>" and ?k = "JoinInviteKey token" and ?v = "EncodeJoinInviteRecord sf"
  have "accepts e OpSet ?k ?v c (c(?k \<mapsto> ?v))"
    using assms(7,8) by (intro accepts_record [OF JoinInviteKey_def]) (simp_all add: JoinInviteKey_def EncodeJoinInviteRecord_def)
  then have "runs (opForward e OpSet ?k ?v True) c (c(?k \<mapsto> ?v))" by (intro runs_op [OF assms(1)]) simp_all
  moreover have "leads ?n c" using assms(2) by (simp add: leads_def)
  ultimately obtain st where st: "opForward e OpSet ?k ?v True ?n = (Inr (), ?n\<lparr>n_store := st\<rparr>)"
    "leads (?n\<lparr>n_store := st\<rparr>) (c(?k \<mapsto> ?v))" by (rule runsE)
  have "handleConfirmForward e OpSet ?k ?v True = opForward e OpSet ?k ?v True" by (rule handleConfirmForward_other) simp
  with st(1) have "mintJoinInvite e sf n = (Inr token, ?n\<lparr>n_store := st\<rparr>)"
    using assms(6) by (simp add: mintJoinInvite_def bind_sto_def wrap_sto_def rand_read_def)
  then have "dialAndPushRecruit e ticket sf n = (Inl err, ?n\<lparr>n_store := st\<rparr>)"
    using assms(3-5,9) by (simp add: dialAndPushRecruit_def bind_sto_def [of "wrap_sto _ (mintJoinInvite e sf)"] wrap_sto_def)
  with st(2) show ?thesis by (auto simp: leads_def)
qed

end
