(* ===== verification/Daemon_Exec.thy ===== *)
theory Daemon_Exec
  imports Daemon_Join
begin

text \<open>
  Commands across nodes (src/pkg/daemon/execute.go, daemon.go): execute notifications between
  cluster members, redeeming an exec invite, and submitting a command to another cluster and
  reading its log back. Every message is authenticated by the signature it carries, not by the
  connection it came over.
\<close>

definition ExecuteProtocolID :: gostring where "ExecuteProtocolID = str ''/libp2p-kv-raft/execute/1.0.0''"
definition ClientProtocolID :: gostring where "ClientProtocolID = str ''/libp2p-kv-raft/client/1.0.0''"
definition ExecInviteRedeemProtocolID :: gostring where
  "ExecInviteRedeemProtocolID = str ''/libp2p-kv-raft/exec-invite-redeem/1.0.0''"
definition ForwardExecInviteRedeemProtocolID :: gostring where
  "ForwardExecInviteRedeemProtocolID = str ''/libp2p-kv-raft/forward-exec-invite-redeem/1.0.0''"

subsection \<open>Execute notifications\<close>

definition sendExecute :: "env \<Rightarrow> gostring \<Rightarrow> bytes \<Rightarrow> unit nd" where
  "sendExecute e dest pl = bind_sto get_node (\<lambda>n.
     bind_sto (lift_res (wrap_err ''execute: build notification: %w''
       (NewExecuteNotification (build (wr e)) (peerID n) pl))) (\<lambda>notif.
     bind_sto (lift_res (wrap_err ''execute: encode message: %w'' (Encode (wr e) notif (Some (ed25519Priv n))))) (\<lambda>buf.
     bind_sto (lift_res (wrap_err ''execute: open stream to %s: %w'' (dial e ExecuteProtocolID dest buf))) (\<lambda>respBuf.
     if length respBuf > 0 then fail (Errorf ''execute: %s'') else ret ()))))"

definition dispatchExecute :: "env \<Rightarrow> 16 word \<Rightarrow> 16 word \<Rightarrow> ptr \<Rightarrow> unit nd" where
  "dispatchExecute e sourceId destinationId v = bind_sto get_node (\<lambda>n.
     case Lookup (registry n) sourceId of
       None \<Rightarrow> fail (Errorf ''execute: no peer id registered under source id %d -- send SetKey first'')
     | Some senderKey \<Rightarrow>
         if senderKey \<noteq> peerID n then fail (Errorf ''execute: source %q is not this node's own peer id (%s)'')
         else (case Lookup (registry n) destinationId of
             None \<Rightarrow> fail (Errorf ''execute: no peer id registered under destination id %d -- send SetKey first'')
           | Some destKey \<Rightarrow>
               bind_sto (lift_res (wrap_err ''execute: invalid destination peer id %q: %w'' (peer_decode e destKey))) (\<lambda>dest.
               bind_sto (lift_res (wrap_err ''execute: value: %w'' v)) (\<lambda>pl.
               sendExecute e dest pl))))"

text \<open>\<^verbatim>\<open>fmt.Fprintf(s, "...: %v", err)\<close>: only the text of the error goes out.\<close>

definition text_err :: "string \<Rightarrow> 'a res \<Rightarrow> 'a res" where
  "text_err m r = (case r of Inl _ \<Rightarrow> Inl (Errorf m) | Inr x \<Rightarrow> Inr x)"

definition receiveExecute :: "env \<Rightarrow> bytes \<Rightarrow> unit nd" where
  "receiveExecute e buf =
     bind_sto (lift_res (text_err ''execute: decode: %v'' (Decode (wr e) buf))) (\<lambda>(m, crc, sig).
     case msgEvent m of
       Ev_execute _ _ sender v \<Rightarrow>
         bind_sto (lift_res (text_err ''execute: sender peer id: %v'' sender)) (\<lambda>senderPeerID.
         bind_sto (lift_res (text_err ''execute: value: %v'' v)) (\<lambda>pl.
         bind_sto (lift_res (text_err ''execute: invalid sender peer id %q: %v'' (peer_decode e senderPeerID))) (\<lambda>senderPeer.
         bind_sto (lift_res (text_err ''execute: extract sender public key: %v'' (pub_extract e senderPeer))) (\<lambda>senderPub.
         bind_sto (lift_res (text_err ''execute: sender public key raw bytes: %v'' (pub_raw e senderPub))) (\<lambda>raw.
         bind_sto (lift_res (text_err ''execute: %v'' (Verify (wr e) raw m crc sig))) (\<lambda>_.
         bind_sto (on_store (isInGroupSt senderPeer ReservedGroupCluster)) (\<lambda>inCluster.
         if \<not> inCluster then fail (Errorf ''execute: %s is not a current cluster member'')
         else set_node (\<lambda>n. n\<lparr>executeInbox := inbox_push senderPeerID pl (executeInbox n)\<rparr>))))))))
     | _ \<Rightarrow> fail (Errorf ''execute: expected execute, got %s''))"

text \<open>The handler answers with the error's text, or with nothing.\<close>

definition handleExecuteStream :: "env \<Rightarrow> bytes \<Rightarrow> node \<Rightarrow> bytes \<times> node" where
  "handleExecuteStream e buf n = (case receiveExecute e buf n of (r, n') \<Rightarrow> (reply_of e r, n'))"

subsection \<open>Exec invites\<close>

definition errExecInviteNotLeader :: error where
  "errExecInviteNotLeader = Errorf ''exec invite redeem: not leader''"

definition execInviteCommandRequestLogKind :: "gostring \<Rightarrow> gostring" where
  "execInviteCommandRequestLogKind commandID = str ''cmdreq:'' @ commandID"

definition execInviteCommandExecIndexKind :: "gostring \<Rightarrow> gostring" where
  "execInviteCommandExecIndexKind p = str ''cmdexec:'' @ p"

text \<open>\<^verbatim>\<open>logrecord.NewRand\<close> fills an array of exactly RandSize bytes.\<close>

definition NewRand :: "bytes nd" where
  "NewRand = bind_sto rand_read (\<lambda>b. ret (take RandSize (b @ replicate RandSize 0)))"

definition newExecInviteInstanceID :: "gostring nd" where
  "newExecInviteInstanceID =
     bind_sto (wrap_sto ''exec invite: generate instance id: %w'' rand_read) (\<lambda>b. ret (hex_EncodeToString b))"

definition appendExecInviteLogRecord :: "env \<Rightarrow> gostring \<Rightarrow> gostring \<Rightarrow> gostring \<Rightarrow> (gostring \<times> gostring) list \<Rightarrow> unit nd" where
  "appendExecInviteLogRecord e kind unitID author fs =
     bind_sto NewRand (\<lambda>rnd.
     bind_sto (lift_res (BuildKey kind unitID (word_of_int (wallclock e)) rnd)) (\<lambda>key.
     bind_sto (lift_res (record_json e \<lparr>recKind = kind, recUnitID = unitID, recTimestamp = wallclock e,
       recAuthor = author, recFields = fs, recNarrative = []\<rparr>)) (\<lambda>v.
     bind_sto (node_applyOp e OpSet key v) (\<lambda>_. ret ()))))"

definition writeExecInviteCommandRequest :: "env \<Rightarrow> gostring \<Rightarrow> gostring \<Rightarrow> gostring \<Rightarrow> gostring \<Rightarrow> gostring \<Rightarrow> unit nd" where
  "writeExecInviteCommandRequest e instanceID commandID inputsJSON redeemer target =
     bind_sto (wrap_sto ''exec invite: write command request: %w''
       (appendExecInviteLogRecord e (execInviteCommandRequestLogKind commandID) instanceID redeemer
         ([(str ''command_id'', commandID)] @ (if inputsJSON \<noteq> [] then [(str ''inputs'', inputsJSON)] else [])))) (\<lambda>_.
     bind_sto (wrap_sto ''exec invite: write requester index: %w''
       (appendExecInviteLogRecord e (execInviteCommandExecIndexKind redeemer) instanceID redeemer
         [(str ''command_id'', commandID), (str ''role'', str ''r'')])) (\<lambda>_.
     if target \<noteq> redeemer then
       wrap_sto ''exec invite: write target index: %w''
         (appendExecInviteLogRecord e (execInviteCommandExecIndexKind target) instanceID redeemer
           [(str ''command_id'', commandID), (str ''role'', str ''t'')])
     else ret ()))"

text \<open>After the state machine handed over the invite's record \<open>v\<close>: the durable request and the poke.\<close>

definition dispatchRedeemed :: "env \<Rightarrow> gostring \<Rightarrow> bytes \<Rightarrow> gostring nd" where
  "dispatchRedeemed e redeemer v =
     bind_sto (lift_res (wrap_err ''exec invite: %w'' (DecodeExecInviteRecord v))) (\<lambda>(commandID, inputsJSON, _).
     bind_sto newExecInviteInstanceID (\<lambda>instanceID.
     bind_sto (wrap_sto ''exec invite: command %s not found: %w'' (on_store (get (CommandKey commandID)))) (\<lambda>cmdValue.
     bind_sto (lift_res (wrap_err ''exec invite: decode command %s: %w'' (DecodeCommandPayload cmdValue))) (\<lambda>(_, target).
     bind_sto (writeExecInviteCommandRequest e instanceID commandID inputsJSON redeemer target) (\<lambda>_.
     bind_sto (case (poke_json e commandID instanceID, peer_decode e target) of
         (Inr poke, Inr dest) \<Rightarrow> bind_sto (try_sto (sendExecute e dest poke)) (\<lambda>_. ret ())
       | _ \<Rightarrow> ret ()) (\<lambda>_.
     ret instanceID))))))"

definition redeemOnLeader :: "env \<Rightarrow> bytes \<Rightarrow> gostring \<Rightarrow> gostring nd" where
  "redeemOnLeader e token redeemer =
     (let cmd = EncodeCommand OpConsumeExecInvite (ExecInviteKey token) redeemer in
      bind_sto (lift_res (wrap_err ''exec invite: %w'' (commit e cmd))) (\<lambda>_.
      bind_sto (wrap_sto ''invalid, already-used, or unauthorized invite: %w''
        (on_store (Apply (lims e) \<lparr>Data = cmd, AppendedAt = clock e\<rparr>))) (\<lambda>v.
      dispatchRedeemed e redeemer v)))"

definition processExecInviteRedeem :: "env \<Rightarrow> bytes \<Rightarrow> gostring nd" where
  "processExecInviteRedeem e buf =
     bind_sto (lift_res (wrap_err ''exec invite redeem: decode: %w'' (Decode (wr e) buf))) (\<lambda>(m, crc, sig).
     case msgEvent m of
       Ev_execInviteRedeem _ tok _ redeemer \<Rightarrow>
         bind_sto (lift_res (wrap_err ''exec invite redeem: redeemer peer id: %w'' redeemer)) (\<lambda>redeemerStr.
         bind_sto (lift_res (wrap_err ''exec invite redeem: token: %w'' tok)) (\<lambda>token.
         bind_sto (lift_res (wrap_err ''exec invite redeem: invalid redeemer peer id %q: %w'' (peer_decode e redeemerStr))) (\<lambda>redeemerPeer.
         bind_sto (lift_res (wrap_err ''exec invite redeem: extract redeemer public key: %w'' (pub_extract e redeemerPeer))) (\<lambda>pub.
         bind_sto (lift_res (wrap_err ''exec invite redeem: redeemer public key raw bytes: %w'' (pub_raw e pub))) (\<lambda>raw.
         bind_sto (lift_res (wrap_err ''exec invite redeem: %w'' (Verify (wr e) raw m crc sig))) (\<lambda>_.
         bind_sto resolveWriteTarget (\<lambda>(isLeader, _).
         if \<not> isLeader then fail errExecInviteNotLeader
         else redeemOnLeader e token redeemerPeer)))))))
     | _ \<Rightarrow> fail (Errorf ''exec invite redeem: expected execInviteRedeem, got %s''))"

definition forwardExecInviteRedeem :: "env \<Rightarrow> bytes \<Rightarrow> gostring nd" where
  "forwardExecInviteRedeem e buf = bind_sto get_node (\<lambda>n.
     if knownLeader n = [] then fail (Errorf ''not leader and no leader known'')
     else bind_sto (lift_res (wrap_err ''open forward stream to leader %s: %w'' (dial e ForwardExecInviteRedeemProtocolID (knownLeader n) buf))) (\<lambda>resp.
       bind_sto (lift_res (wrap_err ''read response from leader %s: %w'' (scanLine resp))) (\<lambda>answer.
       case answer of None \<Rightarrow> fail (Errorf ''no response from leader %s'') | Some a \<Rightarrow> ret a)))"

definition handleExecInviteRedeemStream :: "env \<Rightarrow> bytes \<Rightarrow> node \<Rightarrow> bytes \<times> node" where
  "handleExecInviteRedeemStream e buf n = (case processExecInviteRedeem e buf n of
      (Inr instanceID, n') \<Rightarrow> (str ''OK '' @ instanceID @ [10], n')
    | (Inl err, n') \<Rightarrow>
        if \<not> errors_is err errExecInviteNotLeader then (str ''ERR: '' @ err_text e err @ [10], n')
        else (case forwardExecInviteRedeem e buf n' of
            (Inl err2, n2) \<Rightarrow> (str ''ERR: '' @ err_text e (Errorf ''forward exec invite redeem: %v'') @ [10], n2)
          | (Inr l, n2) \<Rightarrow> (l @ [10], n2)))"

definition handleForwardExecInviteRedeemStream :: "env \<Rightarrow> bytes \<Rightarrow> node \<Rightarrow> bytes \<times> node" where
  "handleForwardExecInviteRedeemStream e buf n = (case processExecInviteRedeem e buf n of
      (Inr instanceID, n') \<Rightarrow> (str ''OK '' @ instanceID @ [10], n')
    | (Inl err, n') \<Rightarrow>
        if errors_is err errExecInviteNotLeader
        then (str ''ERR: '' @ err_text e (Errorf ''not leader; current leader is %s (already forwarded once)'') @ [10], n')
        else (str ''ERR: '' @ err_text e err @ [10], n'))"

definition dialAndRedeemExecInvite :: "env \<Rightarrow> gostring \<Rightarrow> bytes \<Rightarrow> gostring nd" where
  "dialAndRedeemExecInvite e sourceAddr token =
     bind_sto (resolveDialAddr e sourceAddr) (\<lambda>(source, _).
     bind_sto (lift_res (wrap_err ''connect to %s: %w'' (connectWithRetry e source))) (\<lambda>_.
     bind_sto get_node (\<lambda>n.
     bind_sto (lift_res (wrap_err ''exec invite redeem: build notification: %w''
       (NewExecInviteRedeemNotification (build (wr e)) (peerID n) token))) (\<lambda>notif.
     bind_sto (lift_res (wrap_err ''exec invite redeem: encode message: %w'' (Encode (wr e) notif (Some (ed25519Priv n))))) (\<lambda>buf.
     bind_sto (lift_res (wrap_err ''open exec invite redeem stream to %s: %w'' (dial e ExecInviteRedeemProtocolID source buf))) (\<lambda>resp.
     bind_sto (lift_res (wrap_err ''exec invite redeem: read response from %s: %w'' (scanLine resp))) (\<lambda>answer.
     case answer of
       None \<Rightarrow> fail (Errorf ''no response from %s'')
     | Some l \<Rightarrow> (case strings_CutPrefix l (str ''OK '') of
           Some rest \<Rightarrow> ret rest
         | None \<Rightarrow> fail (Errorf ''exec invite redeem rejected: %s'')))))))))"

subsection \<open>Submitting to another cluster\<close>

definition exchangeMsg :: "env \<Rightarrow> gostring \<Rightarrow> msg \<Rightarrow> bytes \<Rightarrow> msg res" where
  "exchangeMsg e target m priv =
     bind_res (wrap_err ''encode message: %w'' (Encode (wr e) m (Some priv))) (\<lambda>buf.
     bind_res (wrap_err ''open client stream to %s: %w'' (dial e ClientProtocolID target buf)) (\<lambda>respBuf.
     bind_res (wrap_err ''decode response from %s: %w'' (Decode (wr e) respBuf)) (\<lambda>(resp, _, _).
     Inr resp)))"

definition submittedRecord :: "env \<Rightarrow> gostring \<Rightarrow> gostring \<Rightarrow> gostring \<Rightarrow> gostring \<Rightarrow> gostring \<Rightarrow> logRecord" where
  "submittedRecord e self instanceID commandID inputsJSON note =
     \<lparr>recKind = CommandRequestLogKind commandID, recUnitID = instanceID, recTimestamp = wallclock e, recAuthor = self,
      recFields = [(str ''command_id'', commandID)] @ (if inputsJSON \<noteq> [] then [(str ''inputs'', inputsJSON)] else [])
        @ (if note \<noteq> [] then [(str ''note'', note)] else []), recNarrative = []\<rparr>"

definition dialAndSubmitCommand :: "env \<Rightarrow> gostring \<Rightarrow> gostring \<Rightarrow> gostring \<Rightarrow> gostring \<Rightarrow> gostring nd" where
  "dialAndSubmitCommand e targetAddr commandID inputsJSON note =
     bind_sto (resolveDialAddr e targetAddr) (\<lambda>(target, _).
     bind_sto get_node (\<lambda>n.
     if target = peerID n then fail (Errorf ''dial_submit_command: %s is this node itself -- a node already has every standing in its own cluster'')
     else bind_sto (lift_res (wrap_err ''connect to %s: %w'' (connectWithRetry e target))) (\<lambda>_.
     bind_sto (wrap_sto ''dial_submit_command: generate instance id: %w'' rand_read) (\<lambda>raw.
     bind_sto (wrap_sto ''dial_submit_command: %w'' NewRand) (\<lambda>rnd.
     let instanceID = hex_EncodeToString raw; kind = CommandRequestLogKind commandID in
     bind_sto (lift_res (wrap_err ''dial_submit_command: %w'' (BuildKey kind instanceID (word_of_int (wallclock e)) rnd))) (\<lambda>key.
     bind_sto (lift_res (wrap_err ''dial_submit_command: encode record: %w''
       (record_json e (submittedRecord e (peerID n) instanceID commandID inputsJSON note)))) (\<lambda>v.
     bind_sto (lift_res (wrap_err ''dial_submit_command: build message: %w'' (NewLogAppend (build (wr e)) key v))) (\<lambda>logMsg.
     bind_sto (lift_res (wrap_err ''dial_submit_command: %w'' (exchangeMsg e target logMsg (ed25519Priv n)))) (\<lambda>resp.
     if Which (msgEvent resp) = W_error then fail (Errorf ''%s rejected by %s: %s'')
     else ret instanceID)))))))))"

definition hasPublicAddr :: "env \<Rightarrow> gostring list \<Rightarrow> bool" where
  "hasPublicAddr e addrs \<longleftrightarrow> (\<exists>a \<in> set addrs. public_addr e a)"

definition dialAndSubmitPublicAccess :: "env \<Rightarrow> gostring \<Rightarrow> gostring \<Rightarrow> gostring nd" where
  "dialAndSubmitPublicAccess e targetAddr note =
     bind_sto (resolveDialAddr e targetAddr) (\<lambda>(target, addrs).
     bind_sto (dialAndSubmitCommand e targetAddr DefaultPublicCommandID [] note) (\<lambda>instanceID.
     bind_sto (isRelayCandidate e target) (\<lambda>relay.
     if relay \<and> hasPublicAddr e addrs \<and> \<not> relay_reserved e \<and> \<not> confirmed_reachable e
     then fail (Errorf ''public_access: %s granted relay standing, but no relay reservation appeared within %s -- this node is still not reachable through it'')
     else ret instanceID)))"

subsection \<open>Reading another cluster's command log\<close>

text \<open>One page: the first row the target still has in the range, with its record, or nothing.\<close>

definition queryPage :: "env \<Rightarrow> bytes \<Rightarrow> gostring \<Rightarrow> bytes \<Rightarrow> bytes \<Rightarrow> (bytes \<times> logRecord) option res" where
  "queryPage e priv target lo hi =
     bind_res (wrap_err ''dial_query_command_log: build query: %w'' (NewListRange (build (wr e)) lo hi)) (\<lambda>queryMsg.
     bind_res (wrap_err ''dial_query_command_log: %w'' (exchangeMsg e target queryMsg priv)) (\<lambda>resp.
     if Which (msgEvent resp) = W_error then Inl (Errorf ''dial_query_command_log rejected by %s: %s'')
     else case (case msgEvent resp of Ev_listRange _ _ k v \<Rightarrow> (k, v) | ev \<Rightarrow> slots e ev) of (k, v) \<Rightarrow>
       bind_res (wrap_err ''dial_query_command_log: response key: %w'' k) (\<lambda>key.
       if length key = 0 then Inr None
       else bind_res (wrap_err ''dial_query_command_log: response value: %w'' v) (\<lambda>val.
         bind_res (wrap_err ''dial_query_command_log: decode record: %w'' (record_unjson e val)) (\<lambda>rec.
         Inr (Some (key, rec)))))))"

text \<open>The loop, for as long as the daemon's context lives.\<close>

fun queryLoop :: "(bytes \<Rightarrow> (bytes \<times> 'r) option res) \<Rightarrow> int \<Rightarrow> nat \<Rightarrow> bytes \<Rightarrow> 'r list \<Rightarrow> 'r list res" where
  "queryLoop page limit left lo records =
     (if limit \<le> 0 \<or> int (length records) < limit then
        case left of
          0 \<Rightarrow> Inl (Errorf ''open client stream to %s: context canceled'')
        | Suc left' \<Rightarrow> bind_res (page lo) (\<lambda>p. case p of
              None \<Rightarrow> Inr records
            | Some (key, rec) \<Rightarrow> queryLoop page limit left' (key @ [0]) (records @ [rec]))
      else Inr records)"

definition dialAndQueryCommandLog ::
    "env \<Rightarrow> gostring \<Rightarrow> gostring \<Rightarrow> 64 word \<Rightarrow> 64 word \<Rightarrow> int \<Rightarrow> logRecord list nd" where
  "dialAndQueryCommandLog e targetAddr instanceID since until limit =
     bind_sto (resolveDialAddr e targetAddr) (\<lambda>(target, _).
     bind_sto get_node (\<lambda>n.
     if target = peerID n then fail (Errorf ''dial_query_command_log: %s is this node itself -- read its command log locally instead'')
     else bind_sto (lift_res (wrap_err ''connect to %s: %w'' (connectWithRetry e target))) (\<lambda>_.
     case ScanBounds CommandExecLogKind instanceID since until of (lo, hi) \<Rightarrow>
       lift_res (queryLoop (\<lambda>lo. queryPage e (ed25519Priv n) target lo hi) limit (pages_left e) lo []))))"

declare queryLoop.simps [simp del]

subsection \<open>What redeeming and executing can change\<close>

lemma text_err_Inr [simp]: "text_err m r = Inr x \<longleftrightarrow> r = Inr x"
  by (simp add: text_err_def split: sum.split)

text \<open>Encoded log records are far below the 4 GB the command format can carry.\<close>

definition short_records :: "env \<Rightarrow> bool" where
  "short_records e \<longleftrightarrow> (\<forall>r v. record_json e r = Inr v \<longrightarrow> length v < 2 ^ 31)"

definition log_keys :: "bytes set" where
  "log_keys = {k. prefix AllPrefix k}"

lemma touches_sendExecute [touch_rules]: "touches K (sendExecute e dest p)"
  unfolding sendExecute_def by (intro touch_rules)

lemma touches_NewRand [touch_rules]: "touches K NewRand"
  unfolding NewRand_def by (intro touch_rules)

lemma NewRand_length: "NewRand n = (Inr rnd, n') \<Longrightarrow> length rnd = RandSize"
  by (auto simp: NewRand_def elim!: bind_sto_InrE)

lemma touches_appendExecInviteLogRecord:
  assumes "short_records e" "log_keys \<subseteq> K"
  shows "touches K (appendExecInviteLogRecord e kind unitID author fs)"
  unfolding appendExecInviteLogRecord_def
proof (rule touches_bindI [OF touches_NewRand], intro touches_bind_lift)
  fix rnd n n' key v
  assume a: "NewRand n = (Inr rnd, n')" "BuildKey kind unitID (word_of_int (wallclock e)) rnd = Inr key"
    "record_json e \<lparr>recKind = kind, recUnitID = unitID, recTimestamp = wallclock e, recAuthor = author,
       recFields = fs, recNarrative = []\<rparr> = Inr v"
  have "length v < 2 ^ 31" using a(3) assms(1) unfolding short_records_def by blast
  moreover have "length key < 2 ^ 18" using a(2) NewRand_length [OF a(1)] by (auto simp: BuildKey_Inr kindUnitPrefix_def)
  ultimately have "length key + length v + 4 < 2 ^ 32" by simp
  moreover have "key \<in> K" using a(2) assms(2) log_key_head [OF a(2)] by (auto simp: log_keys_def)
  ultimately show "touches K (bind_sto (node_applyOp e OpSet key v) (\<lambda>_. ret ()))"
    unfolding node_applyOp_def
    by (intro touch_rules touches_raft_Apply) (simp_all add: applyOp_def keeps_agrees_set)
qed

lemma touches_writeExecInviteCommandRequest:
  "short_records e \<Longrightarrow> log_keys \<subseteq> K \<Longrightarrow> touches K (writeExecInviteCommandRequest e i cmd inputs redeemer target)"
  unfolding writeExecInviteCommandRequest_def by (intro touch_rules touches_appendExecInviteLogRecord)

lemma touches_dispatchRedeemed:
  "short_records e \<Longrightarrow> log_keys \<subseteq> K \<Longrightarrow> touches K (dispatchRedeemed e redeemer v)"
  unfolding dispatchRedeemed_def newExecInviteInstanceID_def
  by (intro touch_rules touches_writeExecInviteCommandRequest) (simp_all add: touch_rules read_only_intros split: sum.split)

text \<open>A successful redemption, taken apart.\<close>

lemma redeemOnLeader_Inr:
  assumes "redeemOnLeader e token redeemer n = (Inr i, n')" "leads n c" "short_records e"
    and "length token + length redeemer + 7 < 2 ^ 32" "length redeemer \<le> 0xFFFF"
  shows "\<exists>v cmd inputs expires. c (ExecInviteKey token) = Some v \<and> DecodeExecInviteRecord v = Inr (cmd, inputs, expires) \<and>
    (expires = 0 \<or> clock e < expires) \<and> permitted c cmd redeemer \<and>
    contents (n_store n') (ExecInviteKey token) = None"
proof -
  let ?k = "ExecInviteKey token"
  have l: "healthy (n_store n)" "wf_store (n_store n)" "contents (n_store n) = c" using assms(2) by (simp_all add: leads_def)
  have len: "length ?k + length redeemer + 4 < 2 ^ 32" using assms(4) by (simp add: ExecInviteKey_def)
  from assms(1) obtain v n1 where v: "on_store (Apply (lims e) \<lparr>Data = EncodeCommand OpConsumeExecInvite ?k redeemer, AppendedAt = clock e\<rparr>) n = (Inr v, n1)"
    and rest: "dispatchRedeemed e redeemer v n1 = (Inr i, n')"
    unfolding redeemOnLeader_def Let_def by (elim bind_sto_InrE) (auto simp: wrap_sto_Inr)
  have a: "applyConsumeExecInvite (clock e) ?k redeemer (n_store n) = (Inr v, n_store n1)"
    using v Apply_Encode [OF len, of "lims e" OpConsumeExecInvite "clock e"]
    by (auto simp: on_store_def applyOp_def split: prod.splits)
  obtain v' where v': "c ?k = Some v'"
    using a l by (cases "c ?k") (auto simp: applyConsumeExecInvite_def bind_wrap_get)
  obtain cmd inputs expires where d: "DecodeExecInviteRecord v' = Inr (cmd, inputs, expires)"
    using a l v' by (cases "DecodeExecInviteRecord v'") (auto simp: applyConsumeExecInvite_def bind_wrap_get)
  note eq = applyConsumeExecInvite_healthy [OF l(1,2) assms(5) _ d, of ?k "clock e"]
  have *: "expires = 0 \<or> clock e < expires" "permitted c cmd redeemer" "n_store n1 = (n_store n)\<lparr>kv := tbl_delete ?k (kv (n_store n))\<rparr>"
    using a eq l(3) v' by (auto split: if_splits)
  then have "wf_store (n_store n1)" "contents (n_store n1) ?k = None" using l(2) by (simp_all add: wf_store_def)
  moreover have "touches log_keys (dispatchRedeemed e redeemer v)" by (rule touches_dispatchRedeemed [OF assms(3) subset_refl])
  moreover have "?k \<notin> log_keys" by (simp add: log_keys_def AllPrefix_def ExecInviteKey_def SystemKey_def)
  ultimately have "contents (n_store n') ?k = None" using rest unfolding touches_def by (metis snd_conv)
  with v' d * show ?thesis by blast
qed

lemma accepts_plain:
  assumes "\<not> is_system_key key" "length key + length v + 4 < 2 ^ 32"
  shows "accepts e OpSet key v c (c(key \<mapsto> v))"
proof -
  have n: "\<nexists>st rest. key = SystemKey kind st rest" for kind
    using assms(1) by (auto simp: is_system_key_def SystemKey_def)
  show ?thesis
    using checkSystemListCap_other [OF assms(1)] checkGroupNameUnique_other [OF n] preserveCommandSpec_other [OF n]
    by (intro accepts_set assms(2)) simp
qed

lemma accepts_log:
  assumes "prefix AllPrefix key" "length key + length v + 4 < 2 ^ 32"
  shows "accepts e OpSet key v c (c(key \<mapsto> v))"
  using assms by (intro accepts_plain) (auto simp: AllPrefix_def prefix_def is_system_key_def SystemKey_def)

lemma appendExecInviteLogRecord_leader:
  assumes "commits e" "leads n c" "short_records e" "entropy n = Inr b # es" "length kind \<le> 0xFFFF" "length unitID \<le> 0xFFFF"
    and "\<not> isl (record_json e \<lparr>recKind = kind, recUnitID = unitID, recTimestamp = wallclock e, recAuthor = author,
       recFields = fs, recNarrative = []\<rparr>)"
  shows "\<exists>key v st. ParseKey key = Inr (kind, unitID, word_of_int (wallclock e)) \<and>
    appendExecInviteLogRecord e kind unitID author fs n = (Inr (), n\<lparr>entropy := es, n_store := st\<rparr>) \<and>
    leads (n\<lparr>entropy := es, n_store := st\<rparr>) (c(key \<mapsto> v))"
proof -
  let ?rnd = "take RandSize (b @ replicate RandSize 0)" and ?n = "n\<lparr>entropy := es\<rparr>"
  obtain v where v: "record_json e \<lparr>recKind = kind, recUnitID = unitID, recTimestamp = wallclock e, recAuthor = author,
       recFields = fs, recNarrative = []\<rparr> = Inr v" using assms(7) by (auto simp: isl_def split: sum.splits) (metis sum.exhaust)
  obtain key where key: "BuildKey kind unitID (word_of_int (wallclock e)) ?rnd = Inr key"
    using assms(5,6) by (simp add: BuildKey_Inr)
  have "length v < 2 ^ 31" using v assms(3) unfolding short_records_def by blast
  moreover have "length key < 2 ^ 18" using key by (auto simp: BuildKey_Inr kindUnitPrefix_def)
  ultimately have "accepts e OpSet key v c (c(key \<mapsto> v))" using log_key_head [OF key] by (intro accepts_log) simp_all
  moreover have l: "healthy (n_store ?n)" "wf_store (n_store ?n)" "contents (n_store ?n) = c" "raft ?n = Leader"
    using assms(2) by (simp_all add: leads_def)
  ultimately obtain w s' where a: "applyOp (lims e) (clock e) OpSet key v (n_store ?n) = (Inr w, s')"
    "healthy s'" "wf_store s'" "contents s' = c(key \<mapsto> v)" and len: "length key + length v + 4 < 2 ^ 32"
    unfolding accepts_def by blast
  from raft_Apply_leader [OF assms(1) len a(1)] obtain ix where
    "raft_Apply e OpSet key v ?n = (Inr (ix, w), ?n\<lparr>n_store := s'\<rparr>)" by auto
  moreover have "NewRand n = (Inr ?rnd, ?n)" using assms(4) by (simp add: NewRand_def rand_read_def bind_sto_def)
  ultimately have "appendExecInviteLogRecord e kind unitID author fs n = (Inr (), ?n\<lparr>n_store := s'\<rparr>)"
    using key v by (simp add: appendExecInviteLogRecord_def node_applyOp_def bind_sto_apply_Inr)
  moreover have "leads (?n\<lparr>n_store := s'\<rparr>) (c(key \<mapsto> v))" using a l by (simp add: leads_def)
  ultimately show ?thesis using ParseKey_BuildKey [OF key] by blast
qed

text \<open>What writing a request leaves on a leader: a row for the instance, everything else but the log as before.\<close>

definition requested :: "env \<Rightarrow> gostring \<Rightarrow> gostring \<Rightarrow> (bytes \<rightharpoonup> bytes) \<Rightarrow> bool" where
  "requested e commandID instanceID c \<longleftrightarrow>
     (\<exists>key. c key \<noteq> None \<and> ParseKey key = Inr (CommandRequestLogKind commandID, instanceID, word_of_int (wallclock e)))"

lemma writeExecInviteCommandRequest_leader:
  assumes "commits e" "leads n c" "short_records e" "\<And>r. \<not> isl (record_json e r)" "entropy n = Inr b1 # Inr b2 # Inr b3 # es"
    and "length cmd + 16 \<le> 0xFFFF" "length redeemer + 16 \<le> 0xFFFF" "length target + 16 \<le> 0xFFFF" "length i \<le> 0xFFFF"
  shows "\<exists>n' c'. writeExecInviteCommandRequest e i cmd inputs redeemer target n = (Inr (), n') \<and> leads n' c' \<and> requested e cmd i c'"
proof -
  let ?fs = "[(str ''command_id'', cmd)] @ (if inputs \<noteq> [] then [(str ''inputs'', inputs)] else [])"
  have len: "length (execInviteCommandRequestLogKind cmd) \<le> 0xFFFF" "length (execInviteCommandExecIndexKind redeemer) \<le> 0xFFFF"
    "length (execInviteCommandExecIndexKind target) \<le> 0xFFFF"
    using assms(6-8) by (simp_all add: execInviteCommandRequestLogKind_def execInviteCommandExecIndexKind_def)
  obtain k1 v1 st1 where 1: "ParseKey k1 = Inr (execInviteCommandRequestLogKind cmd, i, word_of_int (wallclock e))"
    "appendExecInviteLogRecord e (execInviteCommandRequestLogKind cmd) i redeemer ?fs n = (Inr (), n\<lparr>entropy := Inr b2 # Inr b3 # es, n_store := st1\<rparr>)"
    "leads (n\<lparr>entropy := Inr b2 # Inr b3 # es, n_store := st1\<rparr>) (c(k1 \<mapsto> v1))"
    using appendExecInviteLogRecord_leader [OF assms(1-3,5) len(1) assms(9,4)] by blast
  let ?n1 = "n\<lparr>entropy := Inr b2 # Inr b3 # es, n_store := st1\<rparr>"
  have e1: "entropy ?n1 = Inr b2 # Inr b3 # es" by simp
  obtain k2 v2 n2 where 2: "appendExecInviteLogRecord e (execInviteCommandExecIndexKind redeemer) i redeemer
      [(str ''command_id'', cmd), (str ''role'', str ''r'')] ?n1 = (Inr (), n2)" "leads n2 (c(k1 \<mapsto> v1, k2 \<mapsto> v2))" "entropy n2 = Inr b3 # es"
    using appendExecInviteLogRecord_leader [OF assms(1) 1(3) assms(3) e1 len(2) assms(9,4),
        of redeemer "[(str ''command_id'', cmd), (str ''role'', str ''r'')]"] by auto
  obtain k3 v3 n3 where 3: "appendExecInviteLogRecord e (execInviteCommandExecIndexKind target) i redeemer
      [(str ''command_id'', cmd), (str ''role'', str ''t'')] n2 = (Inr (), n3)" "leads n3 (c(k1 \<mapsto> v1, k2 \<mapsto> v2, k3 \<mapsto> v3))"
    using appendExecInviteLogRecord_leader [OF assms(1) 2(2) assms(3) 2(3) len(3) assms(9,4),
        of redeemer "[(str ''command_id'', cmd), (str ''role'', str ''t'')]"] by auto
  have r: "requested e cmd i (c(k1 \<mapsto> v1, k2 \<mapsto> v2))" "requested e cmd i (c(k1 \<mapsto> v1, k2 \<mapsto> v2, k3 \<mapsto> v3))"
    unfolding requested_def using 1(1)
    by (auto intro!: exI [of _ k1] simp: execInviteCommandRequestLogKind_def CommandRequestLogKind_def CommandRequestLogKindPrefix_def)
  have eq: "writeExecInviteCommandRequest e i cmd inputs redeemer target n = (Inr (), if target \<noteq> redeemer then n3 else n2)"
    unfolding writeExecInviteCommandRequest_def using 1(2) 2(1) 3(1)
    by (simp add: bind_sto_apply_Inr [OF wrap_sto_apply [of _ _ "Inr ()", simplified]] wrap_sto_def)
  show ?thesis
    using 2(2) 3(2) r eq by (cases "target = redeemer") auto
qed

lemma sendExecute_same: "snd (sendExecute e dest p n) = n"
  by (auto simp: sendExecute_def bind_sto_def get_node_def split: sum.splits prod.splits)

lemma dispatchRedeemed_leader:
  assumes "commits e" "leads n c" "short_records e" "\<And>r. \<not> isl (record_json e r)"
    and "entropy n = Inr b0 # Inr b1 # Inr b2 # Inr b3 # es" "length b0 = 16"
    and "DecodeExecInviteRecord v = Inr (cmd, inputs, expires)" "c (CommandKey cmd) = Some cv" "DecodeCommandPayload cv = Inr (name, target)"
    and "length cmd + 16 \<le> 0xFFFF" "length redeemer + 16 \<le> 0xFFFF" "length target + 16 \<le> 0xFFFF"
  shows "\<exists>n' c'. dispatchRedeemed e redeemer v n = (Inr (hex_EncodeToString b0), n') \<and> leads n' c' \<and>
    requested e cmd (hex_EncodeToString b0) c'"
proof -
  let ?i = "hex_EncodeToString b0" and ?n = "n\<lparr>entropy := Inr b1 # Inr b2 # Inr b3 # es\<rparr>"
  have l: "leads ?n c" using assms(2) by (simp add: leads_def)
  have "entropy ?n = Inr b1 # Inr b2 # Inr b3 # es" by simp
  from writeExecInviteCommandRequest_leader [OF assms(1) l assms(3,4) this assms(10-12), of ?i inputs]
  obtain n' c' where w: "writeExecInviteCommandRequest e ?i cmd inputs redeemer target ?n = (Inr (), n')" "leads n' c'" "requested e cmd ?i c'"
    using assms(6) by (auto simp: hex_length)
  have i: "newExecInviteInstanceID n = (Inr ?i, ?n)"
    using assms(5) by (simp add: newExecInviteInstanceID_def rand_read_def bind_sto_def wrap_sto_def)
  have g: "on_store (get (CommandKey cmd)) ?n = (Inr cv, ?n)"
    using l assms(8) by (intro on_store_same) (simp add: leads_def get_healthy lookup_res_def)
  have p: "bind_sto (case (poke_json e cmd ?i, peer_decode e target) of
         (Inr poke, Inr dest) \<Rightarrow> bind_sto (try_sto (sendExecute e dest poke)) (\<lambda>_. ret ())
       | _ \<Rightarrow> ret ()) (\<lambda>_. ret ?i) n' = (Inr ?i, n')"
    using sendExecute_same [of e _ _ n']
    by (auto simp: bind_sto_def try_sto_def split: sum.splits prod.splits) (metis snd_conv)+
  have g': "wrap_sto x (on_store (get (CommandKey cmd))) ?n = (Inr cv, ?n)" for x using g by (simp add: wrap_sto_def)
  show ?thesis
    unfolding dispatchRedeemed_def using w p assms(7,9) by (auto simp: bind_sto_apply_Inr i g')
qed

lemma redeemOnLeader_absent:
  assumes "contents (n_store n) (ExecInviteKey token) = None" "length token + length redeemer + 7 < 2 ^ 32"
  shows "isl (fst (redeemOnLeader e token redeemer n))"
proof (rule ccontr)
  let ?k = "ExecInviteKey token"
  have len: "length ?k + length redeemer + 4 < 2 ^ 32" using assms(2) by (simp add: ExecInviteKey_def)
  assume "\<not> isl (fst (redeemOnLeader e token redeemer n))"
  then obtain i n' where "redeemOnLeader e token redeemer n = (Inr i, n')" by (cases "redeemOnLeader e token redeemer n") (auto simp: isl_def, metis sum.exhaust)
  then obtain v n1 where "on_store (Apply (lims e) \<lparr>Data = EncodeCommand OpConsumeExecInvite ?k redeemer, AppendedAt = clock e\<rparr>) n = (Inr v, n1)"
    unfolding redeemOnLeader_def Let_def by (elim bind_sto_InrE) (auto simp: wrap_sto_Inr)
  then have "applyConsumeExecInvite (clock e) ?k redeemer (n_store n) = (Inr v, n_store n1)"
    using Apply_Encode [OF len, of "lims e" OpConsumeExecInvite "clock e"] by (auto simp: on_store_def applyOp_def split: prod.splits)
  then show False
    unfolding applyConsumeExecInvite_def using assms(1)
    by (elim bind_sto_InrE) (auto simp: wrap_sto_Inr contents_def dest!: get_Inr)
qed

lemma redeemOnLeader_ok:
  assumes "commits e" "leads n c" "short_records e" "\<And>r. \<not> isl (record_json e r)"
    and "entropy n = Inr b0 # Inr b1 # Inr b2 # Inr b3 # es" "length b0 = 16"
    and "c (ExecInviteKey token) = Some v" "DecodeExecInviteRecord v = Inr (cmd, inputs, expires)" "expires = 0 \<or> clock e < expires"
    and "permitted c cmd redeemer" "c (CommandKey cmd) = Some cv" "DecodeCommandPayload cv = Inr (name, target)"
    and "length token \<le> 0xFFFF" "length cmd + 16 \<le> 0xFFFF" "length redeemer + 16 \<le> 0xFFFF" "length target + 16 \<le> 0xFFFF"
  shows "\<exists>n'. redeemOnLeader e token redeemer n = (Inr (hex_EncodeToString b0), n') \<and>
    requested e cmd (hex_EncodeToString b0) (contents (n_store n')) \<and>
    contents (n_store n') (ExecInviteKey token) = None \<and> isl (fst (redeemOnLeader e token redeemer n'))"
proof -
  let ?k = "ExecInviteKey token" and ?s = "n_store n"
  let ?cmd = "EncodeCommand OpConsumeExecInvite ?k redeemer"
  let ?n = "n\<lparr>n_store := ?s\<lparr>kv := tbl_delete ?k (kv ?s)\<rparr>\<rparr>"
  have l: "healthy ?s" "wf_store ?s" "contents ?s = c" using assms(2) by (simp_all add: leads_def)
  have len: "length ?k + length redeemer + 4 < 2 ^ 32" using assms(13,15) by (simp add: ExecInviteKey_def)
  have "applyConsumeExecInvite (clock e) ?k redeemer ?s = (Inr v, n_store ?n)"
    using applyConsumeExecInvite_healthy [OF l(1,2) _ _ assms(8), of redeemer ?k "clock e"] l(3) assms(7,9,10,15) by auto
  then have "on_store (Apply (lims e) \<lparr>Data = ?cmd, AppendedAt = clock e\<rparr>) n = (Inr v, ?n)"
    using Apply_Encode [OF len, of "lims e" OpConsumeExecInvite "clock e"] by (simp add: on_store_def applyOp_def)
  moreover obtain ix where "commit e ?cmd = Inr ix"
    using assms(1) by (cases "commit e ?cmd") (auto simp: commits_def dest: spec [of _ ?cmd])
  ultimately have eq: "redeemOnLeader e token redeemer n = dispatchRedeemed e redeemer v ?n"
    by (simp add: redeemOnLeader_def Let_def bind_sto_def wrap_sto_def)
  have "CommandKey cmd \<noteq> ?k" by (simp add: CommandKey_def ExecInviteKey_def)
  then have "(c(?k := None)) (CommandKey cmd) = Some cv" using assms(11) by simp
  moreover have "leads ?n (c(?k := None))" using assms(2) by (auto simp: leads_def wf_store_def contents_def)
  moreover have "entropy ?n = Inr b0 # Inr b1 # Inr b2 # Inr b3 # es" using assms(5) by simp
  ultimately obtain n' c' where r: "dispatchRedeemed e redeemer v ?n = (Inr (hex_EncodeToString b0), n')"
    and c': "leads n' c'" "requested e cmd (hex_EncodeToString b0) c'"
    using dispatchRedeemed_leader [OF assms(1) _ assms(3,4) _ assms(6,8) _ assms(12,14,15,16)] by blast
  have "redeemOnLeader e token redeemer n = (Inr (hex_EncodeToString b0), n')" using eq r by simp
  moreover from this have "contents (n_store n') ?k = None"
    using redeemOnLeader_Inr [OF _ assms(2,3)] assms(13,15) by fastforce
  moreover from this have "isl (fst (redeemOnLeader e token redeemer n'))"
    using assms(13,15) by (intro redeemOnLeader_absent) simp_all
  ultimately show ?thesis using c' by (auto simp: leads_def)
qed

text \<open>
  A one-node cluster with a public command \<open>[5]\<close> and an invite \<open>[7]\<close> for it, in which the wire
  carries a redemption of that invite by \<open>[65]\<close>.
\<close>

definition ticket_msg :: msg where
  "ticket_msg = (new_msg (Ev_execInviteRedeem (Inr []) (Inr [7]) (Inr []) (Inr [65])))
     \<lparr>msgCrc32 := ChecksumIEEE [], msgSignature := Inr (replicate 64 9)\<rparr>"

definition ticket_env :: env where
  "ticket_env = solo_env\<lparr>record_json := \<lambda>_. Inr [], wr := (wr solo_env)\<lparr>unmarshal := \<lambda>_. Inr ticket_msg\<rparr>\<rparr>"

definition ticket_node :: node where
  "ticket_node = (solo_node [([0, 6, 0, 9], [1]), ([0, 7, 0, 5], [0, 0, 80]), ([0, 8, 0, 0, 1, 5, 9], []),
      ([0, 11, 0, 7], EncodeExecInviteRecord [5] [] 0)])
     \<lparr>entropy := [Inr (replicate 16 1), Inr (replicate 8 2), Inr (replicate 8 3), Inr (replicate 8 4)]\<rparr>"

lemma ticket_env [simp]:
  "commits ticket_env" "short_records ticket_env" "\<not> isl (record_json ticket_env r)"
  "Decode (wr ticket_env) buf = Inr (ticket_msg, ChecksumIEEE [], replicate 64 9)"
  by (simp_all add: commits_def short_records_def ticket_env_def solo_env_def Decode_def crc32Of_def
      marshalWithCrcAndEmptySig_def ticket_msg_def)

lemma ticket_node:
  "leads ticket_node (contents (n_store ticket_node))" "permitted (contents (n_store ticket_node)) [5] [65]"
  "contents (n_store ticket_node) (ExecInviteKey [7]) = Some (EncodeExecInviteRecord [5] [] 0)"
  "contents (n_store ticket_node) (CommandKey [5]) = Some [0, 0, 80]"
proof -
  show "leads ticket_node (contents (n_store ticket_node))"
    by (simp add: leads_def ticket_node_def solo_node_def healthy_def wf_store_def tbl_ok_def)
  have "command_in_group (contents (n_store ticket_node)) [5] [9]" "group_public (contents (n_store ticket_node)) [9]"
    by (simp_all add: command_in_group_def group_public_def GroupCommandKey_def GroupKey_def SystemKey_def
        contents_def be16_def ticket_node_def solo_node_def)
  then show "permitted (contents (n_store ticket_node)) [5] [65]" by (auto simp: permitted_def)
  show "contents (n_store ticket_node) (ExecInviteKey [7]) = Some (EncodeExecInviteRecord [5] [] 0)"
    "contents (n_store ticket_node) (CommandKey [5]) = Some [0, 0, 80]"
    by (simp_all add: contents_def ticket_node_def solo_node_def ExecInviteKey_def CommandKey_def SystemKey_def)
qed

lemma ticket_redeemed:
  "\<exists>n'. redeemOnLeader ticket_env [7] [65] ticket_node = (Inr (hex_EncodeToString (replicate 16 1)), n')"
proof -
  have "entropy ticket_node = [Inr (replicate 16 1), Inr (replicate 8 2), Inr (replicate 8 3), Inr (replicate 8 4)]"
    by (simp add: ticket_node_def)
  moreover have "DecodeExecInviteRecord (EncodeExecInviteRecord [5] [] 0) = Inr ([5], [], 0)" by (simp add: codec_simps)
  moreover have "DecodeCommandPayload [0, 0, 80] = Inr ([], [80])"
    by (simp add: DecodeCommandPayload_def DecodeCommandPayloadFull_def u16_at_def slice_def)
  ultimately show ?thesis
    using redeemOnLeader_ok [OF ticket_env(1) ticket_node(1) ticket_env(2,3) _ _ ticket_node(3) _ _ ticket_node(2,4), of
        "replicate 16 1" "replicate 8 2" "replicate 8 3" "replicate 8 4" "[]" "[]" 0 "[]" "[80]"] by auto
qed

subsection \<open>The paging loop\<close>

lemma snoc_zero_le: "xs @ [0] \<le> ys \<longleftrightarrow> xs < (ys :: bytes)"
proof (induction xs arbitrary: ys)
  case Nil
  show ?case by (cases ys) (auto simp: word_neq_0_conv)
next
  case (Cons x xs)
  then show ?case by (cases ys) auto
qed

lemma next_page:
  assumes "tbl_ok t" "filter (\<lambda>r. lo \<le> fst r \<and> fst r \<le> hi) t = r # rs"
  shows "filter (\<lambda>x. fst r @ [0] \<le> fst x \<and> fst x \<le> hi) t = rs"
proof -
  have sorted: "sorted_wrt (<) (map fst (r # rs))"
    using assms(1) sorted_wrt_filter [of "\<lambda>a b. fst a < fst b" t "\<lambda>r. lo \<le> fst r \<and> fst r \<le> hi"]
    by (simp add: tbl_ok_def sorted_wrt_map assms(2))
  have "lo \<le> fst r" using assms(2) by (auto simp: filter_eq_Cons_iff)
  then have "filter (\<lambda>x. fst r @ [0] \<le> fst x \<and> fst x \<le> hi) t =
      filter (\<lambda>x. fst r < fst x) (filter (\<lambda>r. lo \<le> fst r \<and> fst r \<le> hi) t)"
    by (auto simp: snoc_zero_le intro!: filter_cong)
  also have "\<dots> = rs" using sorted unfolding assms(2) by (auto simp: filter_id_conv)
  finally show ?thesis .
qed

text \<open>Paging a table row by row reads the range, in order and up to the limit, and needs one page more than there are rows.\<close>

lemma queryLoop_rows:
  assumes "tbl_ok t"
    and page: "\<And>lo. P lo \<Longrightarrow> page lo = (case filter (\<lambda>r. lo \<le> fst r \<and> fst r \<le> hi) t of
      [] \<Rightarrow> Inr None | r # _ \<Rightarrow> Inr (Some (fst r, dec (snd r))))"
    and step: "\<And>lo r. P lo \<Longrightarrow> r \<in> set t \<Longrightarrow> lo \<le> fst r \<Longrightarrow> fst r \<le> hi \<Longrightarrow> P (fst r @ [0])"
    and "P lo" "length (filter (\<lambda>r. lo \<le> fst r \<and> fst r \<le> hi) t) < left"
  shows "queryLoop page limit left lo acc = Inr (acc @ map (\<lambda>r. dec (snd r))
    (let rows = filter (\<lambda>r. lo \<le> fst r \<and> fst r \<le> hi) t in if limit \<le> 0 then rows else take (nat limit - length acc) rows))"
  using assms(4,5)
proof (induction left arbitrary: lo acc)
  case (Suc left)
  let ?rows = "filter (\<lambda>r. lo \<le> fst r \<and> fst r \<le> hi) t"
  show ?case
  proof (cases ?rows)
    case Nil
    then show ?thesis by (subst queryLoop.simps) (simp add: page [OF Suc.prems(1)])
  next
    case (Cons r rs)
    then have "r \<in> set ?rows" by simp
    then have "P (fst r @ [0])" using step [OF Suc.prems(1)] by simp
    note next_page [OF assms(1) Cons] this
    with Suc.IH [of "fst r @ [0]" "acc @ [dec (snd r)]"] Suc.prems Cons
    have "queryLoop page limit left (fst r @ [0]) (acc @ [dec (snd r)]) =
      Inr ((acc @ [dec (snd r)]) @ map (\<lambda>r. dec (snd r)) (if limit \<le> 0 then rs else take (nat limit - Suc (length acc)) rs))"
      by (simp add: Let_def)
    moreover have "nat limit - length acc = Suc (nat limit - Suc (length acc))" if "int (length acc) < limit"
      using that by linarith
    ultimately show ?thesis
      unfolding Let_def Cons by (subst queryLoop.simps) (auto simp: page [OF Suc.prems(1)] Cons not_less)
  qed
qed simp

subsection \<open>Properties\<close>

text \<open>
  C10. Redeeming an exec invite: for a redeemer who may run the command, a live invite turns into
  one durable request under a fresh instance id, the invite is gone, and presenting it again is an
  error.
\<close>

theorem exec_invite_dispatches:
  assumes "commits e" "leads n c" "short_records e" "\<And>r. \<not> isl (record_json e r)"
    and "entropy n = Inr b0 # Inr b1 # Inr b2 # Inr b3 # es" "length b0 = 16"
    and "c (ExecInviteKey token) = Some v" "DecodeExecInviteRecord v = Inr (cmd, inputs, expires)" "expires = 0 \<or> clock e < expires"
    and "permitted c cmd redeemer" "c (CommandKey cmd) = Some cv" "DecodeCommandPayload cv = Inr (name, target)"
    and "length token \<le> 0xFFFF" "length cmd + 16 \<le> 0xFFFF" "length redeemer + 16 \<le> 0xFFFF" "length target + 16 \<le> 0xFFFF"
  shows "\<exists>n'. redeemOnLeader e token redeemer n = (Inr (hex_EncodeToString b0), n') \<and>
    requested e cmd (hex_EncodeToString b0) (contents (n_store n')) \<and>
    contents (n_store n') (ExecInviteKey token) = None \<and> isl (fst (redeemOnLeader e token redeemer n'))"
  using assms by (rule redeemOnLeader_ok)

theorem exec_invite_dispatches_witness:
  "\<exists>n'. redeemOnLeader ticket_env [7] [65] ticket_node = (Inr (hex_EncodeToString (replicate 16 1)), n') \<and>
    isl (fst (redeemOnLeader ticket_env [7] [65] n'))"
proof -
  have "entropy ticket_node = [Inr (replicate 16 1), Inr (replicate 8 2), Inr (replicate 8 3), Inr (replicate 8 4)]"
    by (simp add: ticket_node_def)
  moreover have "DecodeExecInviteRecord (EncodeExecInviteRecord [5] [] 0) = Inr ([5], [], 0)" by (simp add: codec_simps)
  moreover have "DecodeCommandPayload [0, 0, 80] = Inr ([], [80])"
    by (simp add: DecodeCommandPayload_def DecodeCommandPayloadFull_def u16_at_def slice_def)
  ultimately show ?thesis
    using exec_invite_dispatches [OF ticket_env(1) ticket_node(1) ticket_env(2,3) _ _ ticket_node(3) _ _ ticket_node(2,4), of
        "replicate 16 1" "replicate 8 2" "replicate 8 3" "replicate 8 4" "[]" "[]" 0 "[]" "[80]"] by auto
qed

text \<open>
  C33. Only the peer an invite was meant for gets its command run: when a redemption message is
  accepted, its signature is the redeemer's own whoever delivered it, a live invite for the token
  was there, the redeemer was permitted for the invite's command, and the same message delivered
  again is refused.
\<close>

theorem exec_redeem_authenticated:
  assumes "leads n c" "short_records e" "Decode (wr e) buf = Inr (m, crc, sig)"
    and "msgEvent m = Ev_execInviteRedeem a (Inr token) b (Inr p)" "peer_decode e p = Inr redeemer"
    and "length token \<le> 0xFFFF" "length redeemer \<le> 0xFFFF" "processExecInviteRedeem e buf n = (Inr i, n')"
  shows "(\<exists>pub raw. pub_extract e redeemer = Inr pub \<and> pub_raw e pub = Inr raw \<and> Verify (wr e) raw m crc sig = Inr ()) \<and>
    (\<exists>v cmd inputs expires. c (ExecInviteKey token) = Some v \<and> DecodeExecInviteRecord v = Inr (cmd, inputs, expires) \<and>
       (expires = 0 \<or> clock e < expires) \<and> permitted c cmd redeemer) \<and>
    isl (fst (processExecInviteRedeem e buf n'))"
proof -
  have l: "length token + length redeemer + 7 < 2 ^ 32" using assms(6,7) by simp
  from assms(8) obtain pub raw where v: "pub_extract e redeemer = Inr pub" "pub_raw e pub = Inr raw" "Verify (wr e) raw m crc sig = Inr ()"
    unfolding processExecInviteRedeem_def
    by (cases "pub_extract e redeemer"; simp add: assms(3-5); cases "pub_raw e (projr (pub_extract e redeemer))"; simp;
        cases "Verify (wr e) (projr (pub_raw e (projr (pub_extract e redeemer)))) m crc sig"; simp)
  have eq: "processExecInviteRedeem e buf = bind_sto resolveWriteTarget (\<lambda>(isLeader, _).
      if \<not> isLeader then fail errExecInviteNotLeader else redeemOnLeader e token redeemer)"
    unfolding processExecInviteRedeem_def using assms(3-5) v by simp
  have "redeemOnLeader e token redeemer n = (Inr i, n')"
    using assms(1,8) by (simp add: eq leads_def)
  from redeemOnLeader_Inr [OF this assms(1,2) l assms(7)]
  have r: "\<exists>v cmd inputs expires. c (ExecInviteKey token) = Some v \<and> DecodeExecInviteRecord v = Inr (cmd, inputs, expires) \<and>
       (expires = 0 \<or> clock e < expires) \<and> permitted c cmd redeemer" and "contents (n_store n') (ExecInviteKey token) = None" by blast+
  then have "isl (fst (redeemOnLeader e token redeemer n'))" using redeemOnLeader_absent l by blast
  then have "isl (fst (processExecInviteRedeem e buf n'))"
    by (simp add: eq bind_sto_def resolveWriteTarget_def split: raft_state.split)
  with v r show ?thesis by blast
qed

theorem exec_redeem_authenticated_witness:
  "\<exists>i n'. processExecInviteRedeem ticket_env [] ticket_node = (Inr i, n') \<and> isl (fst (processExecInviteRedeem ticket_env [] n'))"
proof -
  have m: "msgEvent ticket_msg = Ev_execInviteRedeem (Inr []) (Inr [7]) (Inr []) (Inr [65])" by (simp add: ticket_msg_def new_msg_def)
  have p: "peer_decode ticket_env [65] = Inr [65]" by (simp add: ticket_env_def solo_env_def)
  have "raft ticket_node = Leader" using ticket_node(1) by (simp add: leads_def)
  then have eq: "processExecInviteRedeem ticket_env [] ticket_node = redeemOnLeader ticket_env [7] [65] ticket_node"
    by (simp add: processExecInviteRedeem_def m p)
      (simp add: ticket_env_def solo_env_def Verify_def signedPayload_def marshalWithCrcAndEmptySig_def ticket_msg_def)
  obtain n' where r: "processExecInviteRedeem ticket_env [] ticket_node = (Inr (hex_EncodeToString (replicate 16 1)), n')"
    using eq ticket_redeemed by auto
  from exec_redeem_authenticated [OF ticket_node(1) ticket_env(2,4) m p _ _ this] show ?thesis using r by auto
qed


end
