(* ===== verification/Daemon_Channel.thy ===== *)
theory Daemon_Channel
  imports Daemon_ACL KV_Text
begin

text \<open>
  Channels on a node (src/pkg/daemon/channel.go): opening one towards a peer, accepting one from a
  peer, and what the local operator does with a session. A stream is the bytes that come in and
  the bytes answered; the shared-memory rings towards local callers are outside, except that
  creating or opening one may fail and that the upload ring yields a sequence of chunks.
\<close>

definition ChannelProtocolID :: gostring where "ChannelProtocolID = str ''/libp2p-kv-raft/channel/3.0.0''"
definition channelIDLength :: nat where "channelIDLength = 8"

definition newChannelID :: "gostring nd" where
  "newChannelID = bind_sto (wrap_sto ''channel: generate id: %w'' rand_read) (\<lambda>buf. ret (hex_EncodeToString buf))"

definition channelAccepted :: byte where [simp]: "channelAccepted = 0x00"
definition channelRejected :: byte where [simp]: "channelRejected = 0x01"
definition ChannelPollNoData :: byte where [simp]: "ChannelPollNoData = 0"
definition ChannelPollChunk :: byte where [simp]: "ChannelPollChunk = 1"
definition ChannelPollClosed :: byte where [simp]: "ChannelPollClosed = 2"

definition writeChannelAccept :: "bool \<Rightarrow> gostring \<Rightarrow> bytes" where
  "writeChannelAccept accepted reason = (if accepted then [channelAccepted] else channelRejected # reason)"

definition readChannelAccept :: "bytes \<Rightarrow> (byte \<times> gostring) res" where
  "readChannelAccept s = bind_res (ReadFull 1 s) (\<lambda>(statusBuf, rest).
     if statusBuf ! 0 \<noteq> channelRejected then Inr (statusBuf ! 0, []) else Inr (statusBuf ! 0, rest))"

definition set_channels :: "(channelTable \<Rightarrow> channelTable) \<Rightarrow> unit nd" where
  "set_channels f = set_node (\<lambda>n. n\<lparr>channels := f (channels n)\<rparr>)"

text \<open>Both ends register the session under an id of their own once its ring exists.\<close>

definition registerChannel :: "env \<Rightarrow> gostring \<Rightarrow> bytes \<Rightarrow> gostring \<Rightarrow> gostring \<Rightarrow> unit nd" where
  "registerChannel e peer pub ip channelID =
     set_channels (chan_register channelID (newChannelSession (wallclock e) peer pub ip))"

definition dispatchChannelOpen :: "env \<Rightarrow> gostring \<Rightarrow> gostring nd" where
  "dispatchChannelOpen e destStr =
     bind_sto (set_channels (reap (wallclock e))) (\<lambda>_.
     bind_sto (lift_res (wrap_err ''channel: invalid destination peer id %q: %w'' (peer_decode e destStr))) (\<lambda>dest.
     bind_sto get_node (\<lambda>n.
     bind_sto (lift_res (wrap_err ''channel: build handshake: %w'' (NewChannelOpenHandshake (build (wr e)) (peerID n)))) (\<lambda>notif.
     bind_sto (lift_res (wrap_err ''channel: encode handshake message: %w'' (Encode (wr e) notif (Some (ed25519Priv n))))) (\<lambda>buf.
     bind_sto (lift_res (wrap_err ''channel: open stream to %s: %w'' (dial e ChannelProtocolID dest (frameBytes buf)))) (\<lambda>resp.
     bind_sto (lift_res (wrap_err ''channel: read accept from %s: %w'' (readChannelAccept resp))) (\<lambda>(status, reason).
     if status \<noteq> channelAccepted then fail (Errorf ''channel: %s rejected: %s'')
     else
       bind_sto (lift_res (wrap_err ''channel: extract public key for %s: %w'' (pub_extract e dest))) (\<lambda>destPub.
       bind_sto (lift_res (wrap_err ''channel: raw public key for %s: %w'' (pub_raw e destPub))) (\<lambda>raw.
       bind_sto newChannelID (\<lambda>channelID.
       bind_sto (lift_res (wrap_err ''channel: create data-plane ring: %w'' (ring_create e channelID))) (\<lambda>_.
       bind_sto (registerChannel e dest raw (conn_ip e dest) channelID) (\<lambda>_.
       ret channelID))))))))))))"

text \<open>The peer's end, once the sender is known and has standing: the answer it sends.\<close>

definition admitChannel :: "env \<Rightarrow> gostring \<Rightarrow> bytes \<Rightarrow> bytes nd" where
  "admitChannel e senderPeer raw =
     bind_sto (set_channels (reap (wallclock e))) (\<lambda>_.
     bind_sto (try_sto newChannelID) (\<lambda>r. case r of
         Inl _ \<Rightarrow> ret (writeChannelAccept False (str ''internal error minting channel id''))
       | Inr channelID \<Rightarrow>
           if isl (ring_create e channelID)
           then ret (writeChannelAccept False (str ''internal error preparing data plane''))
           else
             bind_sto (registerChannel e senderPeer raw (conn_ip e senderPeer) channelID) (\<lambda>_.
             bind_sto (set_channels (pushPending (wallclock e) channelID)) (\<lambda>_.
             ret (writeChannelAccept True [])))))"

text \<open>An error closes the stream without an answer.\<close>

definition acceptChannel :: "env \<Rightarrow> bytes \<Rightarrow> bytes nd" where
  "acceptChannel e input =
     bind_sto (lift_res (readFramed input)) (\<lambda>(buf, _).
     bind_sto (lift_res (Decode (wr e) buf)) (\<lambda>(m, crc, sig).
     case msgEvent m of
       Ev_channelOpen _ sender \<Rightarrow>
         bind_sto (lift_res sender) (\<lambda>senderPeerID.
         bind_sto (lift_res (peer_decode e senderPeerID)) (\<lambda>senderPeer.
         bind_sto (lift_res (pub_extract e senderPeer)) (\<lambda>senderPub.
         bind_sto (lift_res (pub_raw e senderPub)) (\<lambda>raw.
         bind_sto (lift_res (Verify (wr e) raw m crc sig)) (\<lambda>_.
         bind_sto (isAuthorizedForGatedAccess senderPeer ReservedGroupChannel) (\<lambda>ok.
         if \<not> ok then ret (writeChannelAccept False (str ''%s is not a cluster member, in the channel group, or granted access to %s''))
         else admitChannel e senderPeer raw))))))
     | _ \<Rightarrow> fail (Errorf ''not a channelOpen'')))"

definition handleChannelStream :: "env \<Rightarrow> bytes \<Rightarrow> node \<Rightarrow> bytes \<times> node" where
  "handleChannelStream e input n = (case acceptChannel e input n of
      (Inl _, n') \<Rightarrow> ([], n') | (Inr reply, n') \<Rightarrow> (reply, n'))"

subsection \<open>The operator's side of a session\<close>

definition with_channel :: "gostring \<Rightarrow> 'a nd \<Rightarrow> (channelSession \<Rightarrow> 'a nd) \<Rightarrow> 'a nd" where
  "with_channel i missing f = bind_sto get_node (\<lambda>n. case chan_get (channels n) i of None \<Rightarrow> missing | Some s \<Rightarrow> f s)"

definition no_channel :: error where "no_channel = Errorf ''channel: no such channel %q''"

definition dispatchChannelSend :: "env \<Rightarrow> gostring \<Rightarrow> byte \<Rightarrow> bytes \<Rightarrow> unit nd" where
  "dispatchChannelSend e i purpose chunk =
     (if length chunk > channelMaxChunkSize then fail (Errorf ''channel: chunk too large: %d bytes (max %d)'')
      else with_channel i (fail no_channel) (\<lambda>s. bind_sto get_node (\<lambda>n.
        case session_write (wr e) (rate_bucket e) (wallclock e) (ed25519Priv n) purpose chunk (channelQuota n, s) of
          (r, q', s') \<Rightarrow> bind_sto (set_node (\<lambda>n. n\<lparr>channelQuota := q', channels := chan_register i s' (channels n)\<rparr>)) (\<lambda>_. lift_res r))))"

definition dispatchChannelPoll :: "env \<Rightarrow> gostring \<Rightarrow> (byte \<times> byte \<times> bytes) nd" where
  "dispatchChannelPoll e i =
     bind_sto (set_channels (reap (wallclock e))) (\<lambda>_.
     with_channel i (fail no_channel) (\<lambda>s. case popChunk s of
         Some (c, s') \<Rightarrow> bind_sto (set_channels (chan_register i s')) (\<lambda>_.
           if length (c_data c) > maxPollChunkSize
           then fail (Errorf ''channel: buffered chunk is %d bytes, larger than a poll response can carry (max %d) -- read this channel through its data-plane ring (see pkg/chandata) instead'')
           else ret (ChannelPollChunk, c_purpose c, c_data c))
       | None \<Rightarrow> if s_closed s then ret (ChannelPollClosed, ChannelPurposeData, [])
                 else ret (ChannelPollNoData, ChannelPurposeData, [])))"

definition dispatchChannelListen :: "env \<Rightarrow> (gostring \<times> gostring) nd" where
  "dispatchChannelListen e =
     bind_sto (set_channels (reap (wallclock e))) (\<lambda>_.
     bind_sto get_node (\<lambda>n. case popPending (channels n) of
         None \<Rightarrow> ret ([], [])
       | Some (i, t') \<Rightarrow> bind_sto (set_channels (\<lambda>_. t')) (\<lambda>_.
           with_channel i (ret ([], [])) (\<lambda>s. ret (i, remotePeerID s)))))"

definition dispatchChannelClose :: "gostring \<Rightarrow> unit nd" where
  "dispatchChannelClose i = with_channel i (ret ()) (\<lambda>s.
     set_channels (\<lambda>t. (chan_remove i t)\<lparr>t_gone := shut True s # t_gone t\<rparr>))"

definition setUploadRing :: "channelSession \<Rightarrow> channelSession" where
  "setUploadRing s = s\<lparr>s_up := True\<rparr>"

definition dispatchChannelDataReady :: "env \<Rightarrow> gostring \<Rightarrow> unit nd" where
  "dispatchChannelDataReady e i = with_channel i (fail no_channel) (\<lambda>s.
     bind_sto (lift_res (wrap_err ''channel: open upload ring: %w'' (ring_open e i))) (\<lambda>_.
     set_channels (chan_register i (setUploadRing s))))"

text \<open>
  The upload pump over what successive reads of the ring return; an error ends it, and so does the
  end of the list, where the session's context is cancelled. Its last act is to close the drained
  signal, and closing a closed Go channel panics.
\<close>

fun uploadLoop :: "env \<Rightarrow> bytes \<Rightarrow> (byte \<times> bytes) res list \<Rightarrow> quotaTracker \<times> channelSession \<Rightarrow> quotaTracker \<times> channelSession" where
  "uploadLoop e priv [] qs = qs"
| "uploadLoop e priv (Inl _ # reads) qs = qs"
| "uploadLoop e priv (Inr (purpose, chunk) # reads) qs =
     (case session_write (wr e) (rate_bucket e) (wallclock e) priv purpose chunk qs of
        (Inl _, q', s') \<Rightarrow> (q', markClosed (Some (Errorf ''forward upload chunk: %v'')) s')
      | (Inr _, q', s') \<Rightarrow> uploadLoop e priv reads (q', s'))"

definition double_close :: error where "double_close = Errorf ''panic: close of closed channel''"

definition pumpChannelUpload :: "env \<Rightarrow> gostring \<Rightarrow> (byte \<times> bytes) res list \<Rightarrow> unit nd" where
  "pumpChannelUpload e i reads = with_channel i (ret ()) (\<lambda>s. bind_sto get_node (\<lambda>n.
     case uploadLoop e (ed25519Priv n) reads (channelQuota n, s) of (q', s') \<Rightarrow>
       bind_sto (set_node (\<lambda>n. n\<lparr>channelQuota := q', channels := chan_register i (s'\<lparr>s_drained := True\<rparr>) (channels n)\<rparr>)) (\<lambda>_.
       if s_drained s then fail double_close else ret ())))"

definition closeWrite :: "channelSession \<Rightarrow> channelSession" where
  "closeWrite s = s\<lparr>s_open := False\<rparr>"

text \<open>The wait for the upload pump is over when the session is looked at.\<close>

definition dispatchChannelCloseWrite :: "gostring \<Rightarrow> unit nd" where
  "dispatchChannelCloseWrite i = with_channel i (ret ()) (\<lambda>s.
     if s_up s \<and> \<not> s_drained s then fail (Errorf ''channel: waiting for upload ring to drain: %w'')
     else set_channels (chan_register i (closeWrite s)))"

subsection \<open>What the table can gain\<close>

lemma set_drop_session: "set (sessions (drop_session c i t)) \<subseteq> set (sessions t)"
  by (simp add: drop_session_sessions set_alist_delete)

lemma set_reapPending: "set (sessions (reapPending now ps t)) \<subseteq> set (sessions t)"
proof (induction ps arbitrary: t)
  case (Cons p ps)
  show ?case
    using subset_trans [OF Cons [of "drop_session True (p_channelID p) t"] set_drop_session]
      Cons [of "t\<lparr>pending := pending t @ [p]\<rparr>"] by simp
qed simp

lemma set_reapIdle: "set (sessions (reapIdle now ss t)) \<subseteq> set (sessions t)"
proof (induction ss arbitrary: t)
  case (Cons x ss)
  show ?case
    using Cons [of t] subset_trans [OF Cons [of "drop_session True (fst x) t"] set_drop_session] by (cases x) simp
qed simp

lemma set_reap: "set (sessions (reap now t)) \<subseteq> set (sessions t)"
  unfolding reap_def Let_def
  using subset_trans [OF set_reapIdle set_reapPending [of now "pending t" "t\<lparr>pending := []\<rparr>"]] by simp

lemma set_pushPending: "set (sessions (pushPending now i t)) \<subseteq> set (sessions t)"
  using pushPending_sessions [of now i t] by (elim disjE) (simp_all add: set_alist_delete)

lemma set_register: "set (sessions (chan_register i s t)) \<subseteq> insert (i, s) (set (sessions t))"
  by (simp add: chan_register_def set_alist_update)

lemma snd_bind_lift: "snd (bind_sto (lift_res r) f n) = (case r of Inl _ \<Rightarrow> n | Inr x \<Rightarrow> snd (f x n))"
  by (cases r) simp_all

lemma snd_handleChannelStream: "snd (handleChannelStream e input n) = snd (acceptChannel e input n)"
  by (simp add: handleChannelStream_def split: prod.splits sum.splits)

lemma newChannelID_channels:
  obtains r n' where "newChannelID n = (r, n')" "channels n' = channels n"
proof -
  have "channels (snd (newChannelID n)) = channels n"
    by (auto simp: newChannelID_def bind_sto_def wrap_sto_def rand_read_def split: list.splits sum.splits)
  then show thesis using that by (cases "newChannelID n") auto
qed

lemma admitChannel_sessions:
  "set (sessions (channels (snd (admitChannel e peer raw n)))) \<subseteq>
     set (sessions (channels n)) \<union> {(i, newChannelSession (wallclock e) peer raw (conn_ip e peer)) | i. True}"
proof -
  let ?n = "n\<lparr>channels := reap (wallclock e) (channels n)\<rparr>"
  obtain r n' where r: "newChannelID ?n = (r, n')" "channels n' = reap (wallclock e) (channels n)"
    using newChannelID_channels [of ?n] by auto
  let ?s = "newChannelSession (wallclock e) peer raw (conn_ip e peer)"
  have "channels (snd (admitChannel e peer raw n)) = (case r of
      Inl _ \<Rightarrow> channels n'
    | Inr i \<Rightarrow> if isl (ring_create e i) then channels n' else pushPending (wallclock e) i (chan_register i ?s (channels n')))"
    using r(1) by (auto simp: admitChannel_def registerChannel_def set_channels_def bind_sto_def set_node_def try_sto_def split: sum.split)
  moreover have "set (sessions (pushPending (wallclock e) i (chan_register i ?s (channels n')))) \<subseteq> insert (i, ?s) (set (sessions (channels n)))" for i
    using set_pushPending set_register [of i ?s "channels n'"] set_reap [of "wallclock e" "channels n"] unfolding r(2) by fastforce
  ultimately show ?thesis using set_reap [of "wallclock e" "channels n"] r(2) by (fastforce split: sum.splits if_splits)
qed

subsection \<open>The table stays in bounds\<close>

definition keeps_table :: "'a nd \<Rightarrow> bool" where
  "keeps_table m \<longleftrightarrow> (\<forall>n. table_ok (channels n) \<longrightarrow> table_ok (channels (snd (m n))))"

named_theorems table_rules \<open>rules that show a node computation keeps the channel table in bounds\<close>

lemma keeps_table_preserves: "preserves channels m \<Longrightarrow> keeps_table m"
  by (simp add: preserves_def keeps_table_def)

lemma keeps_table_bind [table_rules]:
  assumes "keeps_table m" "\<And>x. keeps_table (k x)"
  shows "keeps_table (bind_sto m k)"
  unfolding keeps_table_def
proof (intro allI impI)
  fix n :: node assume t: "table_ok (channels n)"
  obtain r n' where m: "m n = (r, n')" by fastforce
  then have "table_ok (channels n')" using assms(1) t unfolding keeps_table_def by (metis snd_conv)
  with m assms(2) show "table_ok (channels (snd (bind_sto m k n)))" by (cases r) (simp_all add: bind_sto_def keeps_table_def)
qed

lemma preserves_rand [pres_rules]: "preserves channels rand_read" "preserves channels newChannelID"
proof -
  show 1: "preserves channels rand_read" by (simp add: preserves_def rand_read_def split: list.splits)
  show "preserves channels newChannelID" unfolding newChannelID_def by (intro pres_rules 1)
qed

lemma keeps_table_leaf [table_rules]:
  "keeps_table (ret x)" "keeps_table (fail err)" "keeps_table (lift_res r)" "keeps_table get_node" "keeps_table newChannelID"
  "keeps_table (try_sto newChannelID)" "keeps_table (isAuthorizedForGatedAccess i g)" "keeps_table (Pair r')"
  unfolding isAuthorizedForGatedAccess_def by (intro keeps_table_preserves pres_rules store_free_fields)+

lemma keeps_table_branch [table_rules]:
  "keeps_table m \<Longrightarrow> keeps_table m' \<Longrightarrow> keeps_table (if b then m else m')"
  "(\<And>x y. keeps_table (f2 x y)) \<Longrightarrow> keeps_table (case p of (x, y) \<Rightarrow> f2 x y)"
  "keeps_table m \<Longrightarrow> (\<And>x. keeps_table (g x)) \<Longrightarrow> keeps_table (case o' of None \<Rightarrow> m | Some x \<Rightarrow> g x)"
  "(\<And>x. keeps_table (h x)) \<Longrightarrow> (\<And>x. keeps_table (g' x)) \<Longrightarrow> keeps_table (case r of Inl x \<Rightarrow> h x | Inr x \<Rightarrow> g' x)"
  by (simp_all split: prod.splits option.splits sum.splits)

lemma keeps_table_channels [table_rules]: "(\<And>t. table_ok t \<Longrightarrow> table_ok (f t)) \<Longrightarrow> keeps_table (set_channels f)"
  by (simp add: keeps_table_def set_channels_def set_node_def)

lemma keeps_table_register [table_rules]: "keeps_table (registerChannel e peer pub ip i)"
  unfolding registerChannel_def by (intro table_rules table_ok_register) (simp_all add: newChannelSession_def)

text \<open>Working on one session: whatever happens to it, its inbox only shrinks.\<close>

lemma keeps_table_with:
  assumes "keeps_table missing" "\<And>n s. table_ok (channels n) \<Longrightarrow> length (s_inbox s) \<le> maxChannelInbox \<Longrightarrow> table_ok (channels (snd (f s n)))"
  shows "keeps_table (with_channel i missing f)"
  using assms table_ok_get
  by (auto simp: keeps_table_def with_channel_def bind_sto_def get_node_def split: option.split)

lemma uploadLoop_inbox: "s_inbox (snd (uploadLoop e priv reads (q, s))) = s_inbox s"
proof (induction reads arbitrary: q s)
  case (Cons r reads)
  show ?case
  proof (cases r)
    case (Inr c)
    obtain purpose chunk where c: "c = (purpose, chunk)" by (cases c)
    obtain w q' s' where w: "session_write (wr e) (rate_bucket e) (wallclock e) priv purpose chunk (q, s) = (w, q', s')"
      by (cases "session_write (wr e) (rate_bucket e) (wallclock e) priv purpose chunk (q, s)")
    then have "s_inbox s' = s_inbox s" by (rule session_write_inbox)
    with Inr c w Cons [of q' s'] show ?thesis by (cases w) (simp_all add: markClosed_def)
  qed simp
qed simp

lemmas channel_updates = set_channels_def set_node_def bind_sto_def get_node_def

lemma keeps_table_ops:
  "keeps_table (dispatchChannelOpen e dest)" "keeps_table (acceptChannel e input)" "keeps_table (dispatchChannelSend e i purpose chunk)"
  "keeps_table (dispatchChannelPoll e i)" "keeps_table (dispatchChannelListen e)" "keeps_table (dispatchChannelClose i)"
  "keeps_table (dispatchChannelDataReady e i)" "keeps_table (pumpChannelUpload e i reads)" "keeps_table (dispatchChannelCloseWrite i)"
proof -
  show "keeps_table (dispatchChannelOpen e dest)"
    unfolding dispatchChannelOpen_def by (intro table_rules table_ok_reap)
  have "keeps_table (admitChannel e peer raw)" for peer raw
    unfolding admitChannel_def by (intro table_rules table_ok_reap table_ok_pushPending)
  then show "keeps_table (acceptChannel e input)"
    unfolding acceptChannel_def by (intro table_rules) (simp split: event.split, intro conjI allI impI table_rules)
  show "keeps_table (dispatchChannelSend e i purpose chunk)"
    unfolding dispatchChannelSend_def
    by (intro table_rules keeps_table_with)
      (auto simp: channel_updates split: prod.split intro!: table_ok_register dest: session_write_inbox)
  show "keeps_table (dispatchChannelPoll e i)"
    unfolding dispatchChannelPoll_def
    by (intro table_rules keeps_table_with table_ok_reap)
      (auto simp: channel_updates popChunk_def split: if_splits intro!: table_ok_register)
  show "keeps_table (dispatchChannelListen e)"
    unfolding dispatchChannelListen_def
    by (rule keeps_table_bind, intro table_rules table_ok_reap)
      (auto simp: keeps_table_def channel_updates with_channel_def dest: table_ok_popPending split: option.split)
  show "keeps_table (dispatchChannelClose i)"
    unfolding dispatchChannelClose_def
    by (intro table_rules keeps_table_with) (use table_ok_remove in \<open>auto simp: channel_updates table_ok_def\<close>)
  show "keeps_table (dispatchChannelDataReady e i)"
    unfolding dispatchChannelDataReady_def
    by (intro table_rules keeps_table_with)
      (auto simp: channel_updates setUploadRing_def split: sum.split intro!: table_ok_register)
  show "keeps_table (pumpChannelUpload e i reads)"
    unfolding pumpChannelUpload_def
    by (intro table_rules keeps_table_with)
      (use uploadLoop_inbox in \<open>auto simp: channel_updates split: prod.split intro!: table_ok_register\<close>, metis snd_conv)
  show "keeps_table (dispatchChannelCloseWrite i)"
    unfolding dispatchChannelCloseWrite_def
    by (intro table_rules keeps_table_with) (auto simp: channel_updates closeWrite_def intro!: table_ok_register)
qed

subsection \<open>A handshake that succeeds\<close>

lemma reapIdle_pending [simp]: "pending (reapIdle now ss t) = pending t"
  by (induction now ss t rule: reapIdle.induct) auto

lemma pending_reap: "set (pending (reap now t)) \<subseteq> set (pending t)"
proof -
  have "set (pending (reapPending now ps t)) \<subseteq> set (pending t) \<union> set ps" for ps t
    by (induction now ps t rule: reapPending.induct) auto
  from this [of "pending t" "t\<lparr>pending := []\<rparr>"] show ?thesis by (simp add: reap_def Let_def)
qed

lemma chan_get_fresh:
  assumes "i \<notin> p_channelID ` set (pending t)"
  shows "chan_get (pushPending now i (chan_register i s t)) i = Some s"
proof -
  have "p_channelID (pending t ! 0) \<noteq> i" if "length (pending t) \<ge> maxPendingChannels"
    using assms that nth_mem [of 0 "pending t"] by fastforce
  then show ?thesis
    by (auto simp: chan_get_def pushPending_def chan_register_def Let_def drop_session_sessions update_conv' delete_conv')
qed

lemma acceptChannel_ok:
  assumes "readFramed input = Inr (buf, rest)" "Decode (wr e) buf = Inr (m, crc, sig)" "msgEvent m = Ev_channelOpen h (Inr p)"
    and "peer_decode e p = Inr peer" "pub_extract e peer = Inr pub" "pub_raw e pub = Inr raw" "Verify (wr e) raw m crc sig = Inr ()"
    and "healthy (n_store n)" "has_standing (contents (n_store n)) (peerID n) peer ReservedGroupChannel"
    and "entropy n = Inr b # es" "\<not> isl (ring_create e (hex_EncodeToString b))"
    and "hex_EncodeToString b \<notin> p_channelID ` set (pending (channels n))"
  shows "\<exists>n'. handleChannelStream e input n = ([channelAccepted], n') \<and>
    chan_get (channels n') (hex_EncodeToString b) = Some (newChannelSession (wallclock e) peer raw (conn_ip e peer))"
proof -
  let ?i = "hex_EncodeToString b" and ?s = "newChannelSession (wallclock e) peer raw (conn_ip e peer)"
  let ?t = "reap (wallclock e) (channels n)"
  let ?n = "n\<lparr>entropy := es, channels := pushPending (wallclock e) ?i (chan_register ?i ?s ?t)\<rparr>"
  have "isAuthorizedForGatedAccess peer ReservedGroupChannel n = (Inr True, n)" using isAuthorized_healthy [OF assms(8)] assms(9) by simp
  then have "acceptChannel e input n = admitChannel e peer raw n"
    using assms(1-7) by (simp add: acceptChannel_def bind_sto_def [of "isAuthorizedForGatedAccess peer ReservedGroupChannel"])
  also have "\<dots> = (Inr [channelAccepted], ?n)"
    using assms(10,11)
    by (simp add: admitChannel_def channel_updates try_sto_def newChannelID_def wrap_sto_def rand_read_def registerChannel_def writeChannelAccept_def)
  finally have "handleChannelStream e input n = ([channelAccepted], ?n)" by (simp add: handleChannelStream_def)
  moreover have "?i \<notin> p_channelID ` set (pending ?t)" using assms(12) pending_reap by blast
  ultimately show ?thesis using chan_get_fresh by auto
qed

subsection \<open>Properties\<close>



text \<open>
  A stream can only open a channel for a peer with standing: whatever bytes arrive, a session
  that is in the table afterwards was there before, or belongs to the peer whose signature the
  handshake carries and who is in the cluster group, the channel group or the node's own group;
  and it will verify chunks under exactly that peer's key.
\<close>

theorem channel_needs_standing:
  "set (sessions (channels (snd (handleChannelStream e input n)))) \<subseteq> set (sessions (channels n)) \<union>
     {(i, newChannelSession (wallclock e) peer raw (conn_ip e peer)) | i peer raw.
        has_standing (contents (n_store n)) (peerID n) peer ReservedGroupChannel \<and>
        (\<exists>buf rest m crc sig h p pub. readFramed input = Inr (buf, rest) \<and> Decode (wr e) buf = Inr (m, crc, sig) \<and>
           msgEvent m = Ev_channelOpen h (Inr p) \<and> peer_decode e p = Inr peer \<and> pub_extract e peer = Inr pub \<and>
           pub_raw e pub = Inr raw \<and> Verify (wr e) raw m crc sig = Inr ())}"
proof (cases "\<exists>buf rest m crc sig h p peer pub raw. readFramed input = Inr (buf, rest) \<and> Decode (wr e) buf = Inr (m, crc, sig) \<and>
    msgEvent m = Ev_channelOpen h (Inr p) \<and> peer_decode e p = Inr peer \<and> pub_extract e peer = Inr pub \<and>
    pub_raw e pub = Inr raw \<and> Verify (wr e) raw m crc sig = Inr ()")
  case True
  then obtain buf rest m crc sig h p peer pub raw where
    m: "readFramed input = Inr (buf, rest)" "Decode (wr e) buf = Inr (m, crc, sig)" "msgEvent m = Ev_channelOpen h (Inr p)"
      "peer_decode e p = Inr peer" "pub_extract e peer = Inr pub" "pub_raw e pub = Inr raw" "Verify (wr e) raw m crc sig = Inr ()"
    by blast
  obtain b s' where b: "isAuthorizedForGatedAccess peer ReservedGroupChannel n = (Inr b, n\<lparr>n_store := s'\<rparr>)"
    "b \<longrightarrow> has_standing (contents (n_store n)) (peerID n) peer ReservedGroupChannel" by (rule isAuthorized_any)
  have eq: "snd (handleChannelStream e input n) = (if b then snd (admitChannel e peer raw (n\<lparr>n_store := s'\<rparr>)) else n\<lparr>n_store := s'\<rparr>)"
    using m b(1) by (simp add: snd_handleChannelStream acceptChannel_def bind_sto_def [of "isAuthorizedForGatedAccess peer ReservedGroupChannel"])
  show ?thesis
  proof (cases b)
    case True
    with eq b(2) m admitChannel_sessions [of e peer raw "n\<lparr>n_store := s'\<rparr>"] show ?thesis by fastforce
  next
    case False
    with eq show ?thesis by simp
  qed
next
  case False
  have "snd (acceptChannel e input n) = n"
  proof (cases "readFramed input")
    case fr: (Inr f)
    obtain buf rest where f: "f = (buf, rest)" by (cases f)
    show ?thesis
    proof (cases "Decode (wr e) buf")
      case (Inr d)
      obtain m crc sig where d: "d = (m, crc, sig)" by (cases d)
      show ?thesis
      proof (cases "msgEvent m")
        case (Ev_channelOpen h sender)
        with False fr f Inr d show ?thesis
          by (cases sender) (auto simp: acceptChannel_def snd_bind_lift split: sum.splits)
      qed (use fr f Inr d in \<open>simp_all add: acceptChannel_def\<close>)
    qed (use fr f in \<open>simp add: acceptChannel_def\<close>)
  qed (simp add: acceptChannel_def)
  then show ?thesis by (simp add: snd_handleChannelStream)
qed

text \<open>
  C11. The channel handshake completes: when the destination gives the opener standing and both can
  draw an id and create their ring, opening returns an id under which the opener holds a session
  bound to the destination's key, and the destination holds one bound to the opener's key, which
  is the key the opener signs with.
\<close>

theorem channel_handshake_completes:
  assumes "lossless (wr e)" "wr e' = wr e" "key_pair (wr e) (ed25519Priv a) rawA"
    and "NewChannelOpenHandshake (build (wr e)) (peerID a) = Inr notif" "msgEvent notif = Ev_channelOpen h (Inr (peerID a))"
    and "Encode (wr e) notif (Some (ed25519Priv a)) = Inr buf" "length buf \<le> maxFramedMessage"
    and "peer_decode e' (peerID a) = Inr idA" "pub_extract e' idA = Inr pubA" "pub_raw e' pubA = Inr rawA"
    and "healthy (n_store b)" "has_standing (contents (n_store b)) (peerID b) idA ReservedGroupChannel"
    and "entropy b = Inr rb # bs" "\<not> isl (ring_create e' (hex_EncodeToString rb))"
    and "hex_EncodeToString rb \<notin> p_channelID ` set (pending (channels b))"
    and "peer_decode e dest = Inr idB" "pub_extract e idB = Inr pubB" "pub_raw e pubB = Inr rawB"
    and "dial e ChannelProtocolID idB (frameBytes buf) = Inr (fst (handleChannelStream e' (frameBytes buf) b))"
    and "entropy a = Inr ra # as" "\<not> isl (ring_create e (hex_EncodeToString ra))"
  shows "\<exists>a'. dispatchChannelOpen e dest a = (Inr (hex_EncodeToString ra), a') \<and>
    chan_get (channels a') (hex_EncodeToString ra) = Some (newChannelSession (wallclock e) idB rawB (conn_ip e idB)) \<and>
    chan_get (channels (snd (handleChannelStream e' (frameBytes buf) b))) (hex_EncodeToString rb) =
      Some (newChannelSession (wallclock e') idA rawA (conn_ip e' idA))"
proof -
  obtain crc sig where d: "Decode (wr e) buf = Inr (notif\<lparr>msgCrc32 := crc, msgSignature := Inr sig\<rparr>, crc, sig)"
    "Verify (wr e) rawA (notif\<lparr>msgCrc32 := crc, msgSignature := Inr sig\<rparr>) crc sig = Inr ()"
    using Decode_Encode [OF assms(1,3,6)] by blast
  have f: "readFramed (frameBytes buf) = Inr (buf, [])" using readFramed_frame [OF assms(7), of "[]"] by simp
  have "msgEvent (notif\<lparr>msgCrc32 := crc, msgSignature := Inr sig\<rparr>) = Ev_channelOpen h (Inr (peerID a))" using assms(5) by simp
  from acceptChannel_ok [OF f _ this assms(8-10) _ assms(11-15), of crc sig] d
  obtain b' where b': "handleChannelStream e' (frameBytes buf) b = ([channelAccepted], b')"
    "chan_get (channels b') (hex_EncodeToString rb) = Some (newChannelSession (wallclock e') idA rawA (conn_ip e' idA))"
    unfolding assms(2) by blast
  let ?s = "newChannelSession (wallclock e) idB rawB (conn_ip e idB)"
  let ?a = "a\<lparr>channels := chan_register (hex_EncodeToString ra) ?s (reap (wallclock e) (channels a)), entropy := as\<rparr>"
  have "readChannelAccept [channelAccepted] = Inr (channelAccepted, [])" by (simp add: readChannelAccept_def ReadFull_def)
  moreover obtain u where "ring_create e (hex_EncodeToString ra) = Inr u" using assms(21) by (cases "ring_create e (hex_EncodeToString ra)") simp_all
  ultimately have "dispatchChannelOpen e dest a = (Inr (hex_EncodeToString ra), ?a)"
    using assms(4,6,16-20) b'(1)
    by (simp add: dispatchChannelOpen_def channel_updates newChannelID_def wrap_sto_def rand_read_def registerChannel_def)
  moreover have "chan_get (channels ?a) (hex_EncodeToString ra) = Some ?s" by (simp add: chan_get_def chan_register_def update_conv')
  ultimately show ?thesis using b' by auto
qed

text \<open>Two nodes for which the hypotheses hold: the wire carries exactly the one handshake.\<close>

definition hello_msg :: msg where
  "hello_msg = (new_msg (Ev_channelOpen (Inr []) (Inr [80])))\<lparr>msgCrc32 := ChecksumIEEE [], msgSignature := Inr (replicate 64 9)\<rparr>"

definition hello_env :: env where
  "hello_env = solo_env\<lparr>wr := (wr solo_env)\<lparr>marshal := \<lambda>m. if m = hello_msg then Inr [7] else Inl ErrEOF, unmarshal := \<lambda>_. Inr hello_msg\<rparr>\<rparr>"

definition hello_node :: node where
  "hello_node = solo_node [([0, 9, 0, 0, 1, 80] @ ReservedGroupChannel, [])]"

theorem channel_handshake_completes_witness:
  "\<exists>a' i. dispatchChannelOpen (hello_env\<lparr>dial := \<lambda>_ _ buf. Inr (fst (handleChannelStream hello_env buf hello_node))\<rparr>) [66] (solo_node []) = (Inr i, a') \<and>
    chan_get (channels a') i \<noteq> None"
proof -
  let ?e = "hello_env\<lparr>dial := \<lambda>_ _ buf. Inr (fst (handleChannelStream hello_env buf hello_node))\<rparr>" and ?a = "solo_node []"
  let ?notif = "new_msg (Ev_channelOpen (Inr []) (Inr [80]))"
  note defs = hello_env_def solo_env_def solo_node_def hello_node_def hello_msg_def new_msg_def
  have 1: "lossless (wr ?e)" "wr hello_env = wr ?e" "key_pair (wr ?e) (ed25519Priv ?a) (replicate 32 7)"
    by (simp_all add: defs lossless_def key_pair_def)
  have 2: "NewChannelOpenHandshake (build (wr ?e)) (peerID ?a) = Inr ?notif" "msgEvent ?notif = Ev_channelOpen (Inr []) (Inr (peerID ?a))"
    "Encode (wr ?e) ?notif (Some (ed25519Priv ?a)) = Inr [7]" "length ([7] :: bytes) \<le> maxFramedMessage"
    by (simp_all add: defs NewChannelOpenHandshake_def Encode_def crc32Of_def marshalWithCrcAndEmptySig_def Sign_def signedPayload_def
        maxFramedMessage_def channelMaxChunkSize_def)
  have 3: "peer_decode hello_env (peerID ?a) = Inr [80]" "pub_extract hello_env [80] = Inr [80]" "pub_raw hello_env [80] = Inr (replicate 32 7)"
    "peer_decode ?e [66] = Inr [66]" "pub_extract ?e [66] = Inr [66]" "pub_raw ?e [66] = Inr (replicate 32 7)"
    by (simp_all add: defs)
  have 4: "healthy (n_store hello_node)" "has_standing (contents (n_store hello_node)) (peerID hello_node) [80] ReservedGroupChannel"
    by (simp_all add: defs healthy_def has_standing_def peer_in_group_def PeerGroupKey_def be16_def contents_def)
  have 5: "entropy hello_node = Inr (replicate 16 1) # [Inr (replicate 16 2)]" "entropy ?a = Inr (replicate 16 1) # [Inr (replicate 16 2)]"
    "\<not> isl (ring_create hello_env i)" "\<not> isl (ring_create ?e i)" "i \<notin> p_channelID ` set (pending (channels hello_node))"
    "dial ?e ChannelProtocolID [66] (frameBytes [7]) = Inr (fst (handleChannelStream hello_env (frameBytes [7]) hello_node))" for i
    by (simp_all add: defs newChannelTable_def)
  show ?thesis
    using channel_handshake_completes [OF 1 2 3(1-3) 4 5(1,3,5) 3(4-6) 5(6,2,4)] by auto
qed

text \<open>
  Announcing an upload ring twice crashes the daemon: the second announcement is accepted, and when
  its pump returns it closes a signal the first one already closed.
\<close>

lemma second_upload_panics:
  assumes "chan_get (channels n) i = Some s" "s_drained s" "ring_open e i = Inr ()"
  shows "fst (dispatchChannelDataReady e i n) = Inr ()"
    and "fst (pumpChannelUpload e i reads (snd (dispatchChannelDataReady e i n))) = Inl double_close"
  using assms
  by (auto simp: dispatchChannelDataReady_def pumpChannelUpload_def with_channel_def channel_updates setUploadRing_def
      chan_get_def chan_register_def update_conv' split: prod.split)

end
