(* ===== verification/Daemon_Dispatch.thy ===== *)
theory Daemon_Dispatch
  imports Daemon_Exec Daemon_Channel
begin

text \<open>
  The request dispatcher (src/pkg/daemon/daemon.go, handleShmEvent and handleClientStream): the
  refusals for remote callers, the signature check, the gate for callers without standing, and one
  definition per event. A handler's error becomes an error reply under the request's id. A setter
  on the request message may fail when Cap'n Proto cannot grow the message, as building one may.
\<close>

subsection \<open>Replies\<close>

definition reply_with :: "env \<Rightarrow> msg \<Rightarrow> event \<Rightarrow> msg nd" where
  "reply_with e m ev = lift_res (bind_res (build (wr e) ev) (\<lambda>_. Inr (m\<lparr>msgEvent := ev\<rparr>)))"

definition answered :: "msg \<Rightarrow> unit nd \<Rightarrow> msg nd" where
  "answered m c = bind_sto c (\<lambda>_. ret m)"

definition handleGet :: "bytes \<Rightarrow> bytes nd" where
  "handleGet key = on_store (get key)"

subsection \<open>User keys\<close>

definition ev_setKey :: "msg \<Rightarrow> ptr \<Rightarrow> msg nd" where
  "ev_setKey m v = bind_sto (lift_res v) (\<lambda>val.
     answered m (set_node (\<lambda>n. n\<lparr>registry := Register (msgId m) val (registry n)\<rparr>)))"

definition with_key :: "string \<Rightarrow> 16 word \<Rightarrow> (bytes \<Rightarrow> 'a nd) \<Rightarrow> 'a nd" where
  "with_key msg i f = bind_sto get_node (\<lambda>n. case Lookup (registry n) i of None \<Rightarrow> fail (Errorf msg) | Some k \<Rightarrow> f k)"

definition ev_getKey :: "env \<Rightarrow> msg \<Rightarrow> 16 word \<Rightarrow> msg nd" where
  "ev_getKey e m i = with_key ''no entry registered under id %d'' i (\<lambda>v. reply_with e m (Ev_getKey i (Inr v)))"

definition ev_setField :: "env \<Rightarrow> msg \<Rightarrow> 16 word \<Rightarrow> ptr \<Rightarrow> msg nd" where
  "ev_setField e m i v = with_key ''no key registered under id %d -- send SetKey first'' i (\<lambda>key.
     bind_sto (lift_res (rejectReservedKey key)) (\<lambda>_.
     bind_sto (lift_res v) (\<lambda>val. answered m (handleSetForward e key val True))))"

definition ev_set :: "env \<Rightarrow> msg \<Rightarrow> ptr \<Rightarrow> ptr \<Rightarrow> msg nd" where
  "ev_set e m k v =
     bind_sto (lift_res k) (\<lambda>key. bind_sto (lift_res v) (\<lambda>val.
     bind_sto (lift_res (rejectReservedKey key)) (\<lambda>_.
     answered m (handleSetForward e key val True))))"

fun rejectReservedKeys :: "TxnOpSpec list \<Rightarrow> unit res" where
  "rejectReservedKeys [] = Inr ()"
| "rejectReservedKeys (x # ops) = bind_res (rejectReservedKey (Key x)) (\<lambda>_. rejectReservedKeys ops)"

definition ev_txn :: "env \<Rightarrow> msg \<Rightarrow> TxnOpSpec list res \<Rightarrow> msg nd" where
  "ev_txn e m r =
     bind_sto (lift_res r) (\<lambda>ops.
     bind_sto (lift_res (rejectReservedKeys ops)) (\<lambda>_.
     bind_sto (lift_res (EncodeTxnPayload ops)) (\<lambda>raftValue.
     bind_sto (handleOpForward e OpTxn [] raftValue True) (\<lambda>_. ret m))))"

definition ev_getFieldByRegistry :: "env \<Rightarrow> msg \<Rightarrow> 16 word \<Rightarrow> msg nd" where
  "ev_getFieldByRegistry e m i = with_key ''no key registered under id %d -- send SetKey first'' i (\<lambda>key.
     bind_sto (handleGet key) (\<lambda>val. reply_with e m (Ev_getFieldByRegistry i (Inr val))))"

definition ev_getFieldByKey :: "env \<Rightarrow> msg \<Rightarrow> ptr \<Rightarrow> msg nd" where
  "ev_getFieldByKey e m k = bind_sto (lift_res k) (\<lambda>key.
     bind_sto (handleGet key) (\<lambda>val. reply_with e m (Ev_getFieldByKey k (Inr val))))"

definition ev_listRange :: "env \<Rightarrow> msg \<Rightarrow> ptr \<Rightarrow> ptr \<Rightarrow> msg nd" where
  "ev_listRange e m s en =
     bind_sto (lift_res s) (\<lambda>start. bind_sto (lift_res en) (\<lambda>stop.
     bind_sto (on_store (scanRange start stop 1)) (\<lambda>matches. case matches of
         [] \<Rightarrow> ret m
       | (k, v) # _ \<Rightarrow> reply_with e m (Ev_listRange s en (Inr k) (Inr v)))))"

definition ev_logAppend :: "env \<Rightarrow> msg \<Rightarrow> callerIdentity \<Rightarrow> ptr \<Rightarrow> ptr \<Rightarrow> msg nd" where
  "ev_logAppend e m caller k v =
     bind_sto (lift_res k) (\<lambda>key. bind_sto (lift_res v) (\<lambda>val.
     if length key = 0 \<or> key ! 0 \<noteq> LogKeyPrefix then fail (Errorf ''log_append: key must start with the reserved logrecord prefix'')
     else bind_sto (lift_res (ParseKey key)) (\<lambda>(kind, _, _).
       if ParseCommandRequestLogKind kind \<noteq> None then
         bind_sto get_node (\<lambda>n.
         bind_sto (lift_res (EncodeCommandRequestApplyPayload
           (if remotePeer caller \<noteq> [] then remotePeer caller else peerID n) val)) (\<lambda>pl.
         bind_sto (handleOpForward e OpAppendCommandRequest key pl True) (\<lambda>_. ret m)))
       else answered m (handleSetForward e key val True))))"

subsection \<open>The access-control catalog\<close>

definition voter_op :: "env \<Rightarrow> msg \<Rightarrow> byte \<Rightarrow> bytes \<Rightarrow> bytes \<Rightarrow> msg nd" where
  "voter_op e m op key1 key2 = answered m (handleConfirmForward e op key1 key2 True)"

definition ev_groupPut :: "env \<Rightarrow> msg \<Rightarrow> callerIdentity \<Rightarrow> ptr \<Rightarrow> ptr \<Rightarrow> bool \<Rightarrow> msg nd" where
  "ev_groupPut e m caller i nm public =
     bind_sto (requireVoter caller) (\<lambda>_.
     bind_sto (lift_res i) (\<lambda>g. bind_sto (lift_res nm) (\<lambda>name.
     if IsReservedGroupID g \<or> isPeerIdentityGroupID e g then fail (Errorf ''group id %q is reserved and managed automatically'')
     else voter_op e m OpSet (GroupKey g) (EncodeGroupPayload name public))))"

definition ev_groupDelete :: "env \<Rightarrow> msg \<Rightarrow> callerIdentity \<Rightarrow> ptr \<Rightarrow> msg nd" where
  "ev_groupDelete e m caller i =
     bind_sto (requireVoter caller) (\<lambda>_.
     bind_sto (lift_res i) (\<lambda>g.
     if IsReservedGroupID g \<or> isPeerIdentityGroupID e g then fail (Errorf ''group id %q is reserved and cannot be deleted'')
     else voter_op e m OpCascadeDelete (GroupKey g) []))"

definition commandValue :: "gostring \<Rightarrow> gostring \<Rightarrow> ptr option \<Rightarrow> bytes res" where
  "commandValue name p sp = (case sp of
      Some r \<Rightarrow> bind_res r (\<lambda>spec.
        if spec = [] then EncodeCommandPayloadClearingSpec name p else EncodeCommandPayloadWithSpec name p spec)
    | None \<Rightarrow> EncodeCommandPayload name p)"

definition ev_commandPut :: "env \<Rightarrow> msg \<Rightarrow> callerIdentity \<Rightarrow> ptr \<Rightarrow> ptr \<Rightarrow> ptr \<Rightarrow> ptr option \<Rightarrow> msg nd" where
  "ev_commandPut e m caller i nm p sp =
     bind_sto (requireVoter caller) (\<lambda>_.
     bind_sto (lift_res i) (\<lambda>c. bind_sto (lift_res nm) (\<lambda>name. bind_sto (lift_res p) (\<lambda>peer.
     bind_sto (lift_res (commandValue name peer sp)) (\<lambda>val.
     voter_op e m OpSet (CommandKey c) val)))))"

definition ev_commandDelete :: "env \<Rightarrow> msg \<Rightarrow> callerIdentity \<Rightarrow> ptr \<Rightarrow> msg nd" where
  "ev_commandDelete e m caller i =
     bind_sto (requireVoter caller) (\<lambda>_.
     bind_sto (lift_res i) (\<lambda>c. voter_op e m OpCascadeDelete (CommandKey c) []))"

definition ev_stationPut :: "env \<Rightarrow> msg \<Rightarrow> callerIdentity \<Rightarrow> ptr \<Rightarrow> ptr \<Rightarrow> ptr \<Rightarrow> msg nd" where
  "ev_stationPut e m caller p nm att =
     bind_sto (requireVoter caller) (\<lambda>_.
     bind_sto (lift_res p) (\<lambda>peer.
     if peer = [] then fail (Errorf ''station peer id must not be empty'')
     else bind_sto (lift_res nm) (\<lambda>name. bind_sto (lift_res att) (\<lambda>attrs.
       bind_sto (lift_res (EncodeStationPayload name attrs)) (\<lambda>val.
       voter_op e m OpSet (StationKey peer) val)))))"

definition ev_stationDelete :: "env \<Rightarrow> msg \<Rightarrow> callerIdentity \<Rightarrow> ptr \<Rightarrow> msg nd" where
  "ev_stationDelete e m caller p =
     bind_sto (requireVoter caller) (\<lambda>_.
     bind_sto (lift_res p) (\<lambda>peer. voter_op e m OpDel (StationKey peer) []))"

definition ev_groupCommandPut :: "env \<Rightarrow> msg \<Rightarrow> callerIdentity \<Rightarrow> ptr \<Rightarrow> ptr \<Rightarrow> msg nd" where
  "ev_groupCommandPut e m caller c g =
     bind_sto (requireVoter caller) (\<lambda>_.
     bind_sto (lift_res c) (\<lambda>commandID. bind_sto (lift_res g) (\<lambda>groupID.
     bind_sto (lift_res (GroupCommandKey commandID groupID)) (\<lambda>key. voter_op e m OpSet key []))))"

definition ev_groupCommandDelete :: "env \<Rightarrow> msg \<Rightarrow> callerIdentity \<Rightarrow> ptr \<Rightarrow> ptr \<Rightarrow> msg nd" where
  "ev_groupCommandDelete e m caller c g =
     bind_sto (requireVoter caller) (\<lambda>_.
     bind_sto (lift_res c) (\<lambda>commandID. bind_sto (lift_res g) (\<lambda>groupID.
     bind_sto (lift_res (GroupCommandKey commandID groupID)) (\<lambda>key. voter_op e m OpDel key []))))"

definition ev_peerGroupPut :: "env \<Rightarrow> msg \<Rightarrow> callerIdentity \<Rightarrow> ptr \<Rightarrow> ptr \<Rightarrow> msg nd" where
  "ev_peerGroupPut e m caller p g =
     bind_sto (requireVoter caller) (\<lambda>_.
     bind_sto (lift_res p) (\<lambda>peer. bind_sto (lift_res g) (\<lambda>groupID.
     if IsAutoManagedGroupID groupID then fail (Errorf ''group %q membership is managed automatically'')
     else bind_sto (lift_res (PeerGroupKey peer groupID)) (\<lambda>key. voter_op e m OpSet key []))))"

definition ev_peerGroupDelete :: "env \<Rightarrow> msg \<Rightarrow> callerIdentity \<Rightarrow> ptr \<Rightarrow> ptr \<Rightarrow> msg nd" where
  "ev_peerGroupDelete e m caller p g =
     bind_sto (requireVoter caller) (\<lambda>_.
     bind_sto (lift_res p) (\<lambda>peer. bind_sto (lift_res g) (\<lambda>groupID.
     if IsAutoManagedGroupID groupID then fail (Errorf ''group %q membership is managed automatically'')
     else bind_sto (lift_res (PeerGroupKey peer groupID)) (\<lambda>key. voter_op e m OpDel key []))))"

subsection \<open>Requests, confirmations and invites\<close>

definition ev_permitRequest :: "env \<Rightarrow> msg \<Rightarrow> byte \<Rightarrow> ptr \<Rightarrow> ptr \<Rightarrow> msg nd" where
  "ev_permitRequest e m kind p md =
     bind_sto (lift_res p) (\<lambda>peer. bind_sto (lift_res md) (\<lambda>metadata.
     answered m (handleSetForward e (SystemKey kind StatusPending peer) metadata True)))"

definition ev_permitConfirm :: "env \<Rightarrow> msg \<Rightarrow> callerIdentity \<Rightarrow> byte \<Rightarrow> ptr \<Rightarrow> msg nd" where
  "ev_permitConfirm e m caller kind p =
     bind_sto (requireVoter caller) (\<lambda>_.
     bind_sto (lift_res p) (\<lambda>peer.
     voter_op e m OpConfirm (SystemKey kind StatusPending peer) (SystemKey kind StatusConfirmed peer)))"

definition ev_permitRevoke :: "env \<Rightarrow> msg \<Rightarrow> callerIdentity \<Rightarrow> byte \<Rightarrow> ptr \<Rightarrow> msg nd" where
  "ev_permitRevoke e m caller kind p =
     bind_sto (requireVoter caller) (\<lambda>_.
     bind_sto (lift_res p) (\<lambda>peer. voter_op e m OpDel (SystemKey kind StatusConfirmed peer) []))"

definition ev_joinInviteCreate :: "env \<Rightarrow> msg \<Rightarrow> callerIdentity \<Rightarrow> ptr \<Rightarrow> byte \<Rightarrow> msg nd" where
  "ev_joinInviteCreate e m caller t sf =
     bind_sto (requireVoter caller) (\<lambda>_.
     bind_sto (lift_res t) (\<lambda>token. voter_op e m OpSet (JoinInviteKey token) (EncodeJoinInviteRecord sf)))"

definition ev_joinInviteRevoke :: "env \<Rightarrow> msg \<Rightarrow> callerIdentity \<Rightarrow> ptr \<Rightarrow> msg nd" where
  "ev_joinInviteRevoke e m caller t =
     bind_sto (requireVoter caller) (\<lambda>_.
     bind_sto (lift_res t) (\<lambda>token. voter_op e m OpDel (JoinInviteKey token) []))"

text \<open>\<^verbatim>\<open>uint64(time.Now().Unix()) + ttl\<close> wraps at 64 bits.\<close>

definition expiresAt :: "env \<Rightarrow> 64 word \<Rightarrow> 64 word" where
  "expiresAt e ttl = (if ttl \<noteq> 0 then word_of_int (wallclock e div 10 ^ 9) + ttl else 0)"

definition ev_execInviteCreate :: "env \<Rightarrow> msg \<Rightarrow> callerIdentity \<Rightarrow> ptr \<Rightarrow> ptr \<Rightarrow> ptr \<Rightarrow> 64 word \<Rightarrow> msg nd" where
  "ev_execInviteCreate e m caller t c inp ttl =
     bind_sto (requireVoter caller) (\<lambda>_.
     bind_sto (lift_res t) (\<lambda>token. bind_sto (lift_res c) (\<lambda>commandID. bind_sto (lift_res inp) (\<lambda>inputsJSON.
     voter_op e m OpSet (ExecInviteKey token) (EncodeExecInviteRecord commandID inputsJSON (expiresAt e ttl))))))"

definition ev_execInviteRevoke :: "env \<Rightarrow> msg \<Rightarrow> callerIdentity \<Rightarrow> ptr \<Rightarrow> msg nd" where
  "ev_execInviteRevoke e m caller t =
     bind_sto (requireVoter caller) (\<lambda>_.
     bind_sto (lift_res t) (\<lambda>token. voter_op e m OpDel (ExecInviteKey token) []))"

definition ev_joinRequestCreate :: "env \<Rightarrow> msg \<Rightarrow> msg nd" where
  "ev_joinRequestCreate e m =
     bind_sto (wrap_sto ''generate join request token: %w'' rand_read) (\<lambda>token.
     bind_sto (setJoinRequestToken token) (\<lambda>_.
     reply_with e m (Ev_joinRequestCreate (Inr token))))"

definition ev_joinRequestCancel :: "msg \<Rightarrow> ptr \<Rightarrow> msg nd" where
  "ev_joinRequestCancel m t = bind_sto (lift_res t) (\<lambda>token. answered m (cancelJoinRequestToken token))"

subsection \<open>Membership\<close>

definition ev_kick :: "env \<Rightarrow> msg \<Rightarrow> callerIdentity \<Rightarrow> ptr \<Rightarrow> msg nd" where
  "ev_kick e m caller p =
     bind_sto (requireVoter caller) (\<lambda>_.
     bind_sto (lift_res p) (\<lambda>peer. answered m (kickPeer e peer)))"

definition ev_leave :: "env \<Rightarrow> msg \<Rightarrow> msg nd" where
  "ev_leave e m = answered m (leaveCluster e)"

definition ev_bootstrapOrJoinCluster :: "env \<Rightarrow> msg \<Rightarrow> ptr \<Rightarrow> msg nd" where
  "ev_bootstrapOrJoinCluster e m a = bind_sto (lift_res a) (\<lambda>leaderAddr.
     bind_sto (handleAdd e leaderAddr) (\<lambda>peer. reply_with e m (Ev_bootstrapOrJoinCluster (Inr peer))))"

definition ev_addLearner :: "env \<Rightarrow> msg \<Rightarrow> callerIdentity \<Rightarrow> 16 word \<Rightarrow> ptr \<Rightarrow> msg nd" where
  "ev_addLearner e m caller i a =
     bind_sto (handleAddDispatch e i a (remotePeer caller)) (\<lambda>peer. reply_with e m (Ev_addLearner i (Inr peer)))"

definition ev_recruit :: "env \<Rightarrow> msg \<Rightarrow> ptr \<Rightarrow> byte \<Rightarrow> msg nd" where
  "ev_recruit e m t sf = bind_sto (lift_res t) (\<lambda>ticket.
     bind_sto (dialAndPushRecruit e ticket sf) (\<lambda>result. reply_with e m (Ev_recruit (Inr result) sf)))"

subsection \<open>Acting on other clusters\<close>

definition ev_execInviteRedeem :: "env \<Rightarrow> msg \<Rightarrow> ptr \<Rightarrow> ptr \<Rightarrow> ptr \<Rightarrow> msg nd" where
  "ev_execInviteRedeem e m a t r =
     bind_sto (lift_res a) (\<lambda>sourceAddr. bind_sto (lift_res t) (\<lambda>token.
     bind_sto (dialAndRedeemExecInvite e sourceAddr token) (\<lambda>i. reply_with e m (Ev_execInviteRedeem a t (Inr i) r))))"

definition ev_publicAccess :: "env \<Rightarrow> msg \<Rightarrow> ptr \<Rightarrow> ptr \<Rightarrow> msg nd" where
  "ev_publicAccess e m t nt =
     bind_sto (lift_res t) (\<lambda>target. bind_sto (lift_res nt) (\<lambda>note.
     bind_sto (dialAndSubmitPublicAccess e target note) (\<lambda>i. reply_with e m (Ev_publicAccess t nt (Inr i)))))"

definition ev_dialSubmitCommand :: "env \<Rightarrow> msg \<Rightarrow> ptr \<Rightarrow> ptr \<Rightarrow> ptr \<Rightarrow> ptr \<Rightarrow> msg nd" where
  "ev_dialSubmitCommand e m t c inp nt =
     bind_sto (lift_res t) (\<lambda>target. bind_sto (lift_res c) (\<lambda>commandID.
     bind_sto (lift_res inp) (\<lambda>inputsJSON. bind_sto (lift_res nt) (\<lambda>note.
     bind_sto (dialAndSubmitCommand e target commandID inputsJSON note) (\<lambda>i.
     reply_with e m (Ev_dialSubmitCommand t c inp nt (Inr i)))))))"

fun encodeRecords :: "env \<Rightarrow> logRecord list \<Rightarrow> bytes list res" where
  "encodeRecords e [] = Inr []"
| "encodeRecords e (r # rs) =
     bind_res (wrap_err ''shmevent: new_dial_query_command_log_response: record %d: %w'' (record_json e r)) (\<lambda>b.
     bind_res (encodeRecords e rs) (\<lambda>bs. Inr (b # bs)))"

definition NewDialQueryCommandLogResponse :: "env \<Rightarrow> logRecord list \<Rightarrow> msg res" where
  "NewDialQueryCommandLogResponse e records =
     bind_res (encodeRecords e records) (\<lambda>bs. build (wr e) (Ev_dialQueryCommandLog (Inr []) (Inr []) 0 0 0 (Inr bs)))"

definition ev_dialQueryCommandLog :: "env \<Rightarrow> msg \<Rightarrow> ptr \<Rightarrow> ptr \<Rightarrow> int \<Rightarrow> int \<Rightarrow> int \<Rightarrow> msg nd" where
  "ev_dialQueryCommandLog e m t i since until limit =
     bind_sto (lift_res t) (\<lambda>target. bind_sto (lift_res i) (\<lambda>instanceID.
     bind_sto (dialAndQueryCommandLog e target instanceID (word_of_int since) (word_of_int until) limit) (\<lambda>records.
     bind_sto (lift_res (NewDialQueryCommandLogResponse e records)) (\<lambda>resp.
     ret (resp\<lparr>msgId := msgId m\<rparr>)))))"

subsection \<open>Notifications and channels\<close>

definition ev_execute :: "env \<Rightarrow> msg \<Rightarrow> 16 word \<Rightarrow> 16 word \<Rightarrow> ptr \<Rightarrow> msg nd" where
  "ev_execute e m i j v = answered m (dispatchExecute e i j v)"

definition ev_pollExecute :: "env \<Rightarrow> msg \<Rightarrow> msg nd" where
  "ev_pollExecute e m = bind_sto get_node (\<lambda>n. case inbox_pop (executeInbox n) of
      None \<Rightarrow> ret m
    | Some (x, q) \<Rightarrow> bind_sto (set_node (\<lambda>n. n\<lparr>executeInbox := q\<rparr>)) (\<lambda>_.
        reply_with e m (Ev_pollExecute (Inr (senderPeerID x)) (Inr (executeNotification.payload x)))))"

definition ev_channelOpen :: "env \<Rightarrow> msg \<Rightarrow> ptr \<Rightarrow> ptr \<Rightarrow> msg nd" where
  "ev_channelOpen e m p s = bind_sto (lift_res p) (\<lambda>peer.
     bind_sto (dispatchChannelOpen e peer) (\<lambda>i. reply_with e m (Ev_channelOpen (Inr i) s)))"

definition ev_channelSend :: "env \<Rightarrow> msg \<Rightarrow> ptr \<Rightarrow> byte \<Rightarrow> ptr \<Rightarrow> msg nd" where
  "ev_channelSend e m i purpose c =
     bind_sto (lift_res i) (\<lambda>channelID. bind_sto (lift_res c) (\<lambda>chunk. answered m (dispatchChannelSend e channelID purpose chunk)))"

definition ev_channelPoll :: "env \<Rightarrow> msg \<Rightarrow> ptr \<Rightarrow> msg nd" where
  "ev_channelPoll e m i = bind_sto (lift_res i) (\<lambda>channelID.
     bind_sto (dispatchChannelPoll e channelID) (\<lambda>(status, purpose, chunk).
     reply_with e m (Ev_channelPoll i status purpose (Inr chunk))))"

definition ev_channelListen :: "env \<Rightarrow> msg \<Rightarrow> msg nd" where
  "ev_channelListen e m = bind_sto (dispatchChannelListen e) (\<lambda>(i, peer). reply_with e m (Ev_channelListen (Inr i) (Inr peer)))"

definition ev_channelClose :: "msg \<Rightarrow> ptr \<Rightarrow> msg nd" where
  "ev_channelClose m i = bind_sto (lift_res i) (\<lambda>channelID. answered m (dispatchChannelClose channelID))"

definition ev_channelCloseWrite :: "msg \<Rightarrow> ptr \<Rightarrow> msg nd" where
  "ev_channelCloseWrite m i = bind_sto (lift_res i) (\<lambda>channelID. answered m (dispatchChannelCloseWrite channelID))"

definition ev_channelDataReady :: "env \<Rightarrow> msg \<Rightarrow> ptr \<Rightarrow> msg nd" where
  "ev_channelDataReady e m i = bind_sto (lift_res i) (\<lambda>channelID. answered m (dispatchChannelDataReady e channelID))"

subsection \<open>Keys, addresses and versions\<close>

definition ev_getPublicKey :: "env \<Rightarrow> msg \<Rightarrow> msg nd" where
  "ev_getPublicKey e m = bind_sto get_node (\<lambda>n. reply_with e m (Ev_getPublicKey (Inr (ed25519Pub n))))"

definition ev_getPrivateKey :: "env \<Rightarrow> msg \<Rightarrow> msg nd" where
  "ev_getPrivateKey e m = bind_sto get_node (\<lambda>n. reply_with e m (Ev_getPrivateKey (Inr (ed25519Priv n))))"

definition ev_getOwnAddr :: "env \<Rightarrow> msg \<Rightarrow> msg nd" where
  "ev_getOwnAddr e m = bind_sto (ownAddr e) (\<lambda>a. reply_with e m (Ev_getOwnAddr (Inr a)))"

definition ev_getVersion :: "env \<Rightarrow> msg \<Rightarrow> msg nd" where
  "ev_getVersion e m = bind_sto (lift_res (NewGetVersionResponse (build (wr e)) (build_info e))) (\<lambda>resp.
     ret (resp\<lparr>msgId := msgId m\<rparr>))"

subsection \<open>The dispatcher\<close>

definition dispatchEvent :: "env \<Rightarrow> msg \<Rightarrow> callerIdentity \<Rightarrow> msg nd" where
  "dispatchEvent e m caller = (case msgEvent m of
      Ev_setKey v \<Rightarrow> ev_setKey m v
    | Ev_getKey i _ \<Rightarrow> ev_getKey e m i
    | Ev_setField i v \<Rightarrow> ev_setField e m i v
    | Ev_set k v \<Rightarrow> ev_set e m k v
    | Ev_txn r \<Rightarrow> ev_txn e m r
    | Ev_leave \<Rightarrow> ev_leave e m
    | Ev_kick p \<Rightarrow> ev_kick e m caller p
    | Ev_groupPut i nm public \<Rightarrow> ev_groupPut e m caller i nm public
    | Ev_groupDelete i \<Rightarrow> ev_groupDelete e m caller i
    | Ev_commandPut i nm p sp \<Rightarrow> ev_commandPut e m caller i nm p sp
    | Ev_commandDelete i \<Rightarrow> ev_commandDelete e m caller i
    | Ev_stationPut p nm att \<Rightarrow> ev_stationPut e m caller p nm att
    | Ev_stationDelete p \<Rightarrow> ev_stationDelete e m caller p
    | Ev_groupCommandPut c g \<Rightarrow> ev_groupCommandPut e m caller c g
    | Ev_groupCommandDelete c g \<Rightarrow> ev_groupCommandDelete e m caller c g
    | Ev_peerGroupPut p g \<Rightarrow> ev_peerGroupPut e m caller p g
    | Ev_peerGroupDelete p g \<Rightarrow> ev_peerGroupDelete e m caller p g
    | Ev_permitRequest kind p md \<Rightarrow> ev_permitRequest e m kind p md
    | Ev_permitConfirm kind p \<Rightarrow> ev_permitConfirm e m caller kind p
    | Ev_permitRevoke kind p \<Rightarrow> ev_permitRevoke e m caller kind p
    | Ev_joinInviteCreate t sf \<Rightarrow> ev_joinInviteCreate e m caller t sf
    | Ev_joinInviteRevoke t \<Rightarrow> ev_joinInviteRevoke e m caller t
    | Ev_execInviteCreate t c inp ttl \<Rightarrow> ev_execInviteCreate e m caller t c inp ttl
    | Ev_execInviteRevoke t \<Rightarrow> ev_execInviteRevoke e m caller t
    | Ev_joinRequestCreate _ \<Rightarrow> ev_joinRequestCreate e m
    | Ev_joinRequestCancel t \<Rightarrow> ev_joinRequestCancel m t
    | Ev_recruit t sf \<Rightarrow> ev_recruit e m t sf
    | Ev_execInviteRedeem a t _ r \<Rightarrow> ev_execInviteRedeem e m a t r
    | Ev_publicAccess t nt _ \<Rightarrow> ev_publicAccess e m t nt
    | Ev_dialSubmitCommand t c inp nt _ \<Rightarrow> ev_dialSubmitCommand e m t c inp nt
    | Ev_dialQueryCommandLog t i since until limit _ \<Rightarrow> ev_dialQueryCommandLog e m t i since until limit
    | Ev_execute i j _ v \<Rightarrow> ev_execute e m i j v
    | Ev_pollExecute _ _ \<Rightarrow> ev_pollExecute e m
    | Ev_channelOpen p s \<Rightarrow> ev_channelOpen e m p s
    | Ev_channelSend i purpose c \<Rightarrow> ev_channelSend e m i purpose c
    | Ev_channelPoll i _ _ _ \<Rightarrow> ev_channelPoll e m i
    | Ev_channelListen _ _ \<Rightarrow> ev_channelListen e m
    | Ev_channelClose i \<Rightarrow> ev_channelClose m i
    | Ev_channelCloseWrite i \<Rightarrow> ev_channelCloseWrite m i
    | Ev_channelDataReady i \<Rightarrow> ev_channelDataReady e m i
    | Ev_getFieldByRegistry i _ \<Rightarrow> ev_getFieldByRegistry e m i
    | Ev_getFieldByKey k _ \<Rightarrow> ev_getFieldByKey e m k
    | Ev_listRange s en _ _ \<Rightarrow> ev_listRange e m s en
    | Ev_logAppend k v \<Rightarrow> ev_logAppend e m caller k v
    | Ev_getPublicKey _ \<Rightarrow> ev_getPublicKey e m
    | Ev_getPrivateKey _ \<Rightarrow> ev_getPrivateKey e m
    | Ev_getOwnAddr _ \<Rightarrow> ev_getOwnAddr e m
    | Ev_getVersion _ _ _ _ _ \<Rightarrow> ev_getVersion e m
    | Ev_bootstrapOrJoinCluster a \<Rightarrow> ev_bootstrapOrJoinCluster e m a
    | Ev_addLearner i a \<Rightarrow> ev_addLearner e m caller i a
    | _ \<Rightarrow> fail (Errorf ''unknown event %s''))"

definition localOnly :: "16 word \<Rightarrow> bool" where
  "localOnly which \<longleftrightarrow> which = W_getPrivateKey \<or> which = W_getPublicKey \<or> which = W_leave \<or> which = W_execInviteRedeem \<or>
     which = W_joinRequestCreate \<or> which = W_joinRequestCancel \<or> which = W_recruit \<or> which = W_publicAccess \<or>
     which = W_dialSubmitCommand \<or> which = W_dialQueryCommandLog \<or> which = W_channelOpen \<or> which = W_channelSend \<or>
     which = W_channelPoll \<or> which = W_channelListen \<or> which = W_channelClose \<or> which = W_channelCloseWrite \<or>
     which = W_channelDataReady"

definition openToAll :: "16 word \<Rightarrow> bool" where
  "openToAll which \<longleftrightarrow> which = W_permitRequest \<or> which = W_permitConfirm \<or> which = W_setKey \<or> which = W_getKey \<or>
     which = W_bootstrapOrJoinCluster \<or> which = W_addLearner \<or> which = W_getVersion"

definition remoteGate :: "msg \<Rightarrow> callerIdentity \<Rightarrow> bool nd" where
  "remoteGate m caller =
     (if remotePeer caller = [] \<or> openToAll (Which (msgEvent m)) then ret True
      else bind_sto (isAuthorizedForGatedAccess (remotePeer caller) ReservedGroupRemote) (\<lambda>ok.
        if ok then ret True else isCommandLogCarveOut (msgEvent m) (remotePeer caller)))"

definition serveEvent :: "env \<Rightarrow> msg \<Rightarrow> 32 word \<Rightarrow> bytes \<Rightarrow> callerIdentity \<Rightarrow> msg nd" where
  "serveEvent e m crc sig caller =
     (if remotePeer caller \<noteq> [] \<and> localOnly (Which (msgEvent m)) then fail (Errorf ''%s: not available to a remote caller'')
      else bind_sto (if RequiresSignature (Which (msgEvent m)) then lift_res (Verify (wr e) (verifyPub caller) m crc sig) else ret ()) (\<lambda>_.
        bind_sto (remoteGate m caller) (\<lambda>ok.
        if \<not> ok then fail (Errorf ''%s: not permitted -- not a cluster member, in the remote group, or granted access to %s, and not a recognized public-command submission or its own log readback'')
        else dispatchEvent e m caller)))"

definition handleShmEvent :: "env \<Rightarrow> msg \<Rightarrow> 32 word \<Rightarrow> bytes \<Rightarrow> callerIdentity \<Rightarrow> node \<Rightarrow> msg res \<times> node" where
  "handleShmEvent e m crc sig caller n = (case serveEvent e m crc sig caller n of
      (Inr resp, n') \<Rightarrow> (Inr resp, n')
    | (Inl err, n') \<Rightarrow> (errorMsg e (msgId m) err, n'))"

text \<open>The bytes a client stream answers; none when the request or the reply cannot be coded.\<close>

definition encodeReply :: "env \<Rightarrow> node \<Rightarrow> msg res \<Rightarrow> bytes" where
  "encodeReply e n r = (case bind_res r (\<lambda>resp. Encode (wr e) resp (Some (ed25519Priv n))) of Inl _ \<Rightarrow> [] | Inr b \<Rightarrow> b)"

definition handleClientStream :: "env \<Rightarrow> conn \<Rightarrow> bytes \<Rightarrow> node \<Rightarrow> bytes \<times> node" where
  "handleClientStream e s buf n = (case Decode (wr e) buf of
      Inl _ \<Rightarrow> ([], n)
    | Inr (m, crc, sig) \<Rightarrow> (case remoteCaller s of
        Inl err \<Rightarrow> (encodeReply e n (errorMsg e (msgId m) err), n)
      | Inr caller \<Rightarrow> (case handleShmEvent e m crc sig caller n of (r, n') \<Rightarrow> (encodeReply e n r, n'))))"

subsection \<open>What replies look like\<close>

text \<open>\<open>returns P m\<close>: whatever the state, a result of \<open>m\<close> satisfies \<open>P\<close>.\<close>

definition returns :: "('a \<Rightarrow> bool) \<Rightarrow> 'a nd \<Rightarrow> bool" where
  "returns P m \<longleftrightarrow> (\<forall>n x n'. m n = (Inr x, n') \<longrightarrow> P x)"

named_theorems ret_rules \<open>rules that show what a node computation returns\<close>

lemma returns_bind [ret_rules]: "(\<And>x. returns P (f x)) \<Longrightarrow> returns P (bind_sto m f)"
  unfolding returns_def by (auto elim!: bind_sto_InrE)

lemma returns_leaf [ret_rules]: "P x \<Longrightarrow> returns P (ret x)" "returns P (fail err)" "(\<And>x. r = Inr x \<Longrightarrow> P x) \<Longrightarrow> returns P (lift_res r)"
  by (auto simp: returns_def)

lemma returns_branch [ret_rules]:
  "returns P m \<Longrightarrow> returns P m' \<Longrightarrow> returns P (if b then m else m')"
  "(\<And>x y. returns P (f2 x y)) \<Longrightarrow> returns P (case p of (x, y) \<Rightarrow> f2 x y)"
  "returns P m \<Longrightarrow> (\<And>x. returns P (g x)) \<Longrightarrow> returns P (case o' of None \<Rightarrow> m | Some x \<Rightarrow> g x)"
  "returns P m \<Longrightarrow> (\<And>x xs. returns P (h x xs)) \<Longrightarrow> returns P (case l of [] \<Rightarrow> m | x # xs \<Rightarrow> h x xs)"
  by (simp_all split: prod.splits option.splits list.splits)

text \<open>Building a message gives the event that was built; this is what Cap'n Proto promises.\<close>

definition builds :: "env \<Rightarrow> bool" where
  "builds e \<longleftrightarrow> (\<forall>ev m. build (wr e) ev = Inr m \<longrightarrow> msgEvent m = ev)"

definition replies_to :: "msg \<Rightarrow> msg \<Rightarrow> bool" where
  "replies_to m r \<longleftrightarrow> msgId r = msgId m \<and> Which (msgEvent r) = Which (msgEvent m)"

lemma returns_reply [ret_rules]:
  "Which ev = Which (msgEvent m) \<Longrightarrow> returns (replies_to m) (reply_with e m ev)"
  "returns (replies_to m) (ret m)" "returns (replies_to m) (answered m c)" "returns (replies_to m) (voter_op e m op k1 k2)"
  by (auto simp: returns_def replies_to_def reply_with_def answered_def voter_op_def bind_res_Inr_iff elim!: bind_sto_InrE)

lemmas voter_ev_defs = ev_groupPut_def ev_groupDelete_def ev_commandPut_def ev_commandDelete_def ev_stationPut_def
  ev_stationDelete_def ev_groupCommandPut_def ev_groupCommandDelete_def ev_peerGroupPut_def ev_peerGroupDelete_def
  ev_permitConfirm_def ev_permitRevoke_def ev_joinInviteCreate_def ev_joinInviteRevoke_def ev_execInviteCreate_def
  ev_execInviteRevoke_def ev_kick_def

lemmas ev_defs = voter_ev_defs ev_setKey_def ev_getKey_def ev_setField_def ev_set_def ev_txn_def ev_getFieldByRegistry_def
  ev_getFieldByKey_def ev_listRange_def ev_logAppend_def ev_permitRequest_def ev_joinRequestCreate_def ev_joinRequestCancel_def
  ev_leave_def ev_bootstrapOrJoinCluster_def ev_addLearner_def ev_recruit_def ev_execInviteRedeem_def ev_publicAccess_def
  ev_dialSubmitCommand_def ev_dialQueryCommandLog_def ev_execute_def ev_pollExecute_def ev_channelOpen_def ev_channelSend_def
  ev_channelPoll_def ev_channelListen_def ev_channelClose_def ev_channelCloseWrite_def ev_channelDataReady_def
  ev_getPublicKey_def ev_getPrivateKey_def ev_getOwnAddr_def ev_getVersion_def with_key_def

lemma dispatch_replies:
  assumes "builds e"
  shows "returns (replies_to m) (dispatchEvent e m caller)"
proof -
  have v: "returns (replies_to m) (ev_getVersion e m)" if "Which (msgEvent m) = W_getVersion"
    using that assms unfolding ev_getVersion_def
    by (auto simp: returns_def replies_to_def builds_def NewGetVersionResponse_def elim!: bind_sto_InrE)
  have q: "returns (replies_to m) (ev_dialQueryCommandLog e m t i since until limit)" if "Which (msgEvent m) = W_dialQueryCommandLog"
    for t i since until limit
    using that assms unfolding ev_dialQueryCommandLog_def
    by (auto simp: returns_def replies_to_def builds_def NewDialQueryCommandLogResponse_def bind_res_Inr_iff elim!: bind_sto_InrE)
  show ?thesis
  proof (cases "msgEvent m")
    case (Ev_getVersion a b c d f)
    with v show ?thesis by (simp add: dispatchEvent_def)
  next
    case (Ev_dialQueryCommandLog t i since until limit rs)
    with q show ?thesis by (simp add: dispatchEvent_def)
  qed (simp add: dispatchEvent_def, (simp only: ev_defs)?, (intro ret_rules; simp); fail)+
qed

subsection \<open>What a caller who is not a voter can change\<close>

text \<open>
  The keys left to callers: keys outside the reserved namespaces, pending requests, log records, and
  among the log records the command requests.
\<close>

definition user_keys :: "bytes set" where
  "user_keys = {k. rejectReservedKey k = Inr ()}"

definition pending_keys :: "bytes set" where
  "pending_keys = {k. \<exists>kind p. k = SystemKey kind StatusPending p}"

definition request_keys :: "bytes set" where
  "request_keys = {k. \<exists>kind. logKindOfBound k = Some kind \<and> ParseCommandRequestLogKind kind \<noteq> None}"

text \<open>Everything of the node that is neither the table nor the registry nor the notification inbox.\<close>

definition core_state where
  "core_state n = (peerID n, raft n, servers n, channels n, joinRequestToken n, RequireConfirmForJoin n, ed25519Priv n, entropy n)"

lemma store_free_core [simp]: "store_free core_state"
  by (simp add: store_free_def core_state_def)

definition confined :: "bytes set \<Rightarrow> node \<Rightarrow> node \<Rightarrow> bool" where
  "confined K n n' \<longleftrightarrow> wf_store (n_store n') \<and> core_state n' = core_state n \<and>
     (\<forall>k. k \<notin> K \<longrightarrow> contents (n_store n') k = contents (n_store n) k)"

lemma confinedI: "touches K m \<Longrightarrow> preserves core_state m \<Longrightarrow> wf_store (n_store n) \<Longrightarrow> confined K n (snd (m n))"
  by (simp add: confined_def touches_def preserves_def)

lemma confined_refl: "wf_store (n_store n) \<Longrightarrow> confined K n n"
  by (simp add: confined_def)

lemma confined_trans: "confined K n n' \<Longrightarrow> confined K n' n'' \<Longrightarrow> confined K n n''"
  by (simp add: confined_def)

lemma confined_mono: "confined K n n' \<Longrightarrow> K \<subseteq> L \<Longrightarrow> confined L n n'"
  by (auto simp: confined_def)

lemma voter_refused:
  "remotePeer caller \<noteq> [] \<Longrightarrow> \<not> isVoter n (remotePeer caller) \<Longrightarrow> snd (bind_sto (requireVoter caller) f n) = n"
  by (simp add: bind_sto_def requireVoter_def)

text \<open>The sizes below which a command fits the 32-bit length field of a raft log entry.\<close>

fun short_ptr :: "ptr \<Rightarrow> bool" where
  "short_ptr (Inr b) \<longleftrightarrow> length b < 2 ^ 30"
| "short_ptr (Inl _) \<longleftrightarrow> True"

fun short_txn :: "TxnOpSpec list res \<Rightarrow> bool" where
  "short_txn (Inr ops) \<longleftrightarrow> (\<forall>pl. EncodeTxnPayload ops = Inr pl \<longrightarrow> length pl < 2 ^ 31)"
| "short_txn (Inl _) \<longleftrightarrow> True"

definition event_fits :: "event \<Rightarrow> bool" where
  "event_fits ev \<longleftrightarrow> (case ev of
      Ev_setField _ v \<Rightarrow> short_ptr v
    | Ev_set k v \<Rightarrow> short_ptr k \<and> short_ptr v
    | Ev_txn r \<Rightarrow> short_txn r
    | Ev_permitRequest _ p md \<Rightarrow> short_ptr p \<and> short_ptr md
    | Ev_logAppend k v \<Rightarrow> short_ptr k \<and> short_ptr v
    | _ \<Rightarrow> True)"

definition short_registry :: "node \<Rightarrow> bool" where
  "short_registry n \<longleftrightarrow> (\<forall>i k. Lookup (registry n) i = Some k \<longrightarrow> length k < 2 ^ 30)"

lemma touches_set:
  "key \<in> K \<Longrightarrow> length key < 2 ^ 30 \<Longrightarrow> short_ptr (Inr val) \<Longrightarrow> touches K (answered m (handleSetForward e key val allow))"
  unfolding answered_def by (intro touch_rules touches_handleSetForward) simp_all

lemma touches_ev_set: "short_ptr k \<Longrightarrow> short_ptr v \<Longrightarrow> touches user_keys (ev_set e m k v)"
  unfolding ev_set_def by (intro touches_bind_lift touches_set) (auto simp: user_keys_def)

lemma rejectReservedKeys_Inr: "rejectReservedKeys ops = Inr () \<Longrightarrow> x \<in> set ops \<Longrightarrow> Key x \<in> user_keys"
  by (induction ops) (auto simp: user_keys_def bind_res_Inr_iff)

lemma touches_ev_txn:
  assumes "short_txn r"
  shows "touches user_keys (ev_txn e m r)"
  unfolding ev_txn_def
proof (intro touches_bind_lift)
  fix ops u pl assume a: "r = Inr ops" "rejectReservedKeys ops = Inr u" "EncodeTxnPayload ops = Inr pl"
  have "DecodeTxnPayload pl = Inr ops" using a(3) by (rule DecodeTxn_Encode)
  then have "keeps (agrees user_keys c) (applyOp (lims e) (clock e) OpTxn [] pl)" for c
    using a(2) rejectReservedKeys_Inr by (simp add: applyOp_def) (intro keeps_agrees_txn, auto)
  then show "touches user_keys (bind_sto (handleOpForward e OpTxn [] pl True) (\<lambda>_. ret m))"
    using a(1,3) assms by (intro touch_rules touches_handleOpForward) auto
qed

lemma touches_ev_permitRequest:
  "short_ptr p \<Longrightarrow> short_ptr md \<Longrightarrow> touches pending_keys (ev_permitRequest e m kind p md)"
  unfolding ev_permitRequest_def answered_def
  by (intro touches_bind_lift touch_rules touches_handleSetForward) (auto simp: pending_keys_def SystemKey_def)

lemma touches_ev_logAppend:
  assumes "short_ptr k" "short_ptr v" "remotePeer caller \<noteq> []"
    and "\<And>key. k = Inr key \<Longrightarrow> key \<in> log_keys \<Longrightarrow> key \<in> K" "grant_keys (remotePeer caller) \<subseteq> K"
  shows "touches K (ev_logAppend e m caller k v)"
proof -
  have "touches K (handleOpForward e OpAppendCommandRequest key pl True)"
    if "EncodeCommandRequestApplyPayload (remotePeer caller) val = Inr pl" "v = Inr val" "k = Inr key" "key \<in> K" for key val pl
  proof (rule touches_handleOpForward)
    show "length key + length pl + 4 < 2 ^ 32"
      using that assms(1,2) by (auto simp: EncodeCommandRequestApplyPayload_def split: if_splits)
    have "DecodeCommandRequestApplyPayload pl = Inr (remotePeer caller, val)" using that(1) by (rule DecodeCommandRequest_Encode)
    with that assms(5) show "keeps (agrees K c) (applyOp (lims e) (clock e) OpAppendCommandRequest key pl)" for c
      by (simp add: applyOp_def) (intro keeps_agrees_append, auto)
  qed
  then have request: "touches K (bind_sto get_node (\<lambda>n. bind_sto (lift_res (EncodeCommandRequestApplyPayload
        (if remotePeer caller \<noteq> [] then remotePeer caller else peerID n) val)) (\<lambda>pl.
      bind_sto (handleOpForward e OpAppendCommandRequest key pl True) (\<lambda>_. ret m))))"
    if "v = Inr val" "k = Inr key" "key \<in> K" for key val
    using that assms(3) by (intro touches_bind_lift touch_rules) auto
  have plain: "touches K (answered m (handleSetForward e key val True))"
    if "v = Inr val" "k = Inr key" "key \<in> K" for key val
    using that assms(1,2) by (intro touches_set) auto
  have "key \<in> K" if "k = Inr key" "\<not> (length key = 0 \<or> key ! 0 \<noteq> LogKeyPrefix)" for key
    using that assms(4) by (cases key) (auto simp: log_keys_def AllPrefix_def)
  then show ?thesis unfolding ev_logAppend_def
    by (intro touches_bind_lift touches_branch(1,2) request plain touch_rules) blast+
qed

lemma touches_mono: "touches K m \<Longrightarrow> K \<subseteq> L \<Longrightarrow> touches L m"
  unfolding touches_def by blast

lemma touches_reply [touch_rules]: "touches K (reply_with e m ev)" "touches K c \<Longrightarrow> touches K (answered m c)"
  "touches K (ownAddr e)" "(\<And>k. touches K (f k)) \<Longrightarrow> touches K (with_key w i f)"
proof -
  show "touches K (reply_with e m ev)" unfolding reply_with_def by (intro touch_rules)
  show "touches K c \<Longrightarrow> touches K (answered m c)" unfolding answered_def by (intro touch_rules)
  show "touches K (ownAddr e)" by (simp add: touches_def ownAddr_def split: list.splits)
  show "touches K (with_key w i f)" if "\<And>k. touches K (f k)" unfolding with_key_def using that by (intro touch_rules)
qed

lemma preserves_reply [pres_rules]: "preserves h (reply_with e m ev)" "preserves h c \<Longrightarrow> preserves h (answered m c)"
  "preserves h (ownAddr e)" "(\<And>k. preserves h (f k)) \<Longrightarrow> preserves h (with_key w i f)"
proof -
  show "preserves h (reply_with e m ev)" unfolding reply_with_def by (intro pres_rules)
  show "preserves h c \<Longrightarrow> preserves h (answered m c)" unfolding answered_def by (intro pres_rules)
  show "preserves h (ownAddr e)" by (simp add: preserves_def ownAddr_def split: list.splits)
  show "preserves h (with_key w i f)" if "\<And>k. preserves h (f k)" unfolding with_key_def using that by (intro pres_rules)
qed

text \<open>The events that read, and those that change only the registry or the inbox.\<close>

lemma touches_quiet:
  "touches K (ev_setKey m v)" "touches K (ev_getKey e m i)" "touches K (ev_getFieldByRegistry e m i)"
  "touches K (ev_getFieldByKey e m k)" "touches K (ev_listRange e m st en)" "touches K (ev_execute e m i j v)"
  "touches K (ev_pollExecute e m)" "touches K (ev_getOwnAddr e m)" "touches K (ev_getVersion e m)"
  unfolding ev_setKey_def ev_getKey_def ev_getFieldByRegistry_def ev_getFieldByKey_def ev_listRange_def ev_execute_def
    ev_pollExecute_def ev_getOwnAddr_def ev_getVersion_def handleGet_def dispatchExecute_def
  by (intro touch_rules read_only_intros; simp add: touch_rules split: list.splits)+

lemma preserves_quiet:
  "preserves core_state (ev_setKey m v)" "preserves core_state (ev_getKey e m i)" "preserves core_state (ev_getFieldByRegistry e m i)"
  "preserves core_state (ev_getFieldByKey e m k)" "preserves core_state (ev_listRange e m st en)"
  "preserves core_state (ev_execute e m i j v)" "preserves core_state (ev_pollExecute e m)"
  "preserves core_state (ev_getOwnAddr e m)" "preserves core_state (ev_getVersion e m)"
  unfolding ev_setKey_def ev_getKey_def ev_getFieldByRegistry_def ev_getFieldByKey_def ev_listRange_def ev_execute_def
    ev_pollExecute_def ev_getOwnAddr_def ev_getVersion_def handleGet_def dispatchExecute_def sendExecute_def
  by (intro pres_rules preserves_set_node store_free_core; simp add: pres_rules core_state_def split: list.splits)+

lemma preserves_user:
  "preserves core_state (ev_setField e m i v)" "preserves core_state (ev_set e m k v)" "preserves core_state (ev_txn e m r)"
  "preserves core_state (ev_permitRequest e m kind k v)" "preserves core_state (ev_logAppend e m caller k v)"
  unfolding ev_setField_def ev_set_def ev_txn_def ev_permitRequest_def ev_logAppend_def
  by (intro pres_rules store_free_core)+

lemma confined_ev_setField:
  assumes "wf_store (n_store n)" "short_registry n" "short_ptr v" "user_keys \<subseteq> K"
  shows "confined K n (snd (ev_setField e m i v n))"
proof (cases "Lookup (registry n) i")
  case (Some key)
  let ?m = "bind_sto (lift_res (rejectReservedKey key)) (\<lambda>_. bind_sto (lift_res v) (\<lambda>val. answered m (handleSetForward e key val True)))"
  have "touches user_keys ?m"
    using Some assms(2,3) by (intro touches_bind_lift touches_set) (auto simp: user_keys_def short_registry_def)
  moreover have "preserves core_state ?m" by (intro pres_rules store_free_core)
  ultimately have "confined K n (snd (?m n))" using assms(1,4) by (blast intro: confined_mono confinedI)
  with Some show ?thesis by (simp add: ev_setField_def with_key_def bind_sto_def [of get_node] get_node_def)
qed (simp add: ev_setField_def with_key_def bind_sto_def get_node_def confined_refl assms(1))

lemma dispatch_confined:
  assumes caller: "remotePeer caller \<noteq> []" "\<not> isVoter n (remotePeer caller)"
    and n: "wf_store (n_store n)" "short_registry n" and fits: "event_fits (msgEvent m)"
    and w: "\<not> localOnly w" "w \<noteq> W_bootstrapOrJoinCluster" "w \<noteq> W_addLearner" "w = Which (msgEvent m)"
    and user: "w \<in> {W_set, W_setField, W_txn} \<Longrightarrow> user_keys \<subseteq> K"
    and pending: "w = W_permitRequest \<Longrightarrow> pending_keys \<subseteq> K"
    and log: "\<And>key v. msgEvent m = Ev_logAppend (Inr key) v \<Longrightarrow> key \<in> log_keys \<Longrightarrow> key \<in> K"
    and grant: "grant_keys (remotePeer caller) \<subseteq> K"
  shows "confined K n (snd (dispatchEvent e m caller n))"
proof (cases "msgEvent m")
  case (Ev_setField i v)
  with fits user w(4) n show ?thesis by (simp add: dispatchEvent_def event_fits_def confined_ev_setField)
next
  case (Ev_set k v)
  with fits user w(4) n show ?thesis
    by (auto simp: dispatchEvent_def event_fits_def intro!: confinedI preserves_user touches_mono [OF touches_ev_set])
next
  case (Ev_txn r)
  with fits user w(4) n show ?thesis
    by (auto simp: dispatchEvent_def event_fits_def intro!: confinedI preserves_user touches_mono [OF touches_ev_txn])
next
  case (Ev_permitRequest kind k v)
  with fits pending w(4) n show ?thesis
    by (auto simp: dispatchEvent_def event_fits_def intro!: confinedI preserves_user touches_mono [OF touches_ev_permitRequest])
next
  case (Ev_logAppend k v)
  with fits log grant caller(1) n(1) show ?thesis
    by (auto simp: dispatchEvent_def event_fits_def intro!: confinedI preserves_user touches_ev_logAppend)
qed (use caller n(1) w in \<open>simp_all add: dispatchEvent_def localOnly_def voter_ev_defs voter_refused confined_refl confinedI touches_quiet preserves_quiet\<close>)

text \<open>What the gate lets through without standing: a submission, or a read of the log.\<close>

definition carved_out :: "event \<Rightarrow> bool" where
  "carved_out ev \<longleftrightarrow> (case ev of
      Ev_logAppend k _ \<Rightarrow> (\<exists>key. k = Inr key \<and> key \<in> request_keys)
    | Ev_getFieldByKey _ _ \<Rightarrow> True
    | Ev_listRange _ _ _ _ \<Rightarrow> True
    | _ \<Rightarrow> False)"

lemma isCommandLogCarveOut_carved: "isCommandLogCarveOut ev p n = (Inr True, n') \<Longrightarrow> carved_out ev"
  by (cases ev) (auto simp: isCommandLogCarveOut_def carved_out_def request_keys_def split: sum.splits option.splits)

lemma preserves_gate:
  assumes "store_free h"
  shows "preserves h (remoteGate m caller)"
proof -
  have a: "preserves h (isAuthorizedForGatedAccess i g)" for i g
    unfolding isAuthorizedForGatedAccess_def using assms by (intro pres_rules)
  have r: "preserves h (isCommandLogReadableKind kind i)" for kind i
    unfolding isCommandLogReadableKind_def using assms by (intro pres_rules)
  have "preserves h (isCommandLogCarveOut ev i)" for ev i
    unfolding isCommandLogCarveOut_def using r by (cases ev) (simp_all add: pres_rules split: sum.splits option.splits)
  with a show ?thesis unfolding remoteGate_def by (intro pres_rules)
qed

lemma touches_gate: "touches K (remoteGate m caller)"
  unfolding remoteGate_def by (intro touch_rules)

lemma gate_passed:
  assumes "remoteGate m caller n = (Inr True, n')" "remotePeer caller \<noteq> []" "\<not> openToAll (Which (msgEvent m))"
    and "\<not> has_standing (contents (n_store n)) (peerID n) (remotePeer caller) ReservedGroupRemote"
  shows "carved_out (msgEvent m)"
proof -
  obtain b s' where "isAuthorizedForGatedAccess (remotePeer caller) ReservedGroupRemote n = (Inr b, n\<lparr>n_store := s'\<rparr>)"
    "b \<longrightarrow> has_standing (contents (n_store n)) (peerID n) (remotePeer caller) ReservedGroupRemote" by (rule isAuthorized_any)
  with assms have "isCommandLogCarveOut (msgEvent m) (remotePeer caller) (n\<lparr>n_store := s'\<rparr>) = (Inr True, n')"
    by (simp add: remoteGate_def bind_sto_def)
  then show ?thesis by (rule isCommandLogCarveOut_carved)
qed

text \<open>
  A request is either turned away, having changed at most the fault budget of the disk, or it passed
  the gate and is dispatched.
\<close>

lemma handleShmEvent_cases:
  assumes "wf_store (n_store n)"
  obtains "\<And>K. confined K n (snd (handleShmEvent e m crc sig caller n))"
  | n' where "\<not> (remotePeer caller \<noteq> [] \<and> localOnly (Which (msgEvent m)))" "remoteGate m caller n = (Inr True, n')"
    "\<And>K. confined K n n'" "registry n' = registry n"
    "snd (handleShmEvent e m crc sig caller n) = snd (dispatchEvent e m caller n')"
proof -
  let ?v = "if RequiresSignature (Which (msgEvent m)) then lift_res (Verify (wr e) (verifyPub caller) m crc sig) else ret ()"
  have snd: "snd (handleShmEvent e m crc sig caller n) = snd (serveEvent e m crc sig caller n)"
    by (simp add: handleShmEvent_def split: prod.splits sum.splits)
  show thesis
  proof (cases "remotePeer caller \<noteq> [] \<and> localOnly (Which (msgEvent m)) \<or> isl (fst (?v n))")
    case True
    then have "snd (serveEvent e m crc sig caller n) = n" by (auto simp: serveEvent_def bind_sto_def split: if_splits sum.splits)
    with that(1) snd assms show thesis by (simp add: confined_refl)
  next
    case False
    then have v: "?v n = (Inr (), n)" by (cases "Verify (wr e) (verifyPub caller) m crc sig") (auto split: if_splits)
    obtain r n' where g: "remoteGate m caller n = (r, n')" by fastforce
    have n': "confined K n n'" for K
      using confinedI [OF touches_gate preserves_gate [OF store_free_core] assms, of K] g by (metis snd_conv)
    have reg: "registry n' = registry n"
      using preserves_gate [of registry m caller] g by (metis preserves_def snd_conv store_free_fields(4))
    show thesis
    proof (cases "r = Inr True")
      case True
      with v g False have "snd (serveEvent e m crc sig caller n) = snd (dispatchEvent e m caller n')"
        by (auto simp: serveEvent_def bind_sto_def)
      with that(2) False g True n' reg snd show thesis by auto
    next
      case 2: False
      with v g False have "snd (serveEvent e m crc sig caller n) = n'"
        by (cases r) (auto simp: serveEvent_def bind_sto_def)
      with that(1) n' snd show thesis by simp
    qed
  qed
qed

lemma confined_isVoter: "confined K n n' \<Longrightarrow> isVoter n' p = isVoter n p"
  by (simp add: confined_def core_state_def isVoter_def)

lemma handleClientStream_confined:
  assumes "wf_store (n_store n)"
    and "\<And>m crc sig caller n'. Decode (wr e) buf = Inr (m, crc, sig) \<Longrightarrow> remotePeer caller = connPeer s \<Longrightarrow>
      \<not> (remotePeer caller \<noteq> [] \<and> localOnly (Which (msgEvent m))) \<Longrightarrow>
      remoteGate m caller n = (Inr True, n') \<Longrightarrow> (\<And>K. confined K n n') \<Longrightarrow> registry n' = registry n \<Longrightarrow>
      confined K n' (snd (dispatchEvent e m caller n'))"
  shows "confined K n (snd (handleClientStream e s buf n))"
proof (cases "Decode (wr e) buf")
  case (Inr d)
  obtain m crc sig where d: "Decode (wr e) buf = Inr (m, crc, sig)" using Inr by (cases d) auto
  show ?thesis
  proof (cases "remoteCaller s")
    case (Inr caller)
    then have c: "remotePeer caller = connPeer s" by (auto simp: remoteCaller_def bind_res_Inr_iff split: option.splits)
    have "confined K n (snd (handleShmEvent e m crc sig caller n))"
    proof (rule handleShmEvent_cases [OF assms(1), of e m crc sig caller])
      fix n' assume "\<And>K. confined K n n'" "\<not> (remotePeer caller \<noteq> [] \<and> localOnly (Which (msgEvent m)))"
        "remoteGate m caller n = (Inr True, n')" "registry n' = registry n"
        "snd (handleShmEvent e m crc sig caller n) = snd (dispatchEvent e m caller n')"
      then show ?thesis using assms(2) [OF d c] by (metis confined_trans)
    qed
    with d Inr show ?thesis by (auto simp: handleClientStream_def split: prod.splits)
  qed (simp add: d handleClientStream_def confined_refl assms(1))
qed (simp add: handleClientStream_def confined_refl assms(1))

text \<open>None of the keys a caller without a vote may write is a catalog or membership record, its own two grants apart.\<close>

lemma open_keys_spare_groups:
  assumes "confined K n n'" "K \<subseteq> user_keys \<union> pending_keys \<union> log_keys \<union> grant_keys p"
    and "\<not> (i = p \<and> g \<in> {ReservedGroupChannel, ReservedGroupRelay})"
  shows "peer_in_group (contents (n_store n')) i g = peer_in_group (contents (n_store n)) i g"
proof -
  have "k \<notin> K" if k: "PeerGroupKey i g = Inr k" for k
  proof -
    have "k = SystemKey KindPeerGroup 0 (be16 (length i) @ i @ g)" using k by (rule relation_keys_system(2))
    then have "k \<notin> user_keys \<union> pending_keys \<union> log_keys"
      by (simp add: user_keys_def pending_keys_def log_keys_def rejectReservedKey_def SystemKey_def AllPrefix_def StatusPending_def)
    moreover have "k \<notin> grant_keys p" using k assms(3) pg.mk_inj by (auto simp: grant_keys_def)
    ultimately show ?thesis using assms(2) by blast
  qed
  with assms(1) show ?thesis by (auto simp: peer_in_group_def confined_def)
qed

lemma request_keys_log: "request_keys \<subseteq> log_keys"
  by (auto simp: request_keys_def log_keys_def logKindOfBound_prefix KindPrefix_def AllPrefix_def prefix_def)

text \<open>The two requests that deal with cluster membership are treated with joining; the others are ordinary.\<close>

definition ordinary :: "env \<Rightarrow> bytes \<Rightarrow> bool" where
  "ordinary e buf \<longleftrightarrow> (\<forall>m crc sig. Decode (wr e) buf = Inr (m, crc, sig) \<longrightarrow>
     event_fits (msgEvent m) \<and> Which (msgEvent m) \<noteq> W_bootstrapOrJoinCluster \<and> Which (msgEvent m) \<noteq> W_addLearner)"

lemma dispatch_after_gate:
  assumes "connPeer s \<noteq> []" "\<not> isVoter n (connPeer s)" "wf_store (n_store n)" "short_registry n" "ordinary e buf"
    and "Decode (wr e) buf = Inr (m, crc, sig)" "remotePeer caller = connPeer s"
      "\<not> (remotePeer caller \<noteq> [] \<and> localOnly (Which (msgEvent m)))" "\<And>K. confined K n n'" "registry n' = registry n"
    and "Which (msgEvent m) \<in> {W_set, W_setField, W_txn} \<Longrightarrow> user_keys \<subseteq> K"
    and "pending_keys \<subseteq> K" "grant_keys (connPeer s) \<subseteq> K"
    and "\<And>key v. msgEvent m = Ev_logAppend (Inr key) v \<Longrightarrow> key \<in> log_keys \<Longrightarrow> key \<in> K"
  shows "confined K n' (snd (dispatchEvent e m caller n'))"
proof (rule dispatch_confined)
  show "\<not> isVoter n' (remotePeer caller)" using assms(2,7) confined_isVoter [OF assms(9)] by simp
  show "wf_store (n_store n')" using assms(9) by (simp add: confined_def)
  show "short_registry n'" using assms(4,10) by (simp add: short_registry_def)
qed (use assms in \<open>auto simp: ordinary_def\<close>)


definition request_env :: "event \<Rightarrow> env" where
  "request_env ev = solo_env\<lparr>wr := (wr solo_env)\<lparr>unmarshal := \<lambda>_. Inr (new_msg ev)\<rparr>\<rparr>"

definition visitor :: conn where
  "visitor = \<lparr>connKey = Some (Inr (replicate 32 7)), connPeer = [9], connIP = [127]\<rparr>"

lemma ordinary_request:
  "event_fits ev \<Longrightarrow> Which ev \<noteq> W_bootstrapOrJoinCluster \<Longrightarrow> Which ev \<noteq> W_addLearner \<Longrightarrow> ordinary (request_env ev) buf"
  by (auto simp: ordinary_def request_env_def Decode_def bind_res_Inr_iff new_msg_def split: if_splits)

lemma visitor_solo:
  "connPeer visitor \<noteq> []" "\<not> isVoter (solo_node []) (connPeer visitor)" "wf_store (n_store (solo_node []))" "short_registry (solo_node [])"
  by (simp_all add: visitor_def isVoter_def solo_node_def wf_store_def short_registry_def Lookup_def)




subsection \<open>Refusals and replies\<close>



lemma errorMsg_Inr: "builds e \<Longrightarrow> errorMsg e i err = Inr r \<Longrightarrow> msgId r = i \<and> Which (msgEvent r) = W_error"
  by (auto simp: errorMsg_def NewError_def builds_def bind_res_Inr_iff split: sum.splits)

text \<open>
  C39. Every reply carries the id of its request. It is an error, or of the variant that was asked
  for; and no reply to a remote caller is of a variant reserved to local callers, so that the
  node's private key never leaves it this way.
\<close>

theorem reply_matches_request:
  assumes "builds e" "handleShmEvent e m crc sig caller n = (Inr r, n')"
  shows "msgId r = msgId m \<and> (Which (msgEvent r) = W_error \<or> Which (msgEvent r) = Which (msgEvent m)) \<and>
    \<not> (remotePeer caller \<noteq> [] \<and> localOnly (Which (msgEvent r)))"
proof (cases "fst (serveEvent e m crc sig caller n)")
  case (Inl err)
  then have "errorMsg e (msgId m) err = Inr r" using assms(2) by (auto simp: handleShmEvent_def split: prod.splits)
  with errorMsg_Inr [OF assms(1)] show ?thesis by (simp add: localOnly_def)
next
  case (Inr x)
  then have s: "serveEvent e m crc sig caller n = (Inr r, n')" using assms(2) by (auto simp: handleShmEvent_def split: prod.splits)
  then have l: "\<not> (remotePeer caller \<noteq> [] \<and> localOnly (Which (msgEvent m)))" by (auto simp: serveEvent_def)
  with s obtain n1 where "dispatchEvent e m caller n1 = (Inr r, n')"
    by (auto simp: serveEvent_def split: if_splits elim!: bind_sto_InrE)
  with dispatch_replies [OF assms(1), of m caller] have "replies_to m r" unfolding returns_def by blast
  with l show ?thesis by (simp add: replies_to_def)
qed

theorem reply_matches_request_witness:
  "\<exists>r n'. handleShmEvent solo_env (new_msg (Ev_pollExecute (Inr []) (Inr []))\<lparr>msgId := 7\<rparr>) 0 [] \<lparr>verifyPub = [], remotePeer = []\<rparr> (solo_node [])
     = (Inr r, n') \<and> msgId r = 7"
proof -
  let ?m = "new_msg (Ev_pollExecute (Inr []) (Inr []))\<lparr>msgId := 7\<rparr>"
  have "builds solo_env" by (simp add: builds_def solo_env_def new_msg_def)
  moreover obtain r n' where "handleShmEvent solo_env ?m 0 [] \<lparr>verifyPub = [], remotePeer = []\<rparr> (solo_node []) = (Inr r, n')"
    by (fastforce simp: handleShmEvent_def solo_env_def errorMsg_def NewError_def split: prod.splits sum.splits)
  ultimately show ?thesis using reply_matches_request [of solo_env ?m 0 "[]"] by fastforce
qed

text \<open>
  The registry is one table for all callers, keyed by an id the caller chooses: whoever is allowed
  to send a set-key event, a remote peer without standing included, redirects the writes another
  caller makes through that id.
\<close>

theorem setKey_any_caller:
  assumes "msgEvent m = Ev_setKey (Inr val)" "\<not> isl (Verify (wr e) (verifyPub caller) m crc sig)"
  shows "handleShmEvent e m crc sig caller n = (Inr m, n\<lparr>registry := (registry n)(msgId m \<mapsto> val)\<rparr>)"
  using assms by (cases "Verify (wr e) (verifyPub caller) m crc sig")
    (simp_all add: handleShmEvent_def serveEvent_def remoteGate_def openToAll_def localOnly_def dispatchEvent_def
      ev_setKey_def answered_def set_node_def Register_def bind_sto_def)

text \<open>
  Nor does the gate ask for any standing before a node is told to form or join a cluster: a remote
  peer's request is served as the local operator's is.
\<close>

theorem bootstrap_any_caller:
  assumes "msgEvent m = Ev_bootstrapOrJoinCluster a" "\<not> isl (Verify (wr e) (verifyPub caller) m crc sig)"
  shows "snd (handleShmEvent e m crc sig caller n) = snd (ev_bootstrapOrJoinCluster e m a n)"
  using assms by (cases "Verify (wr e) (verifyPub caller) m crc sig")
    (simp_all add: handleShmEvent_def serveEvent_def remoteGate_def openToAll_def localOnly_def dispatchEvent_def bind_sto_def
      split: prod.splits sum.splits)

subsection \<open>Serving the local operator\<close>

lemma handle_local:
  assumes "remotePeer caller = []" "Verify (wr e) (verifyPub caller) m crc sig = Inr ()"
  shows "handleShmEvent e m crc sig caller n = (case dispatchEvent e m caller n of
      (Inr resp, n') \<Rightarrow> (Inr resp, n') | (Inl err, n') \<Rightarrow> (errorMsg e (msgId m) err, n'))"
  using assms by (simp add: handleShmEvent_def serveEvent_def remoteGate_def bind_sto_def)

lemma user_key_plain: "rejectReservedKey k = Inr () \<Longrightarrow> \<not> is_system_key k"
  by (auto simp: rejectReservedKey_def is_system_key_def split: if_splits)

lemma handle_set_local:
  assumes "commits e" "leads n c" "remotePeer caller = []" "Verify (wr e) (verifyPub caller) m crc sig = Inr ()"
    and "msgEvent m = Ev_set (Inr k) (Inr v)" "rejectReservedKey k = Inr ()" "length k + length v + 4 < 2 ^ 32"
  shows "\<exists>st. handleShmEvent e m crc sig caller n = (Inr m, n\<lparr>n_store := st\<rparr>) \<and> leads (n\<lparr>n_store := st\<rparr>) (c(k \<mapsto> v))"
proof -
  obtain st where "handleSetForward e k v True n = (Inr (), n\<lparr>n_store := st\<rparr>)" "leads (n\<lparr>n_store := st\<rparr>) (c(k \<mapsto> v))"
    using runs_set [OF assms(1) accepts_plain [OF user_key_plain [OF assms(6)] assms(7)]] assms(2) unfolding runs_def by blast
  moreover from this(1) assms(3-6) have "handleShmEvent e m crc sig caller n = (Inr m, n\<lparr>n_store := st\<rparr>)"
    by (simp add: handle_local dispatchEvent_def ev_set_def answered_def bind_sto_def)
  ultimately show ?thesis by blast
qed

lemma handle_get_local:
  assumes "healthy (n_store n)" "\<And>ev. \<not> isl (build (wr e) ev)" "remotePeer caller = []"
    and "Verify (wr e) (verifyPub caller) m crc sig = Inr ()" "msgEvent m = Ev_getFieldByKey (Inr k) x" "contents (n_store n) k = Some v"
  shows "handleShmEvent e m crc sig caller n = (Inr (m\<lparr>msgEvent := Ev_getFieldByKey (Inr k) (Inr v)\<rparr>), n)"
proof -
  obtain y where "build (wr e) (Ev_getFieldByKey (Inr k) (Inr v)) = Inr y" using assms(2) by (metis sum.collapse(2))
  with assms show ?thesis
    by (simp add: handle_local dispatchEvent_def ev_getFieldByKey_def handleGet_def on_store_def get_healthy reply_with_def bind_sto_def)
qed

text \<open>The first row of a range, or the request itself when the range is empty.\<close>

lemma ev_listRange_healthy:
  assumes "healthy (n_store n)" "\<And>ev. \<not> isl (build (wr e) ev)"
  shows "ev_listRange e m (Inr start) (Inr stop) n = (Inr
    (case filter (\<lambda>r. start \<le> fst r \<and> fst r \<le> stop) (kv (n_store n)) of
       [] \<Rightarrow> m | r # _ \<Rightarrow> m\<lparr>msgEvent := Ev_listRange (Inr start) (Inr stop) (Inr (fst r)) (Inr (snd r))\<rparr>), n)"
proof (cases "filter (\<lambda>r. start \<le> fst r \<and> fst r \<le> stop) (kv (n_store n))")
  case (Cons r rs)
  obtain x where "build (wr e) (Ev_listRange (Inr start) (Inr stop) (Inr (fst r)) (Inr (snd r))) = Inr x"
    using assms(2) by (metis sum.collapse(2))
  with Cons assms(1) show ?thesis
    by (simp add: ev_listRange_def bind_sto_def on_store_def scanRange_healthy limit_rows_def reply_with_def case_prod_beta)
qed (use assms(1) in \<open>simp add: ev_listRange_def bind_sto_def on_store_def scanRange_healthy limit_rows_def\<close>)

lemma handle_listRange_local:
  assumes "healthy (n_store n)" "\<And>ev. \<not> isl (build (wr e) ev)" "remotePeer caller = []"
    and "Verify (wr e) (verifyPub caller) m crc sig = Inr ()" "msgEvent m = Ev_listRange (Inr start) (Inr stop) k v"
  shows "handleShmEvent e m crc sig caller n = (Inr
    (case filter (\<lambda>r. start \<le> fst r \<and> fst r \<le> stop) (kv (n_store n)) of
       [] \<Rightarrow> m | r # _ \<Rightarrow> m\<lparr>msgEvent := Ev_listRange (Inr start) (Inr stop) (Inr (fst r)) (Inr (snd r))\<rparr>), n)"
  using assms by (simp add: handle_local dispatchEvent_def ev_listRange_healthy)

lemma handle_txn_local:
  assumes "commits e" "leads n c" "remotePeer caller = []"
    and "rejectReservedKeys ops = Inr ()" "EncodeTxnPayload ops = Inr pl" "length pl + 4 < 2 ^ 32"
  defines "asks \<equiv> (\<lambda>m crc sig. msgEvent m = Ev_txn (Inr ops) \<and> Verify (wr e) (verifyPub caller) m crc sig = Inr ())"
  shows "if list_all (txn_holds c) ops
    then \<exists>st. leads (n\<lparr>n_store := st\<rparr>) (foldl txn_write c ops) \<and>
      (\<forall>m crc sig. asks m crc sig \<longrightarrow> handleShmEvent e m crc sig caller n = (Inr m, n\<lparr>n_store := st\<rparr>))
    else \<exists>err. errors_is err ErrCompareFailed \<and>
      (\<forall>m crc sig. asks m crc sig \<longrightarrow> handleShmEvent e m crc sig caller n = (errorMsg e (msgId m) err, n))"
proof -
  have n: "raft n = Leader" "healthy (n_store n)" "wf_store (n_store n)" "contents (n_store n) = c"
    using assms(2) by (simp_all add: leads_def)
  have d: "DecodeTxnPayload pl = Inr ops" using assms(5) by (rule DecodeTxn_Encode)
  have v: "list_all (\<lambda>op. ValidTxnOp (Op op)) ops"
    using assms(5) by (auto simp: EncodeTxnPayload_Inr txn_op_ok_def list_all_iff)
  obtain i where i: "commit e (EncodeCommand OpTxn [] pl) = Inr i" using assms(1) by (metis commits_def sum.collapse(2))
  have a: "Apply (lims e) \<lparr>Data = EncodeCommand OpTxn [] pl, AppendedAt = clock e\<rparr> = applyTxn pl"
    using assms(6) by (simp add: Apply_Encode fun_eq_iff) (simp add: applyOp_def)
  have h: "handleOpForward e OpTxn [] pl True n = (case applyTxn pl (n_store n) of
      (Inl err, st) \<Rightarrow> (Inl err, n\<lparr>n_store := st\<rparr>) | (Inr _, st) \<Rightarrow> (Inr i, n\<lparr>n_store := st\<rparr>))"
    using n(1) i by (simp add: handleOpForward_def node_applyOp_def raft_Apply_def a [simplified])
      (simp add: on_store_def bind_sto_def split: prod.splits sum.splits)
  have dh: "handleShmEvent e m crc sig caller n = (case applyTxn pl (n_store n) of
      (Inl err, st) \<Rightarrow> (errorMsg e (msgId m) err, n\<lparr>n_store := st\<rparr>) | (Inr _, st) \<Rightarrow> (Inr m, n\<lparr>n_store := st\<rparr>))"
    if "asks m crc sig" for m crc sig
  proof -
    have "handleShmEvent e m crc sig caller n = (case handleOpForward e OpTxn [] pl True n of
      (Inl err, n') \<Rightarrow> (errorMsg e (msgId m) err, n') | (Inr _, n') \<Rightarrow> (Inr m, n'))"
      using that assms(3-5) by (simp add: asks_def handle_local dispatchEvent_def ev_txn_def bind_sto_def split: prod.splits sum.splits)
    then show ?thesis unfolding h by (simp split: prod.splits sum.splits)
  qed
  show ?thesis
  proof (cases "list_all (txn_holds c) ops")
    case True
    then obtain s' where "applyTxn pl (n_store n) = (Inr [], s')" "healthy s'" "wf_store s'" "contents s' = foldl txn_write c ops"
      using applyTxn_ok [OF n(2,3) d v] n(4) by auto
    with True n(1) show ?thesis by (auto simp: dh leads_def)
  next
    case False
    then obtain err where "applyTxn pl (n_store n) = (Inl err, n_store n)" "errors_is err ErrCompareFailed"
      using applyTxn_compare_failed [OF n(2) d v] n(4) by auto
    with False show ?thesis by (auto simp: dh)
  qed
qed

subsection \<open>Serving a page of the log\<close>

text \<open>A reply is encoded afresh: the checksum and signature the request carried do not matter.\<close>

lemma Encode_resets:
  "msgSignature m = Inr x \<Longrightarrow> Encode w (m\<lparr>msgCrc32 := c, msgSignature := Inr s\<rparr>) priv = Encode w m priv"
  by (cases m; cases priv) (simp_all add: Encode_def crc32Of_def marshalWithCrcAndEmptySig_def Sign_def signedPayload_def cong: if_cong)

lemma exec_log_readable:
  assumes "prefix (KindPrefix CommandExecLogKind) start" "prefix (KindPrefix CommandExecLogKind) stop"
  shows "isCommandLogCarveOut (Ev_listRange (Inr start) (Inr stop) k v) p n = (Inr True, n)"
proof -
  have "length CommandExecLogKind \<le> 0xFFFF" by (simp add: CommandExecLogKind_def)
  then have "logKindOfBound start = Some CommandExecLogKind" "logKindOfBound stop = Some CommandExecLogKind"
    using assms by (simp_all only: logKindOfBound_prefix)
  then show ?thesis by (simp add: isCommandLogCarveOut_def isCommandLogReadableKind_def)
qed

lemma listRange_served:
  assumes "healthy (n_store n)" "\<And>ev. \<not> isl (build (wr e) ev)" "connKey s = Some (Inr pub)"
    and "Decode (wr e) buf = Inr (m, crc, sig)" "Verify (wr e) pub m crc sig = Inr ()"
    and ev: "msgEvent m = Ev_listRange (Inr start) (Inr stop) k v"
    and "prefix (KindPrefix CommandExecLogKind) start" "prefix (KindPrefix CommandExecLogKind) stop"
  shows "handleClientStream e s buf n = (encodeReply e n (Inr
    (case filter (\<lambda>r. start \<le> fst r \<and> fst r \<le> stop) (kv (n_store n)) of
       [] \<Rightarrow> m | r # _ \<Rightarrow> m\<lparr>msgEvent := Ev_listRange (Inr start) (Inr stop) (Inr (fst r)) (Inr (snd r))\<rparr>)), n)"
proof -
  let ?c = "\<lparr>verifyPub = pub, remotePeer = connPeer s\<rparr>"
  have g: "remoteGate m ?c n = (Inr True, n)"
    by (simp add: remoteGate_def bind_sto_def isAuthorized_healthy [OF assms(1)] ev exec_log_readable [OF assms(7,8)])
  have d: "dispatchEvent e m ?c n = (Inr
    (case filter (\<lambda>r. start \<le> fst r \<and> fst r \<le> stop) (kv (n_store n)) of
       [] \<Rightarrow> m | r # _ \<Rightarrow> m\<lparr>msgEvent := Ev_listRange (Inr start) (Inr stop) (Inr (fst r)) (Inr (snd r))\<rparr>), n)"
    using ev_listRange_healthy [OF assms(1,2)] by (simp add: dispatchEvent_def ev)
  have "serveEvent e m crc sig ?c n = dispatchEvent e m ?c n"
    using g assms(5) by (simp add: serveEvent_def ev localOnly_def bind_sto_def)
  with d show ?thesis
    using assms(3,4) by (simp add: handleClientStream_def remoteCaller_def handleShmEvent_def)
qed

subsection \<open>A concrete wire format\<close>

text \<open>A wire format for a given list of messages, for concrete instances.\<close>

definition listed_wire :: "msg list \<Rightarrow> wire" where
  "listed_wire ms = (wr solo_env)\<lparr>
     marshal := \<lambda>m. if m \<in> set ms then Inr (replicate (length (takeWhile (\<lambda>x. x \<noteq> m) ms)) 0) else Inl ErrEOF,
     unmarshal := \<lambda>b. if length b < length ms then Inr (ms ! length b) else Inl ErrEOF\<rparr>"

definition stamped :: "msg \<Rightarrow> msg" where
  "stamped m = m\<lparr>msgCrc32 := ChecksumIEEE [], msgSignature := Inr (replicate 64 9)\<rparr>"

lemma takeWhile_neq: "m \<in> set ms \<Longrightarrow> length (takeWhile (\<lambda>x. x \<noteq> m) ms) < length ms \<and> ms ! length (takeWhile (\<lambda>x. x \<noteq> m) ms) = m"
  by (induction ms) auto

lemma listed_lossless: "lossless (listed_wire ms)"
  by (auto simp: lossless_def listed_wire_def takeWhile_neq split: if_splits)

lemma listed_Encode:
  "stamped m \<in> set ms \<Longrightarrow> \<not> isl (msgSignature m) \<Longrightarrow> \<not> isl (Encode (listed_wire ms) m (Some (replicate 64 8)))"
  by (cases "msgSignature m") (auto simp: Encode_def crc32Of_def marshalWithCrcAndEmptySig_def Sign_def signedPayload_def listed_wire_def
      solo_env_def stamped_def)

lemma listed_keys: "key_pair (listed_wire ms) (replicate 64 8) (replicate 32 7)" "build (listed_wire ms) ev = Inr (new_msg ev)"
  by (simp_all add: key_pair_def listed_wire_def solo_env_def)

end
