(* ===== verification/Ipc_Local.thy ===== *)
theory Ipc_Local
  imports Daemon_Dispatch
begin

text \<open>
  The transport between a client and the node on its own machine (src/pkg/ipc/ipc.go): one request
  segment of a fixed name, one response segment per message id, the client's \<^verbatim>\<open>Call\<close> and the
  daemon's \<^verbatim>\<open>Serve\<close> loop. A shared-memory segment is the bytes written to it once its writer is closed;
  its rings are a library's. The two sides run concurrently, so beside the operations there is a step
  relation of their interleavings. The lemmas show that a call is served at most once and that the
  reply it returns is the reply to its own request, provided consecutive calls carry different ids,
  which the random ids of the client library make likely but not certain.
\<close>

subsection \<open>Segments and the serving loop\<close>

text \<open>\<open>lastID\<close> is the pair of \<^verbatim>\<open>lastID\<close> and \<^verbatim>\<open>haveLastID\<close>, \<open>servePriv\<close> the key \<^verbatim>\<open>Serve\<close> was given; \<open>serving\<close> is false once \<^verbatim>\<open>Serve\<close> has returned.\<close>

record ipc =
  reqSeg :: "bytes option"
  respSegs :: "16 word \<rightharpoonup> bytes"
  lastID :: "16 word option"
  pendingResp :: "16 word option"
  serving :: bool
  servePriv :: bytes
  served :: node

definition cleanupPending :: "ipc \<Rightarrow> ipc" where
  "cleanupPending s = (case pendingResp s of
      None \<Rightarrow> s
    | Some i \<Rightarrow> s\<lparr>respSegs := (respSegs s)(i := None), pendingResp := None\<rparr>)"

definition sendResponse :: "env \<Rightarrow> msg res \<Rightarrow> 16 word \<Rightarrow> ipc \<Rightarrow> ipc" where
  "sendResponse e resp i s =
     (case bind_res resp (\<lambda>r. Encode (wr e) (r\<lparr>msgId := i\<rparr>) (Some (servePriv s))) of
        Inl _ \<Rightarrow> s\<lparr>serving := False\<rparr>
      | Inr buf \<Rightarrow> s\<lparr>respSegs := (respSegs s)(i \<mapsto> buf), pendingResp := Some i, lastID := Some i\<rparr>)"

text \<open>One round of the loop of \<^verbatim>\<open>Serve\<close>; a round that finds nothing new to do changes nothing.\<close>

definition Serve :: "env \<Rightarrow> ipc \<Rightarrow> ipc" where
  "Serve e s = (if \<not> serving s then s else case reqSeg s of
      None \<Rightarrow> s
    | Some reqBuf \<Rightarrow> (case Decode (wr e) reqBuf of
        Inl _ \<Rightarrow> s
      | Inr (m, crc, sig) \<Rightarrow>
          if lastID s = Some (msgId m) then s
          else (case handleShmEvent e m crc sig (localCaller (served s)) (served s) of
            (resp, n) \<Rightarrow> sendResponse e resp (msgId m) ((cleanupPending s)\<lparr>served := n\<rparr>))))"

subsection \<open>Calls\<close>

text \<open>
  A call writes the request, waits for the response segment named after its id, reads it and removes
  the request. \<open>Waiting i\<close> is between the two; the context may end the wait at any time.
\<close>

datatype caller_phase = Waiting "16 word" | Returned "msg res"

inductive ipc_step :: "env \<Rightarrow> ipc \<times> caller_phase \<Rightarrow> ipc \<times> caller_phase \<Rightarrow> bool" for e where
  serve: "ipc_step e (s, c) (Serve e s, c)"
| answer: "respSegs s i = Some buf \<Longrightarrow>
    ipc_step e (s, Waiting i) (s\<lparr>reqSeg := None\<rparr>, Returned (bind_res (Decode (wr e) buf) (\<lambda>(m, _, _). Inr m)))"
| cancel: "ipc_step e (s, Waiting i) (s\<lparr>reqSeg := None\<rparr>, Returned (Inl err))"

text \<open>
  The call as a function: the daemon answers between the write and the read, and a response that
  does not appear ends in the context's error.
\<close>

definition Call :: "env \<Rightarrow> msg \<Rightarrow> bytes option \<Rightarrow> ipc \<Rightarrow> msg res \<times> ipc" where
  "Call e m priv s = (case Encode (wr e) m priv of
      Inl err \<Rightarrow> (Inl (Wrap ''ipc: encode request: %w'' err), s)
    | Inr buf \<Rightarrow> (let s1 = Serve e (s\<lparr>reqSeg := Some buf\<rparr>) in
        (case respSegs s1 (msgId m) of
          None \<Rightarrow> Inl (Errorf ''ipc: waiting for response channel %s: %w'')
        | Some respBuf \<Rightarrow> bind_res (Decode (wr e) respBuf) (\<lambda>(resp, _, _). Inr resp),
         s1\<lparr>reqSeg := None\<rparr>)))"

subsection \<open>Lemmas\<close>

text \<open>Between calls: no request is left, and the only response that may be is the last one answered.\<close>

definition at_rest :: "ipc \<Rightarrow> bool" where
  "at_rest s \<longleftrightarrow> reqSeg s = None \<and> serving s \<and> dom (respSegs s) \<subseteq> set_option (pendingResp s) \<and>
     (pendingResp s = None \<or> pendingResp s = lastID s)"

lemma at_rest_serving: "at_rest s \<Longrightarrow> serving s"
  by (simp add: at_rest_def)

lemma sendResponse_lastID: "serving (sendResponse e resp i s) \<Longrightarrow> lastID (sendResponse e resp i s) = Some i"
  by (auto simp: sendResponse_def split: sum.splits)

lemma reqSeg_Serve [simp]: "reqSeg (Serve e s) = reqSeg s"
  by (auto simp: Serve_def sendResponse_def cleanupPending_def split: option.splits sum.splits prod.splits)

lemma Serve_idle: "reqSeg s = None \<Longrightarrow> Serve e s = s"
  by (simp add: Serve_def)

lemma Serve_new:
  assumes "at_rest s" "Decode (wr e) buf = Inr (m, crc, sig)" "lastID s \<noteq> Some (msgId m)"
    and "handleShmEvent e m crc sig (localCaller (served s)) (served s) = (resp, n)"
  shows "Serve e (s\<lparr>reqSeg := Some buf\<rparr>) = sendResponse e resp (msgId m)
    (s\<lparr>reqSeg := Some buf, respSegs := Map.empty, pendingResp := None, served := n\<rparr>)"
proof -
  have "cleanupPending (s\<lparr>reqSeg := Some buf\<rparr>) = s\<lparr>reqSeg := Some buf, respSegs := Map.empty, pendingResp := None\<rparr>"
  proof (cases "pendingResp s")
    case None
    then have "respSegs s = Map.empty" using assms(1) by (simp add: at_rest_def)
    with None show ?thesis by (cases s) (simp add: cleanupPending_def)
  next
    case (Some i)
    then have "(respSegs s)(i := None) = Map.empty" using assms(1) by (auto simp: at_rest_def fun_eq_iff dom_def)
    with Some show ?thesis by (simp add: cleanupPending_def)
  qed
  with assms show ?thesis by (simp add: Serve_def at_rest_def)
qed

text \<open>A round after the answer changes nothing, however often the request is found again.\<close>

lemma Serve_again:
  assumes "at_rest s" "Decode (wr e) buf = Inr (m, crc, sig)" "lastID s \<noteq> Some (msgId m)"
  shows "Serve e (Serve e (s\<lparr>reqSeg := Some buf\<rparr>)) = Serve e (s\<lparr>reqSeg := Some buf\<rparr>)"
proof -
  obtain resp n where h: "handleShmEvent e m crc sig (localCaller (served s)) (served s) = (resp, n)" by fastforce
  let ?s = "Serve e (s\<lparr>reqSeg := Some buf\<rparr>)"
  have "serving ?s \<Longrightarrow> lastID ?s = Some (msgId m)"
    unfolding Serve_new [OF assms h] by (rule sendResponse_lastID)
  then show ?thesis using assms(2) by (subst Serve_def) simp
qed

lemma served_Serve:
  assumes "at_rest s" "Decode (wr e) buf = Inr (m, crc, sig)" "lastID s \<noteq> Some (msgId m)"
  shows "served (Serve e (s\<lparr>reqSeg := Some buf\<rparr>)) = snd (handleShmEvent e m crc sig (localCaller (served s)) (served s))"
proof -
  obtain resp n where h: "handleShmEvent e m crc sig (localCaller (served s)) (served s) = (resp, n)" by fastforce
  show ?thesis unfolding Serve_new [OF assms h] by (simp add: h sendResponse_def split: sum.splits)
qed

lemma rest_Serve:
  assumes "at_rest s" "Decode (wr e) buf = Inr (m, crc, sig)" "lastID s \<noteq> Some (msgId m)"
    and "serving (Serve e (s\<lparr>reqSeg := Some buf\<rparr>))"
  shows "at_rest ((Serve e (s\<lparr>reqSeg := Some buf\<rparr>))\<lparr>reqSeg := None\<rparr>)"
proof -
  obtain resp n where h: "handleShmEvent e m crc sig (localCaller (served s)) (served s) = (resp, n)" by fastforce
  show ?thesis using assms(4) unfolding Serve_new [OF assms(1-3) h] by (auto simp: at_rest_def sendResponse_def split: sum.splits)
qed

text \<open>The configurations a call goes through, whatever the two sides' order.\<close>

definition call_state :: "env \<Rightarrow> ipc \<Rightarrow> bytes \<Rightarrow> 16 word \<Rightarrow> ipc \<times> caller_phase \<Rightarrow> bool" where
  "call_state e s buf i c \<longleftrightarrow> (let s0 = s\<lparr>reqSeg := Some buf\<rparr>; s1 = Serve e s0 in
     c = (s0, Waiting i) \<or> c = (s1, Waiting i) \<or> (\<exists>err. c = (s, Returned (Inl err))) \<or>
     (\<exists>r. c = (s1\<lparr>reqSeg := None\<rparr>, Returned r) \<and>
       (isl r \<or> (\<exists>b. respSegs s1 i = Some b \<and> r = bind_res (Decode (wr e) b) (\<lambda>(m, _, _). Inr m)))))"

lemma call_state_step:
  assumes "at_rest s" "Decode (wr e) buf = Inr (m, crc, sig)" "lastID s \<noteq> Some (msgId m)"
    and "call_state e s buf (msgId m) c" "ipc_step e c c'"
  shows "call_state e s buf (msgId m) c'"
proof -
  let ?s0 = "s\<lparr>reqSeg := Some buf\<rparr>" and ?s1 = "Serve e (s\<lparr>reqSeg := Some buf\<rparr>)"
  have rest: "s\<lparr>reqSeg := None\<rparr> = s" using assms(1) by (simp add: at_rest_def)
  have none: "respSegs s (msgId m) = None"
    using assms(1,3) by (auto simp: at_rest_def dom_def)
  from assms(5) show ?thesis
  proof cases
    case (serve s' p)
    then show ?thesis using assms(4) Serve_again [OF assms(1-3)] Serve_idle [of s e] assms(1)
      by (auto simp: call_state_def Let_def Serve_idle at_rest_def)
  next
    case (answer s' i b)
    then show ?thesis using assms(4) none by (auto simp: call_state_def Let_def)
  next
    case (cancel s' i err)
    then show ?thesis using assms(4) rest by (auto simp: call_state_def Let_def)
  qed
qed

lemma call_state_run:
  assumes "at_rest s" "Decode (wr e) buf = Inr (m, crc, sig)" "lastID s \<noteq> Some (msgId m)"
    and "(ipc_step e)\<^sup>*\<^sup>* (s\<lparr>reqSeg := Some buf\<rparr>, Waiting (msgId m)) c"
  shows "call_state e s buf (msgId m) c"
  using assms(4)
proof (induction rule: rtranclp_induct)
  case base
  show ?case by (simp add: call_state_def Let_def)
next
  case (step c c')
  then show ?case using call_state_step [OF assms(1-3)] by blast
qed

text \<open>What a call returns when the reply can be encoded.\<close>

lemma Call_reply:
  assumes "at_rest s" "lastID s \<noteq> Some (msgId m)" "lossless (wr e)" "key_pair (wr e) (servePriv s) pub"
    and "Encode (wr e) m cpriv = Inr buf" "Decode (wr e) buf = Inr (m', crc, sig)" "msgId m' = msgId m"
    and "handleShmEvent e m' crc sig (localCaller (served s)) (served s) = (Inr resp, n)"
    and "Encode (wr e) (resp\<lparr>msgId := msgId m\<rparr>) (Some (servePriv s)) = Inr rbuf"
  shows "\<exists>c g s'. Call e m cpriv s = (Inr (resp\<lparr>msgId := msgId m, msgCrc32 := c, msgSignature := Inr g\<rparr>), s') \<and>
    at_rest s' \<and> served s' = n \<and> lastID s' = Some (msgId m) \<and> servePriv s' = servePriv s"
proof -
  have new: "lastID s \<noteq> Some (msgId m')" using assms(2,7) by simp
  obtain c g where d: "Decode (wr e) rbuf = Inr (resp\<lparr>msgId := msgId m, msgCrc32 := c, msgSignature := Inr g\<rparr>, c, g)"
    using Decode_Encode [OF assms(3,4,9)] by auto
  let ?s1 = "Serve e (s\<lparr>reqSeg := Some buf\<rparr>)"
  have s1: "?s1 = s\<lparr>reqSeg := Some buf, respSegs := [msgId m \<mapsto> rbuf], pendingResp := Some (msgId m), lastID := Some (msgId m), served := n\<rparr>"
    unfolding Serve_new [OF assms(1,6) new assms(8)] using assms(7,9) by (simp add: sendResponse_def)
  then show ?thesis using assms(1,5) d by (auto simp: Call_def Let_def at_rest_def)
qed

text \<open>The call as a function is one of the runs.\<close>

lemma Call_run:
  assumes "Encode (wr e) m cpriv = Inr buf" "Call e m cpriv s = (Inr r, s')"
  shows "(ipc_step e)\<^sup>*\<^sup>* (s\<lparr>reqSeg := Some buf\<rparr>, Waiting (msgId m)) (s', Returned (Inr r))"
proof -
  let ?s1 = "Serve e (s\<lparr>reqSeg := Some buf\<rparr>)"
  from assms obtain b where b: "respSegs ?s1 (msgId m) = Some b" "bind_res (Decode (wr e) b) (\<lambda>(resp, _, _). Inr resp) = Inr r"
    "s' = ?s1\<lparr>reqSeg := None\<rparr>" by (auto simp: Call_def Let_def split: option.splits)
  have 1: "ipc_step e (s\<lparr>reqSeg := Some buf\<rparr>, Waiting (msgId m)) (?s1, Waiting (msgId m))" by (rule ipc_step.serve)
  have 2: "ipc_step e (?s1, Waiting (msgId m)) (s', Returned (Inr r))"
    using ipc_step.answer [OF b(1), of e] b(2,3) by simp
  show ?thesis using 1 2 by (meson rtranclp.rtrancl_refl rtranclp.rtrancl_into_rtrancl)
qed

definition fresh_ipc :: "node \<Rightarrow> ipc" where
  "fresh_ipc n = \<lparr>reqSeg = None, respSegs = Map.empty, lastID = None, pendingResp = None, serving = True, servePriv = ed25519Priv n, served = n\<rparr>"

lemma at_rest_fresh [simp]: "at_rest (fresh_ipc n)" "lastID (fresh_ipc n) = None" "served (fresh_ipc n) = n" "servePriv (fresh_ipc n) = ed25519Priv n"
  by (simp_all add: fresh_ipc_def at_rest_def)

definition poll_msg :: msg where
  "poll_msg = (new_msg (Ev_pollExecute (Inr []) (Inr [])))\<lparr>msgId := 7\<rparr>"

definition poll_env :: env where
  "poll_env = solo_env\<lparr>wr := listed_wire [stamped poll_msg]\<rparr>"



text \<open>
  The condition on the id is needed. A request that carries the id of the one answered last is not
  served at all: the call reads the response still lying there and reports it as its own.
\<close>

theorem reused_id_reads_stale_reply:
  assumes "at_rest s" "lastID s = Some (msgId m)" "respSegs s (msgId m) = Some old"
    and "Encode (wr e) m cpriv = Inr buf" "Decode (wr e) buf = Inr (m', crc, sig)" "msgId m' = msgId m"
  shows "Call e m cpriv s = (bind_res (Decode (wr e) old) (\<lambda>(resp, _, _). Inr resp), s)"
proof -
  have "s\<lparr>reqSeg := None\<rparr> = s" using assms(1) by (simp add: at_rest_def)
  with assms show ?thesis by (simp add: Call_def Serve_def Let_def)
qed

end
