(* ===== verification/Shm_Client.thy ===== *)
theory Shm_Client
  imports Ipc_Local
begin

text \<open>
  The client library (src/pkg/shmclient): a session holds the node's signing key; every method builds
  one message, gives it a random id, sends it through the local transport, and turns an error reply
  into an error. A range scan pages through single-pair queries. The data-plane rings of channels
  are outside. The lemmas show that an acknowledged call was served exactly once and that the
  methods mean, on the leader, what their names say.
\<close>

subsection \<open>Sessions and calls\<close>

text \<open>
  \<open>accessor\<close> is what a generated field accessor reads from a message of another variant, and \<open>rounds\<close>
  how many round trips the caller's context lives for. \<open>w_rand\<close> is what the next reads of the system's
  randomness yield, and \<open>w_rings\<close> whether finding the node's token and creating the request
  segment works, call by call.
\<close>

record client_env =
  srv :: env
  accessor :: "string \<Rightarrow> event \<Rightarrow> ptr"
  rounds :: nat

record world =
  w_rand :: "bytes res list"
  w_rings :: "unit res list"
  w_ipc :: ipc

type_synonym 'a cl = "(world, 'a) comp"

record Session =
  s_peerID :: gostring
  s_priv :: bytes

text \<open>A failed read of randomness, an exhausted supply included, gives the id 1; a zero is drawn again.\<close>

fun drawID :: "bytes res list \<Rightarrow> 16 word \<times> bytes res list" where
  "drawID [] = (1, [])"
| "drawID (Inl _ # rs) = (1, rs)"
| "drawID (Inr b # rs) = (let i = word_of_nat (be_dec b) in if i \<noteq> 0 then (i, rs) else drawID rs)"

definition newID :: "16 word cl" where
  "newID w = (case drawID (w_rand w) of (i, rs) \<Rightarrow> (Inr i, w\<lparr>w_rand := rs\<rparr>))"

definition ipc_Call :: "client_env \<Rightarrow> msg \<Rightarrow> bytes option \<Rightarrow> msg cl" where
  "ipc_Call E m priv w = (case w_rings w of
      Inl err # rs \<Rightarrow> (Inl err, w\<lparr>w_rings := rs\<rparr>)
    | _ \<Rightarrow> (case Call (srv E) m priv (w_ipc w) of (r, s) \<Rightarrow> (r, w\<lparr>w_rings := tl (w_rings w), w_ipc := s\<rparr>)))"

definition session_call :: "client_env \<Rightarrow> Session \<Rightarrow> msg \<Rightarrow> msg cl" where
  "session_call E s m = bind_sto newID (\<lambda>i. ipc_Call E (m\<lparr>msgId := i\<rparr>) (Some (s_priv s)))"

definition respErr :: "string \<Rightarrow> msg \<Rightarrow> unit res" where
  "respErr name resp = (if Which (msgEvent resp) = W_error then Inl (Errorf (''shmclient: '' @ name @ '': %s'')) else Inr ())"

text \<open>The shape all methods share: build, call, look for an error reply, read the answer.\<close>

definition request :: "string \<Rightarrow> client_env \<Rightarrow> Session \<Rightarrow> msg res \<Rightarrow> (event \<Rightarrow> 'a res) \<Rightarrow> 'a cl" where
  "request name E s m answer =
     bind_sto (lift_res (wrap_err (''shmclient: '' @ name @ '': %w'') m)) (\<lambda>m.
     bind_sto (wrap_sto (''shmclient: '' @ name @ '': %w'') (session_call E s m)) (\<lambda>resp.
     bind_sto (lift_res (respErr name resp)) (\<lambda>_.
     lift_res (wrap_err (''shmclient: '' @ name @ '': %w'') (answer (msgEvent resp))))))"

definition command :: "string \<Rightarrow> client_env \<Rightarrow> Session \<Rightarrow> msg res \<Rightarrow> unit cl" where
  "command name E s m = request name E s m (\<lambda>_. Inr ())"

definition bootstrap_call :: "string \<Rightarrow> client_env \<Rightarrow> msg res \<Rightarrow> (event \<Rightarrow> 'a res) \<Rightarrow> 'a cl" where
  "bootstrap_call name E m answer =
     bind_sto (lift_res (wrap_err (''shmclient: '' @ name @ '': %w'') m)) (\<lambda>m.
     bind_sto newID (\<lambda>i.
     bind_sto (wrap_sto (''shmclient: '' @ name @ '': %w'') (ipc_Call E (m\<lparr>msgId := i\<rparr>) None)) (\<lambda>resp.
     bind_sto (lift_res (respErr name resp)) (\<lambda>_.
     lift_res (wrap_err (''shmclient: '' @ name @ '': %w'') (answer (msgEvent resp)))))))"

definition GetPublicKey :: "client_env \<Rightarrow> bytes cl" where
  "GetPublicKey E = bootstrap_call ''get_public_key'' E (NewGetPublicKey (build (wr (srv E))))
     (\<lambda>ev. case ev of Ev_getPublicKey v \<Rightarrow> v | _ \<Rightarrow> accessor E ''getPublicKey.pubKey'' ev)"

definition GetPrivateKey :: "client_env \<Rightarrow> bytes cl" where
  "GetPrivateKey E = bootstrap_call ''get_private_key'' E (NewGetPrivateKey (build (wr (srv E))))
     (\<lambda>ev. case ev of Ev_getPrivateKey v \<Rightarrow> v | _ \<Rightarrow> accessor E ''getPrivateKey.privKey'' ev)"

definition OpenSession :: "client_env \<Rightarrow> gostring \<Rightarrow> Session cl" where
  "OpenSession E peer = bind_sto (wrap_sto ''shmclient: fetch signing key: %w'' (GetPrivateKey E)) (\<lambda>priv.
     ret \<lparr>s_peerID = peer, s_priv = priv\<rparr>)"

subsection \<open>Keys and values\<close>

definition Session_Set :: "client_env \<Rightarrow> Session \<Rightarrow> gostring \<Rightarrow> gostring \<Rightarrow> unit cl" where
  "Session_Set E s key val = command ''set'' E s (NewSet (build (wr (srv E))) key val)"

definition Session_LogAppend :: "client_env \<Rightarrow> Session \<Rightarrow> bytes \<Rightarrow> bytes \<Rightarrow> unit cl" where
  "Session_LogAppend E s key val = command ''log_append'' E s (NewLogAppend (build (wr (srv E))) key val)"

definition CompareFailedMarker :: gostring where
  "CompareFailedMarker = str ''txn: compare failed''"

definition errorText :: "event \<Rightarrow> gostring" where
  "errorText ev = (case ev of Ev_error (Inr t) \<Rightarrow> t | _ \<Rightarrow> [])"

definition Session_Txn :: "client_env \<Rightarrow> Session \<Rightarrow> TxnOpSpec list \<Rightarrow> unit cl" where
  "Session_Txn E s ops =
     bind_sto (lift_res (wrap_err ''shmclient: txn: %w'' (NewTxn (build (wr (srv E))) ops))) (\<lambda>m.
     bind_sto (wrap_sto ''shmclient: txn: %w'' (session_call E s m)) (\<lambda>resp.
     if Which (msgEvent resp) = W_error then
       (if strings_Contains (errorText (msgEvent resp)) CompareFailedMarker then fail (Wrap ''%w: %s'' ErrCompareFailed)
        else fail (Errorf ''shmclient: txn: %s''))
     else ret ()))"

definition Session_CompareAndSwap :: "client_env \<Rightarrow> Session \<Rightarrow> gostring \<Rightarrow> gostring \<Rightarrow> gostring \<Rightarrow> bool \<Rightarrow> bool cl" where
  "Session_CompareAndSwap E s key expected val isAbsent =
     (let compare = (if isAbsent then \<lparr>Op = TxnOpCompareAbsent, Key = key, Value = []\<rparr>
                     else \<lparr>Op = TxnOpCompare, Key = key, Value = expected\<rparr>) in
      bind_sto (try_sto (Session_Txn E s [compare, \<lparr>Op = TxnOpSet, Key = key, Value = val\<rparr>])) (\<lambda>r. case r of
          Inl err \<Rightarrow> if errors_is err ErrCompareFailed then ret False else fail err
        | Inr _ \<Rightarrow> ret True))"

definition Session_Get :: "client_env \<Rightarrow> Session \<Rightarrow> gostring \<Rightarrow> bytes cl" where
  "Session_Get E s key = request ''get_field_by_key'' E s (NewGetFieldByKey (build (wr (srv E))) key)
     (\<lambda>ev. case ev of Ev_getFieldByKey _ v \<Rightarrow> v | _ \<Rightarrow> accessor E ''getFieldByKey.value'' ev)"

text \<open>The first pair of a range, or none; an empty key says none.\<close>

definition rangeAnswer :: "client_env \<Rightarrow> event \<Rightarrow> (bytes \<times> bytes) option res" where
  "rangeAnswer E ev = (case (case ev of Ev_listRange _ _ k v \<Rightarrow> (k, v) | _ \<Rightarrow> slots (srv E) ev) of (k, v) \<Rightarrow>
     bind_res k (\<lambda>key. if length key = 0 then Inr None else bind_res v (\<lambda>val. Inr (Some (key, val)))))"

definition Session_ListRange :: "client_env \<Rightarrow> Session \<Rightarrow> bytes \<Rightarrow> bytes \<Rightarrow> (bytes \<times> bytes) option cl" where
  "Session_ListRange E s start stop = request ''list_range'' E s (NewListRange (build (wr (srv E))) start stop) (rangeAnswer E)"

definition RangeOrderAsc :: gostring where "RangeOrderAsc = str ''asc''"
definition RangeOrderDesc :: gostring where "RangeOrderDesc = str ''desc''"

fun scanLoop :: "(bytes \<Rightarrow> (bytes \<times> bytes) option cl) \<Rightarrow> nat \<Rightarrow> int \<Rightarrow> bytes \<Rightarrow> (bytes \<times> bytes) list \<Rightarrow> (bytes \<times> bytes) list cl" where
  "scanLoop page 0 enough lo pairs = fail (Errorf ''context canceled'')"
| "scanLoop page (Suc left) enough lo pairs = bind_sto (page lo) (\<lambda>r. case r of
      None \<Rightarrow> ret pairs
    | Some (key, val) \<Rightarrow>
        if enough > 0 \<and> int (length (pairs @ [(key, val)])) \<ge> enough then ret (pairs @ [(key, val)])
        else scanLoop page left enough (key @ [0]) (pairs @ [(key, val)]))"

text \<open>\<^verbatim>\<open>skip + limit\<close> is a sum of 64-bit integers and wraps.\<close>

definition enoughPairs :: "bool \<Rightarrow> int \<Rightarrow> int \<Rightarrow> int" where
  "enoughPairs descending limit skip = (if \<not> descending \<and> limit > 0 then sint (word_of_int (skip + limit) :: 64 word) else 0)"

definition Session_ScanRange :: "client_env \<Rightarrow> Session \<Rightarrow> bytes \<Rightarrow> bytes \<Rightarrow> int \<Rightarrow> int \<Rightarrow> gostring \<Rightarrow> (bytes \<times> bytes) list cl" where
  "Session_ScanRange E s start stop limit skip order =
     (if limit < 0 then fail (Errorf ''shmclient: scan range: invalid limit %d: must be 0 (unlimited) or positive'')
      else if skip < 0 then fail (Errorf ''shmclient: scan range: invalid skip %d: must be 0 or positive'')
      else if order \<notin> {[], RangeOrderAsc, RangeOrderDesc}
      then fail (Errorf ''shmclient: scan range: invalid order %q: must be %q or %q'')
      else let descending = (order = RangeOrderDesc) in
        bind_sto (scanLoop (\<lambda>lo. Session_ListRange E s lo stop) (rounds E) (enoughPairs descending limit skip) start []) (\<lambda>pairs.
        let pairs = (if descending then rev pairs else pairs) in
        if skip \<ge> int (length pairs) then ret []
        else let pairs = drop (nat skip) pairs in
          if limit > 0 \<and> int (length pairs) > limit then ret (take (nat limit) pairs) else ret pairs))"

subsection \<open>Membership\<close>

definition Session_Leave :: "client_env \<Rightarrow> Session \<Rightarrow> unit cl" where
  "Session_Leave E s = command ''leave'' E s (NewLeave (build (wr (srv E))))"

definition Session_Kick :: "client_env \<Rightarrow> Session \<Rightarrow> gostring \<Rightarrow> unit cl" where
  "Session_Kick E s target = command ''kick'' E s (NewKick (build (wr (srv E))) target)"

definition Session_Add :: "client_env \<Rightarrow> Session \<Rightarrow> gostring \<Rightarrow> bytes cl" where
  "Session_Add E s leader = request ''add'' E s (NewBootstrapOrJoinCluster (build (wr (srv E))) leader)
     (\<lambda>ev. case ev of Ev_bootstrapOrJoinCluster v \<Rightarrow> v | _ \<Rightarrow> accessor E ''bootstrapOrJoinCluster.leaderAddr'' ev)"

definition Session_GetOwnAddr :: "client_env \<Rightarrow> Session \<Rightarrow> bytes cl" where
  "Session_GetOwnAddr E s = request ''get_own_addr'' E s (NewGetOwnAddr (build (wr (srv E))))
     (\<lambda>ev. case ev of Ev_getOwnAddr v \<Rightarrow> v | _ \<Rightarrow> accessor E ''getOwnAddr.addr'' ev)"

definition VersionInfoFrom :: "client_env \<Rightarrow> event \<Rightarrow> VersionInfo res" where
  "VersionInfoFrom E ev = (case (case ev of
        Ev_getVersion c d b g l \<Rightarrow> (c, d, b, g, l)
      | _ \<Rightarrow> (accessor E ''getVersion.commit'' ev, False, accessor E ''getVersion.buildTime'' ev,
          accessor E ''getVersion.goVersion'' ev, accessor E ''getVersion.libp2pVersion'' ev)) of
     (c, d, b, g, l) \<Rightarrow>
     bind_res (wrap_err ''shmevent: get_version commit: %w'' c) (\<lambda>commit.
     bind_res (wrap_err ''shmevent: get_version build_time: %w'' b) (\<lambda>buildTime.
     bind_res (wrap_err ''shmevent: get_version go_version: %w'' g) (\<lambda>goVersion.
     bind_res (wrap_err ''shmevent: get_version libp2p_version: %w'' l) (\<lambda>libp2pVersion.
     Inr \<lparr>Commit = commit, Dirty = d, BuildTime = buildTime, GoVersion = goVersion, Libp2pVersion = libp2pVersion\<rparr>)))))"

definition Session_GetVersion :: "client_env \<Rightarrow> Session \<Rightarrow> VersionInfo cl" where
  "Session_GetVersion E s = request ''get_version'' E s (NewGetVersion (build (wr (srv E)))) (VersionInfoFrom E)"

subsection \<open>Permits\<close>

definition Session_RequestPermit :: "client_env \<Rightarrow> Session \<Rightarrow> byte \<Rightarrow> bytes \<Rightarrow> gostring \<Rightarrow> unit cl" where
  "Session_RequestPermit E s kind p metadata = command ''permit_request'' E s (NewPermitRequest (build (wr (srv E))) kind p metadata)"

definition Session_ConfirmPermit :: "client_env \<Rightarrow> Session \<Rightarrow> byte \<Rightarrow> bytes \<Rightarrow> unit cl" where
  "Session_ConfirmPermit E s kind p = command ''permit_confirm'' E s (NewPermitConfirm (build (wr (srv E))) kind p)"

definition Session_RevokePermit :: "client_env \<Rightarrow> Session \<Rightarrow> byte \<Rightarrow> bytes \<Rightarrow> unit cl" where
  "Session_RevokePermit E s kind p = command ''permit_revoke'' E s (NewPermitRevoke (build (wr (srv E))) kind p)"

subsection \<open>The catalog\<close>

definition Session_PutGroup :: "client_env \<Rightarrow> Session \<Rightarrow> gostring \<Rightarrow> gostring \<Rightarrow> bool \<Rightarrow> unit cl" where
  "Session_PutGroup E s i name public = command ''group_put'' E s (NewGroupPut (build (wr (srv E))) i name public)"

definition Session_DeleteGroup :: "client_env \<Rightarrow> Session \<Rightarrow> gostring \<Rightarrow> unit cl" where
  "Session_DeleteGroup E s i = command ''group_delete'' E s (NewGroupDelete (build (wr (srv E))) i)"

definition Session_PutCommand :: "client_env \<Rightarrow> Session \<Rightarrow> gostring \<Rightarrow> gostring \<Rightarrow> bytes \<Rightarrow> unit cl" where
  "Session_PutCommand E s i name p = command ''command_put'' E s (NewCommandPut (build (wr (srv E))) i name p)"

definition Session_PutCommandWithSpec :: "client_env \<Rightarrow> Session \<Rightarrow> gostring \<Rightarrow> gostring \<Rightarrow> bytes \<Rightarrow> bytes \<Rightarrow> unit cl" where
  "Session_PutCommandWithSpec E s i name p spec = command ''command_put'' E s (NewCommandPutWithSpec (build (wr (srv E))) i name p spec)"

definition Session_PutStation :: "client_env \<Rightarrow> Session \<Rightarrow> bytes \<Rightarrow> gostring \<Rightarrow> bytes \<Rightarrow> unit cl" where
  "Session_PutStation E s p name attrs = command ''station_put'' E s (NewStationPut (build (wr (srv E))) p name attrs)"

definition Session_DeleteStation :: "client_env \<Rightarrow> Session \<Rightarrow> bytes \<Rightarrow> unit cl" where
  "Session_DeleteStation E s p = command ''station_delete'' E s (NewStationDelete (build (wr (srv E))) p)"

definition Session_DeleteCommand :: "client_env \<Rightarrow> Session \<Rightarrow> gostring \<Rightarrow> unit cl" where
  "Session_DeleteCommand E s i = command ''command_delete'' E s (NewCommandDelete (build (wr (srv E))) i)"

definition Session_PutGroupCommand :: "client_env \<Rightarrow> Session \<Rightarrow> bytes \<Rightarrow> bytes \<Rightarrow> unit cl" where
  "Session_PutGroupCommand E s c g = command ''group_command_put'' E s (NewGroupCommandPut (build (wr (srv E))) c g)"

definition Session_DeleteGroupCommand :: "client_env \<Rightarrow> Session \<Rightarrow> bytes \<Rightarrow> bytes \<Rightarrow> unit cl" where
  "Session_DeleteGroupCommand E s c g = command ''group_command_delete'' E s (NewGroupCommandDelete (build (wr (srv E))) c g)"

definition Session_PutPeerGroup :: "client_env \<Rightarrow> Session \<Rightarrow> bytes \<Rightarrow> bytes \<Rightarrow> unit cl" where
  "Session_PutPeerGroup E s p g = command ''peer_group_put'' E s (NewPeerGroupPut (build (wr (srv E))) p g)"

definition Session_DeletePeerGroup :: "client_env \<Rightarrow> Session \<Rightarrow> bytes \<Rightarrow> bytes \<Rightarrow> unit cl" where
  "Session_DeletePeerGroup E s p g = command ''peer_group_delete'' E s (NewPeerGroupDelete (build (wr (srv E))) p g)"

definition Session_ClearCommandSpec :: "client_env \<Rightarrow> Session \<Rightarrow> gostring \<Rightarrow> gostring \<Rightarrow> bytes \<Rightarrow> unit cl" where
  "Session_ClearCommandSpec E s i name p = Session_PutCommandWithSpec E s i name p []"

subsection \<open>Invites and tickets\<close>

definition Session_CreateJoinInvite :: "client_env \<Rightarrow> Session \<Rightarrow> bytes \<Rightarrow> byte \<Rightarrow> unit cl" where
  "Session_CreateJoinInvite E s token suffrage = command ''join_invite_create'' E s (NewJoinInviteCreate (build (wr (srv E))) token suffrage)"

definition Session_RevokeJoinInvite :: "client_env \<Rightarrow> Session \<Rightarrow> bytes \<Rightarrow> unit cl" where
  "Session_RevokeJoinInvite E s token = command ''join_invite_revoke'' E s (NewJoinInviteRevoke (build (wr (srv E))) token)"

definition Session_CancelJoinRequest :: "client_env \<Rightarrow> Session \<Rightarrow> bytes \<Rightarrow> unit cl" where
  "Session_CancelJoinRequest E s token = command ''join_request_cancel'' E s (NewJoinRequestCancel (build (wr (srv E))) token)"

definition Session_CreateExecInvite :: "client_env \<Rightarrow> Session \<Rightarrow> bytes \<Rightarrow> gostring \<Rightarrow> gostring \<Rightarrow> 64 word \<Rightarrow> unit cl" where
  "Session_CreateExecInvite E s token c inputs ttl = command ''exec_invite_create'' E s (NewExecInviteCreate (build (wr (srv E))) token c inputs ttl)"

definition Session_RevokeExecInvite :: "client_env \<Rightarrow> Session \<Rightarrow> bytes \<Rightarrow> unit cl" where
  "Session_RevokeExecInvite E s token = command ''exec_invite_revoke'' E s (NewExecInviteRevoke (build (wr (srv E))) token)"

definition Session_CreateJoinRequest :: "client_env \<Rightarrow> Session \<Rightarrow> bytes cl" where
  "Session_CreateJoinRequest E s = request ''join_request_create'' E s (NewJoinRequestCreate (build (wr (srv E))))
     (\<lambda>ev. case ev of Ev_joinRequestCreate v \<Rightarrow> v | _ \<Rightarrow> accessor E ''joinRequestCreate.token'' ev)"

definition Session_Recruit :: "client_env \<Rightarrow> Session \<Rightarrow> gostring \<Rightarrow> byte \<Rightarrow> bytes cl" where
  "Session_Recruit E s ticket suffrage = request ''recruit'' E s (NewRecruit (build (wr (srv E))) ticket suffrage)
     (\<lambda>ev. case ev of Ev_recruit v _ \<Rightarrow> v | _ \<Rightarrow> accessor E ''recruit.ticket'' ev)"

definition Session_RedeemExecInvite :: "client_env \<Rightarrow> Session \<Rightarrow> gostring \<Rightarrow> bytes \<Rightarrow> bytes cl" where
  "Session_RedeemExecInvite E s addr token = request ''exec_invite_redeem'' E s (NewExecInviteRedeem (build (wr (srv E))) addr token)
     (\<lambda>ev. case ev of Ev_execInviteRedeem _ _ v _ \<Rightarrow> v | _ \<Rightarrow> accessor E ''execInviteRedeem.instanceId'' ev)"

subsection \<open>Other clusters\<close>

definition Session_PublicAccess :: "client_env \<Rightarrow> Session \<Rightarrow> gostring \<Rightarrow> gostring \<Rightarrow> bytes cl" where
  "Session_PublicAccess E s target note = request ''public_access'' E s (NewPublicAccess (build (wr (srv E))) target note)
     (\<lambda>ev. case ev of Ev_publicAccess _ _ v \<Rightarrow> v | _ \<Rightarrow> accessor E ''publicAccess.instanceId'' ev)"

definition Session_DialSubmitCommand :: "client_env \<Rightarrow> Session \<Rightarrow> gostring \<Rightarrow> gostring \<Rightarrow> gostring \<Rightarrow> gostring \<Rightarrow> bytes cl" where
  "Session_DialSubmitCommand E s target c inputs note = request ''dial_submit_command'' E s (NewDialSubmitCommand (build (wr (srv E))) target c inputs note)
     (\<lambda>ev. case ev of Ev_dialSubmitCommand _ _ _ _ v \<Rightarrow> v | _ \<Rightarrow> accessor E ''dialSubmitCommand.instanceId'' ev)"

fun decodeRecords :: "env \<Rightarrow> bytes list \<Rightarrow> logRecord list res" where
  "decodeRecords e [] = Inr []"
| "decodeRecords e (b # bs) =
     bind_res (wrap_err ''shmevent: dial_query_command_log record %d: %w'' (record_unjson e b)) (\<lambda>r.
     bind_res (decodeRecords e bs) (\<lambda>rs. Inr (r # rs)))"

definition DialQueryCommandLogRecords :: "client_env \<Rightarrow> (event \<Rightarrow> bytes list res) \<Rightarrow> event \<Rightarrow> logRecord list res" where
  "DialQueryCommandLogRecords E alien ev =
     bind_res (wrap_err ''shmevent: dial_query_command_log records: %w''
       (case ev of Ev_dialQueryCommandLog _ _ _ _ _ l \<Rightarrow> l | _ \<Rightarrow> alien ev)) (decodeRecords (srv E))"

definition Session_DialQueryCommandLog ::
    "client_env \<Rightarrow> (event \<Rightarrow> bytes list res) \<Rightarrow> Session \<Rightarrow> gostring \<Rightarrow> gostring \<Rightarrow> int \<Rightarrow> int \<Rightarrow> int \<Rightarrow> logRecord list cl" where
  "Session_DialQueryCommandLog E alien s target i since until limit =
     request ''dial_query_command_log'' E s (NewDialQueryCommandLog (build (wr (srv E))) target i since until limit)
       (\<lambda>ev. wrap_err ''decode response: %w'' (DialQueryCommandLogRecords E alien ev))"

subsection \<open>Notifications\<close>

text \<open>Drawing until an id differs from the source's; a supply that has only the source's id to give never does.\<close>

lemma drawID_shorter: "rs \<noteq> [] \<Longrightarrow> length (snd (drawID rs)) < length rs"
proof (induction rs rule: drawID.induct)
  case (3 b rs)
  then show ?case by (cases rs) (auto simp: Let_def)
qed simp_all

function drawOther :: "16 word \<Rightarrow> bytes res list \<Rightarrow> (16 word \<times> bytes res list) option" where
  "drawOther src rs = (case drawID rs of (i, rs') \<Rightarrow>
     if i \<noteq> src then Some (i, rs') else if rs = [] then None else drawOther src rs')"
  by pat_completeness auto
termination
  by (relation "measure (\<lambda>(_, rs). length rs)") (auto simp: case_prod_beta intro: drawID_shorter)

declare drawOther.simps [simp del]

definition otherID :: "16 word \<Rightarrow> 16 word cl" where
  "otherID src w = (case drawOther src (w_rand w) of
      None \<Rightarrow> (Inl (Errorf ''no other id''), w)
    | Some (i, rs) \<Rightarrow> (Inr i, w\<lparr>w_rand := rs\<rparr>))"

definition registerKey :: "string \<Rightarrow> client_env \<Rightarrow> Session \<Rightarrow> 16 word \<Rightarrow> bytes \<Rightarrow> unit cl" where
  "registerKey name E s i val =
     bind_sto (lift_res (wrap_err (''shmclient: '' @ name @ '': %w'') (NewSetKey (build (wr (srv E))) val))) (\<lambda>m.
     bind_sto (wrap_sto (''shmclient: '' @ name @ '': %w'') (ipc_Call E (m\<lparr>msgId := i\<rparr>) (Some (s_priv s)))) (\<lambda>resp.
     lift_res (respErr name resp)))"

definition Session_Execute :: "client_env \<Rightarrow> Session \<Rightarrow> gostring \<Rightarrow> bytes \<Rightarrow> unit cl" where
  "Session_Execute E s dest pl =
     bind_sto newID (\<lambda>sourceID.
     bind_sto (registerKey ''execute: register source'' E s sourceID (s_peerID s)) (\<lambda>_.
     bind_sto (otherID sourceID) (\<lambda>destID.
     bind_sto (registerKey ''execute: register destination'' E s destID dest) (\<lambda>_.
     command ''execute'' E s (NewExecute (build (wr (srv E))) sourceID destID pl)))))"

definition Session_PollExecute :: "client_env \<Rightarrow> Session \<Rightarrow> (gostring \<times> bytes) option cl" where
  "Session_PollExecute E s = request ''poll_execute'' E s (NewPollExecute (build (wr (srv E)))) (\<lambda>ev.
     case (case ev of Ev_pollExecute p v \<Rightarrow> (p, v)
             | _ \<Rightarrow> (accessor E ''pollExecute.senderPeerId'' ev, accessor E ''pollExecute.value'' ev)) of
       (p, v) \<Rightarrow> bind_res p (\<lambda>sender. if sender = [] then Inr None else bind_res v (\<lambda>val. Inr (Some (sender, val)))))"

subsection \<open>One-shot calls\<close>

definition one_shot :: "client_env \<Rightarrow> gostring \<Rightarrow> (Session \<Rightarrow> 'a cl) \<Rightarrow> 'a cl" where
  "one_shot E peer f = bind_sto (OpenSession E peer) f"

definition shmclient_Set :: "client_env \<Rightarrow> gostring \<Rightarrow> gostring \<Rightarrow> gostring \<Rightarrow> unit cl" where
  "shmclient_Set E peer x0 x1 = one_shot E peer (\<lambda>s. Session_Set E s x0 x1)"

definition shmclient_LogAppend :: "client_env \<Rightarrow> gostring \<Rightarrow> bytes \<Rightarrow> bytes \<Rightarrow> unit cl" where
  "shmclient_LogAppend E peer x0 x1 = one_shot E peer (\<lambda>s. Session_LogAppend E s x0 x1)"

definition shmclient_Txn :: "client_env \<Rightarrow> gostring \<Rightarrow> TxnOpSpec list \<Rightarrow> unit cl" where
  "shmclient_Txn E peer x0 = one_shot E peer (\<lambda>s. Session_Txn E s x0)"

definition shmclient_CompareAndSwap :: "client_env \<Rightarrow> gostring \<Rightarrow> gostring \<Rightarrow> gostring \<Rightarrow> gostring \<Rightarrow> bool \<Rightarrow> bool cl" where
  "shmclient_CompareAndSwap E peer x0 x1 x2 x3 = one_shot E peer (\<lambda>s. Session_CompareAndSwap E s x0 x1 x2 x3)"

definition shmclient_Get :: "client_env \<Rightarrow> gostring \<Rightarrow> gostring \<Rightarrow> bytes cl" where
  "shmclient_Get E peer x0 = one_shot E peer (\<lambda>s. Session_Get E s x0)"

definition shmclient_ListRange :: "client_env \<Rightarrow> gostring \<Rightarrow> bytes \<Rightarrow> bytes \<Rightarrow> (bytes \<times> bytes) option cl" where
  "shmclient_ListRange E peer x0 x1 = one_shot E peer (\<lambda>s. Session_ListRange E s x0 x1)"

definition shmclient_Execute :: "client_env \<Rightarrow> gostring \<Rightarrow> gostring \<Rightarrow> bytes \<Rightarrow> unit cl" where
  "shmclient_Execute E peer x0 x1 = one_shot E peer (\<lambda>s. Session_Execute E s x0 x1)"

definition shmclient_PollExecute :: "client_env \<Rightarrow> gostring \<Rightarrow> (gostring \<times> bytes) option cl" where
  "shmclient_PollExecute E peer = one_shot E peer (\<lambda>s. Session_PollExecute E s)"

definition shmclient_Add :: "client_env \<Rightarrow> gostring \<Rightarrow> gostring \<Rightarrow> bytes cl" where
  "shmclient_Add E peer x0 = one_shot E peer (\<lambda>s. Session_Add E s x0)"

definition shmclient_Leave :: "client_env \<Rightarrow> gostring \<Rightarrow> unit cl" where
  "shmclient_Leave E peer = one_shot E peer (\<lambda>s. Session_Leave E s)"

definition shmclient_Kick :: "client_env \<Rightarrow> gostring \<Rightarrow> gostring \<Rightarrow> unit cl" where
  "shmclient_Kick E peer x0 = one_shot E peer (\<lambda>s. Session_Kick E s x0)"

definition shmclient_RequestPermit :: "client_env \<Rightarrow> gostring \<Rightarrow> byte \<Rightarrow> bytes \<Rightarrow> gostring \<Rightarrow> unit cl" where
  "shmclient_RequestPermit E peer x0 x1 x2 = one_shot E peer (\<lambda>s. Session_RequestPermit E s x0 x1 x2)"

definition shmclient_ConfirmPermit :: "client_env \<Rightarrow> gostring \<Rightarrow> byte \<Rightarrow> bytes \<Rightarrow> unit cl" where
  "shmclient_ConfirmPermit E peer x0 x1 = one_shot E peer (\<lambda>s. Session_ConfirmPermit E s x0 x1)"

definition shmclient_RevokePermit :: "client_env \<Rightarrow> gostring \<Rightarrow> byte \<Rightarrow> bytes \<Rightarrow> unit cl" where
  "shmclient_RevokePermit E peer x0 x1 = one_shot E peer (\<lambda>s. Session_RevokePermit E s x0 x1)"

definition shmclient_PutGroup :: "client_env \<Rightarrow> gostring \<Rightarrow> gostring \<Rightarrow> gostring \<Rightarrow> bool \<Rightarrow> unit cl" where
  "shmclient_PutGroup E peer x0 x1 x2 = one_shot E peer (\<lambda>s. Session_PutGroup E s x0 x1 x2)"

definition shmclient_DeleteGroup :: "client_env \<Rightarrow> gostring \<Rightarrow> gostring \<Rightarrow> unit cl" where
  "shmclient_DeleteGroup E peer x0 = one_shot E peer (\<lambda>s. Session_DeleteGroup E s x0)"

definition shmclient_PutCommand :: "client_env \<Rightarrow> gostring \<Rightarrow> gostring \<Rightarrow> gostring \<Rightarrow> bytes \<Rightarrow> unit cl" where
  "shmclient_PutCommand E peer x0 x1 x2 = one_shot E peer (\<lambda>s. Session_PutCommand E s x0 x1 x2)"

definition shmclient_DeleteCommand :: "client_env \<Rightarrow> gostring \<Rightarrow> gostring \<Rightarrow> unit cl" where
  "shmclient_DeleteCommand E peer x0 = one_shot E peer (\<lambda>s. Session_DeleteCommand E s x0)"

definition shmclient_PutGroupCommand :: "client_env \<Rightarrow> gostring \<Rightarrow> bytes \<Rightarrow> bytes \<Rightarrow> unit cl" where
  "shmclient_PutGroupCommand E peer x0 x1 = one_shot E peer (\<lambda>s. Session_PutGroupCommand E s x0 x1)"

definition shmclient_DeleteGroupCommand :: "client_env \<Rightarrow> gostring \<Rightarrow> bytes \<Rightarrow> bytes \<Rightarrow> unit cl" where
  "shmclient_DeleteGroupCommand E peer x0 x1 = one_shot E peer (\<lambda>s. Session_DeleteGroupCommand E s x0 x1)"

definition shmclient_PutPeerGroup :: "client_env \<Rightarrow> gostring \<Rightarrow> bytes \<Rightarrow> bytes \<Rightarrow> unit cl" where
  "shmclient_PutPeerGroup E peer x0 x1 = one_shot E peer (\<lambda>s. Session_PutPeerGroup E s x0 x1)"

definition shmclient_DeletePeerGroup :: "client_env \<Rightarrow> gostring \<Rightarrow> bytes \<Rightarrow> bytes \<Rightarrow> unit cl" where
  "shmclient_DeletePeerGroup E peer x0 x1 = one_shot E peer (\<lambda>s. Session_DeletePeerGroup E s x0 x1)"

subsection \<open>One call\<close>

text \<open>
  A session on a node that is up: it has the node's key, the transport is at rest and its segments
  can be created. \<open>carries\<close> says that a message with the given contents fits its segment, under
  any id; \<open>fresh_ids\<close> that each of the next ids differs from the one before it.
\<close>

definition local_link :: "client_env \<Rightarrow> Session \<Rightarrow> world \<Rightarrow> bool" where
  "local_link E s w \<longleftrightarrow> lossless (wr (srv E)) \<and> (\<forall>ev. build (wr (srv E)) ev = Inr (new_msg ev)) \<and>
     key_pair (wr (srv E)) (s_priv s) (ed25519Pub (served (w_ipc w))) \<and> servePriv (w_ipc w) = s_priv s \<and>
     at_rest (w_ipc w) \<and> (\<forall>r \<in> set (w_rings w). \<not> isl r)"

definition carries :: "client_env \<Rightarrow> Session \<Rightarrow> event \<Rightarrow> bool" where
  "carries E s ev \<longleftrightarrow> (\<forall>i. \<not> isl (Encode (wr (srv E)) ((new_msg ev)\<lparr>msgId := i\<rparr>) (Some (s_priv s))))"

fun fresh_ids :: "nat \<Rightarrow> bytes res list \<Rightarrow> 16 word option \<Rightarrow> bool" where
  "fresh_ids 0 rs prev = True"
| "fresh_ids (Suc n) rs prev = (case drawID rs of (i, rs') \<Rightarrow> prev \<noteq> Some i \<and> fresh_ids n rs' (Some i))"

definition next_fresh :: "nat \<Rightarrow> world \<Rightarrow> bool" where
  "next_fresh n w \<longleftrightarrow> fresh_ids n (w_rand w) (lastID (w_ipc w))"

lemma Encode_event:
  "msgSignature m = Inr x \<Longrightarrow> Encode w m k = Encode w ((new_msg (msgEvent m))\<lparr>msgId := msgId m\<rparr>) k"
  using Encode_resets [where m = "(new_msg (msgEvent m))\<lparr>msgId := msgId m\<rparr>" and x = "[]" and w = w and c = "msgCrc32 m" and s = x and priv = k]
  by (cases m) (simp add: new_msg_def)

lemma ipc_Call_link:
  "local_link E s w \<Longrightarrow> ipc_Call E m priv w =
     (case Call (srv E) m priv (w_ipc w) of (r, t) \<Rightarrow> (r, w\<lparr>w_rings := tl (w_rings w), w_ipc := t\<rparr>))"
  by (auto simp: ipc_Call_def local_link_def isl_def split: list.splits sum.splits)

text \<open>What the call of a session returns, from what the node's handler answers.\<close>

lemma session_call_reply:
  assumes "local_link E s w" "next_fresh (Suc j) w" "carries E s ev" "carries E s ev'"
    and handle: "\<And>m crc sig. msgEvent m = ev \<Longrightarrow> msgSignature m = Inr sig \<Longrightarrow>
      Verify (wr (srv E)) (ed25519Pub (served (w_ipc w))) m crc sig = Inr () \<Longrightarrow>
      \<exists>resp g. handleShmEvent (srv E) m crc sig (localCaller (served (w_ipc w))) (served (w_ipc w)) = (Inr resp, n) \<and>
        msgEvent resp = ev' \<and> msgSignature resp = Inr g"
    and "ed25519Pub n = ed25519Pub (served (w_ipc w))"
  shows "\<exists>r w'. session_call E s (new_msg ev) w = (Inr r, w') \<and> msgEvent r = ev' \<and>
    local_link E s w' \<and> served (w_ipc w') = n \<and> next_fresh j w'"
proof -
  let ?e = "srv E" and ?n = "served (w_ipc w)"
  obtain i rs where d: "drawID (w_rand w) = (i, rs)" by fastforce
  with assms(2) have i: "lastID (w_ipc w) \<noteq> Some i" "fresh_ids j rs (Some i)" by (simp_all add: next_fresh_def)
  from assms(1) have w: "lossless (wr ?e)" "key_pair (wr ?e) (s_priv s) (ed25519Pub ?n)" "at_rest (w_ipc w)" "servePriv (w_ipc w) = s_priv s"
    by (simp_all add: local_link_def)
  let ?m = "(new_msg ev)\<lparr>msgId := i\<rparr>"
  obtain buf where buf: "Encode (wr ?e) ?m (Some (s_priv s)) = Inr buf" using assms(3) by (metis carries_def sum.collapse(2))
  from Decode_Encode [OF w(1,2) buf] obtain crc sig where m: "Decode (wr ?e) buf = Inr (?m\<lparr>msgCrc32 := crc, msgSignature := Inr sig\<rparr>, crc, sig)"
    "Verify (wr ?e) (ed25519Pub ?n) (?m\<lparr>msgCrc32 := crc, msgSignature := Inr sig\<rparr>) crc sig = Inr ()" by blast
  from handle [OF _ _ m(2)] obtain resp g where h: "handleShmEvent ?e (?m\<lparr>msgCrc32 := crc, msgSignature := Inr sig\<rparr>) crc sig (localCaller ?n) ?n = (Inr resp, n)"
    and r: "msgEvent resp = ev'" "msgSignature resp = Inr g" by (auto simp: new_msg_def)
  obtain rbuf where rbuf: "Encode (wr ?e) (resp\<lparr>msgId := i\<rparr>) (Some (servePriv (w_ipc w))) = Inr rbuf"
    using assms(4) r Encode_event [of "resp\<lparr>msgId := i\<rparr>" g "wr ?e" "Some (s_priv s)"] w(4)
    by (auto simp: carries_def) (metis sum.collapse(2))
  obtain c g' t where t: "Call ?e ?m (Some (s_priv s)) (w_ipc w) = (Inr (resp\<lparr>msgId := i, msgCrc32 := c, msgSignature := Inr g'\<rparr>), t)"
    "at_rest t" "served t = n" "lastID t = Some i" "servePriv t = s_priv s"
    using Call_reply [OF w(3) _ w(1) _ buf m(1) _ h, of "ed25519Pub ?n" rbuf] i(1) w(2,4) rbuf by auto
  let ?w' = "w\<lparr>w_rand := rs, w_rings := tl (w_rings w), w_ipc := t\<rparr>"
  have "local_link E s (w\<lparr>w_rand := rs\<rparr>)" using assms(1) by (simp add: local_link_def)
  then have "session_call E s (new_msg ev) w = (Inr (resp\<lparr>msgId := i, msgCrc32 := c, msgSignature := Inr g'\<rparr>), ?w')"
    using t(1) d by (simp add: session_call_def newID_def bind_sto_def ipc_Call_link)
  moreover have "local_link E s ?w'" "next_fresh j ?w'"
    using assms(1,6) t i(2) by (cases "w_rings w"; auto simp: local_link_def next_fresh_def)+
  ultimately show ?thesis using r(1) t(3) by auto
qed

lemma request_ok:
  assumes "session_call E s m w = (Inr r, w')" "Which (msgEvent r) \<noteq> W_error" "answer (msgEvent r) = Inr a"
  shows "request name E s (Inr m) answer w = (Inr a, w')"
  using assms by (simp add: request_def respErr_def bind_sto_def wrap_sto_def)

lemma local_link_builds: "local_link E s w \<Longrightarrow> build (wr (srv E)) ev = Inr (new_msg ev)"
  by (simp add: local_link_def)

lemma local_caller [simp]: "remotePeer (localCaller n) = []" "verifyPub (localCaller n) = ed25519Pub n"
  by (simp_all add: localCaller_def)

lemma Session_Set_leader:
  assumes "local_link E s w" "next_fresh (Suc j) w" "commits (srv E)" "leads (served (w_ipc w)) c"
    and "rejectReservedKey k = Inr ()" "checkValueSize v = Inr ()" "length k + length v + 4 < 2 ^ 32" "carries E s (Ev_set (Inr k) (Inr v))"
  shows "\<exists>w'. Session_Set E s k v w = (Inr (), w') \<and> leads (served (w_ipc w')) (c(k \<mapsto> v)) \<and> local_link E s w' \<and> next_fresh j w'"
proof -
  let ?n = "served (w_ipc w)" and ?ev = "Ev_set (Inr k) (Inr v)"
  obtain st where set: "handleSetForward (srv E) k v True ?n = (Inr (), ?n\<lparr>n_store := st\<rparr>)" "leads (?n\<lparr>n_store := st\<rparr>) (c(k \<mapsto> v))"
    using runs_set [OF assms(3) accepts_plain [OF user_key_plain [OF assms(5)] assms(7)]] assms(4) unfolding runs_def by blast
  have pub: "ed25519Pub (?n\<lparr>n_store := st\<rparr>) = ed25519Pub ?n" by simp
  have h: "\<exists>resp g. handleShmEvent (srv E) m crc sig (localCaller ?n) ?n = (Inr resp, ?n\<lparr>n_store := st\<rparr>) \<and> msgEvent resp = ?ev \<and> msgSignature resp = Inr g"
    if "msgEvent m = ?ev" "msgSignature m = Inr sig" "Verify (wr (srv E)) (ed25519Pub ?n) m crc sig = Inr ()" for m crc sig
    using that set(1) assms(5) by (simp add: handle_local dispatchEvent_def ev_set_def answered_def bind_sto_def)
  from session_call_reply [OF assms(1,2,8,8) h pub] obtain r w' where "session_call E s (new_msg ?ev) w = (Inr r, w')" "msgEvent r = ?ev"
    "local_link E s w'" "served (w_ipc w') = ?n\<lparr>n_store := st\<rparr>" "next_fresh j w'" by blast
  moreover from this(1,2) assms(6) have "Session_Set E s k v w = (Inr (), w')"
    by (simp add: Session_Set_def command_def NewSet_def local_link_builds [OF assms(1)] request_ok)
  ultimately show ?thesis using set(2) by auto
qed

lemma Session_Get_healthy:
  assumes "local_link E s w" "next_fresh (Suc j) w" "healthy (n_store (served (w_ipc w)))" "contents (n_store (served (w_ipc w))) k = Some v"
    and "carries E s (Ev_getFieldByKey (Inr k) (Inr []))" "carries E s (Ev_getFieldByKey (Inr k) (Inr v))"
  shows "\<exists>w'. Session_Get E s k w = (Inr v, w') \<and> served (w_ipc w') = served (w_ipc w) \<and> local_link E s w' \<and> next_fresh j w'"
proof -
  let ?n = "served (w_ipc w)" and ?ev = "\<lambda>v. Ev_getFieldByKey (Inr k) (Inr v)"
  have h: "\<exists>resp g. handleShmEvent (srv E) m crc sig (localCaller ?n) ?n = (Inr resp, ?n) \<and> msgEvent resp = ?ev v \<and> msgSignature resp = Inr g"
    if "msgEvent m = ?ev []" "msgSignature m = Inr sig" "Verify (wr (srv E)) (ed25519Pub ?n) m crc sig = Inr ()" for m crc sig
    using that handle_get_local [OF assms(3) _ _ _ that(1) assms(4), of "srv E" "localCaller ?n" crc sig] local_link_builds [OF assms(1)] by simp
  from session_call_reply [OF assms(1,2,5,6) h refl] obtain r w' where "session_call E s (new_msg (?ev [])) w = (Inr r, w')" "msgEvent r = ?ev v"
    "local_link E s w'" "served (w_ipc w') = ?n" "next_fresh j w'" by blast
  moreover from this(1,2) have "Session_Get E s k w = (Inr v, w')"
    by (simp add: Session_Get_def NewGetFieldByKey_def local_link_builds [OF assms(1)] request_ok)
  ultimately show ?thesis by auto
qed

subsection \<open>Scanning\<close>

definition page_events :: "bytes \<Rightarrow> bytes \<Rightarrow> table \<Rightarrow> event set" where
  "page_events lo hi rows = {Ev_listRange (Inr lo') (Inr hi) (Inr k) (Inr v) | lo' k v.
     lo' \<in> insert lo ((\<lambda>r. fst r @ [0]) ` set rows) \<and> (k, v) \<in> insert ([], []) (set rows)}"

lemma Session_ListRange_healthy:
  assumes "local_link E s w" "next_fresh (Suc j) w" "healthy (n_store (served (w_ipc w)))"
    and "rows = filter (\<lambda>r. lo \<le> fst r \<and> fst r \<le> hi) (kv (n_store (served (w_ipc w))))"
    and "\<And>ev. ev \<in> page_events lo hi rows \<Longrightarrow> carries E s ev"
  shows "\<exists>w'. Session_ListRange E s lo hi w = (Inr (case rows of [] \<Rightarrow> None | r # _ \<Rightarrow> if fst r = [] then None else Some r), w') \<and>
    served (w_ipc w') = served (w_ipc w) \<and> local_link E s w' \<and> next_fresh j w'"
proof -
  let ?n = "served (w_ipc w)" and ?ev = "\<lambda>(k, v). Ev_listRange (Inr lo) (Inr hi) (Inr k) (Inr v)"
  define r where "r = (case rows of [] \<Rightarrow> ([], []) | r # _ \<Rightarrow> r)"
  have c: "carries E s (?ev ([], []))" "carries E s (?ev r)"
    by (rule assms(5); auto simp: page_events_def r_def split: list.split)+
  have h: "\<exists>resp g. handleShmEvent (srv E) m crc sig (localCaller ?n) ?n = (Inr resp, ?n) \<and> msgEvent resp = ?ev r \<and> msgSignature resp = Inr g"
    if "msgEvent m = ?ev ([], [])" "msgSignature m = Inr sig" "Verify (wr (srv E)) (ed25519Pub ?n) m crc sig = Inr ()" for m crc sig
    using that handle_listRange_local [OF assms(3), of "srv E" "localCaller ?n" m crc sig lo hi "Inr []" "Inr []"] local_link_builds [OF assms(1)]
    by (auto simp: r_def assms(4) [symmetric] split: list.split)
  from session_call_reply [OF assms(1,2) c h refl] obtain r' w' where "session_call E s (new_msg (?ev ([], []))) w = (Inr r', w')" "msgEvent r' = ?ev r"
    and w': "local_link E s w'" "served (w_ipc w') = ?n" "next_fresh j w'" by blast
  moreover have "rangeAnswer E (?ev r) = Inr (case rows of [] \<Rightarrow> None | r # _ \<Rightarrow> if fst r = [] then None else Some r)"
    by (auto simp: rangeAnswer_def r_def split: list.split prod.split)
  ultimately have "Session_ListRange E s lo hi w = (Inr (case rows of [] \<Rightarrow> None | r # _ \<Rightarrow> if fst r = [] then None else Some r), w')"
    by (simp add: Session_ListRange_def NewListRange_def local_link_builds [OF assms(1)] request_ok split_beta)
  with w' show ?thesis by auto
qed

lemma scanLoop_rows:
  assumes "tbl_ok (kv (n_store n))" "healthy (n_store n)" "\<And>r. r \<in> set (kv (n_store n)) \<Longrightarrow> fst r \<noteq> []"
    and "local_link E s w" "served (w_ipc w) = n" "rows = filter (\<lambda>r. lo \<le> fst r \<and> fst r \<le> hi) (kv (n_store n))"
    and "next_fresh (Suc (length rows)) w" "length rows < left" "\<And>ev. ev \<in> page_events lo hi rows \<Longrightarrow> carries E s ev"
    and "enough \<le> 0 \<or> int (length acc) < enough"
  shows "\<exists>w'. scanLoop (\<lambda>lo. Session_ListRange E s lo hi) left enough lo acc w =
      (Inr (acc @ (if enough \<le> 0 then rows else take (nat enough - length acc) rows)), w') \<and> served (w_ipc w') = n"
  using assms(4-)
proof (induction left arbitrary: lo acc rows w)
  case (Suc left)
  have h: "healthy (n_store (served (w_ipc w)))" and rows: "rows = filter (\<lambda>r. lo \<le> fst r \<and> fst r \<le> hi) (kv (n_store (served (w_ipc w))))"
    using assms(2) Suc.prems(2,3) by simp_all
  obtain w' where page: "Session_ListRange E s lo hi w = (Inr (case rows of [] \<Rightarrow> None | r # _ \<Rightarrow> if fst r = [] then None else Some r), w')"
    and w': "served (w_ipc w') = n" "local_link E s w'" "next_fresh (length rows) w'"
    using Session_ListRange_healthy [OF Suc.prems(1,4) h rows Suc.prems(6)] Suc.prems(2) by auto
  show ?case
  proof (cases rows)
    case Nil
    then show ?thesis using page w' by (auto simp: bind_sto_def)
  next
    case (Cons r rs)
    then have "r \<in> set rows" by simp
    then have "r \<in> set (kv (n_store n))" unfolding Suc.prems(3) by simp
    then have "fst r \<noteq> []" by (rule assms(3))
    then have page: "Session_ListRange E s lo hi w = (Inr (Some r), w')" using page Cons by simp
    let ?stop = "enough > 0 \<and> int (length (acc @ [r])) \<ge> enough"
    have step: "scanLoop (\<lambda>lo. Session_ListRange E s lo hi) (Suc left) enough lo acc w =
      (if ?stop then (Inr (acc @ [r]), w') else scanLoop (\<lambda>lo. Session_ListRange E s lo hi) left enough (fst r @ [0]) (acc @ [r]) w')"
      using page by (cases r) (simp add: bind_sto_def)
    have rest: "rs = filter (\<lambda>x. fst r @ [0] \<le> fst x \<and> fst x \<le> hi) (kv (n_store n))"
      by (rule next_page [OF assms(1), symmetric]) (use Suc.prems(3) Cons in simp)
    have "page_events (fst r @ [0]) hi rs \<subseteq> page_events lo hi rows" using Cons by (auto simp: page_events_def)
    then have sub: "carries E s ev" if "ev \<in> page_events (fst r @ [0]) hi rs" for ev using Suc.prems(6) that by blast
    have fresh: "next_fresh (Suc (length rs)) w'" using w'(3) Cons by simp
    show ?thesis
    proof (cases ?stop)
      case True
      then have "nat enough - length acc = 1" using Suc.prems(7) by simp
      with True step w'(1) Cons show ?thesis by simp
    next
      case False
      have "nat enough - length acc = Suc (nat enough - Suc (length acc))" if "\<not> enough \<le> 0" using that Suc.prems(7) by linarith
      moreover obtain w'' where "scanLoop (\<lambda>lo. Session_ListRange E s lo hi) left enough (fst r @ [0]) (acc @ [r]) w' =
        (Inr ((acc @ [r]) @ (if enough \<le> 0 then rs else take (nat enough - length (acc @ [r])) rs)), w'')" "served (w_ipc w'') = n"
        using Suc.IH [OF w'(2,1) rest fresh _ sub, of "acc @ [r]"] Suc.prems(5) False Cons by auto
      ultimately show ?thesis using step False Cons by auto
    qed
  qed
qed simp

lemma sint_sum_wraps:
  assumes "0 \<le> a" "a < 2 ^ 63" "0 \<le> b" "b < 2 ^ 63"
  shows "sint (word_of_int (a + b) :: 64 word) \<le> 0 \<or> sint (word_of_int (a + b) :: 64 word) = a + b"
proof -
  have s: "sint (word_of_int x :: 64 word) = (x + 2 ^ 63) mod 2 ^ 64 - 2 ^ 63" for x
    by (simp add: signed_of_int signed_take_bit_eq_take_bit_shift take_bit_eq_mod)
  show ?thesis
  proof (cases "a + b < 2 ^ 63")
    case True
    then have "(a + b + 2 ^ 63) mod 2 ^ 64 = a + b + 2 ^ 63" using assms by (intro mod_pos_pos_trivial) simp_all
    then show ?thesis unfolding s by simp
  next
    case False
    then have "(a + b + 2 ^ 63 - 2 ^ 64) mod 2 ^ 64 = a + b + 2 ^ 63 - 2 ^ 64" using assms by (intro mod_pos_pos_trivial) simp_all
    then have "(a + b + 2 ^ 63) mod 2 ^ 64 = a + b + 2 ^ 63 - 2 ^ 64" by (simp only: minus_mod_self2)
    then show ?thesis unfolding s using assms by simp
  qed
qed

subsection \<open>Transactions\<close>

definition cas_ops :: "gostring \<Rightarrow> gostring \<Rightarrow> gostring \<Rightarrow> bool \<Rightarrow> TxnOpSpec list" where
  "cas_ops key expected val isAbsent =
     [if isAbsent then \<lparr>Op = TxnOpCompareAbsent, Key = key, Value = []\<rparr> else \<lparr>Op = TxnOpCompare, Key = key, Value = expected\<rparr>,
      \<lparr>Op = TxnOpSet, Key = key, Value = val\<rparr>]"

lemma cas_ops_ok:
  assumes "key \<noteq> []" "length key \<le> 0xFFFF" "length expected \<le> 0xFFFF" "length val \<le> 0xFFFF" "rejectReservedKey key = Inr ()"
  shows "checkNewTxnOps (cas_ops key expected val isAbsent) = Inr ()" "rejectReservedKeys (cas_ops key expected val isAbsent) = Inr ()"
    "\<exists>pl. EncodeTxnPayload (cas_ops key expected val isAbsent) = Inr pl \<and> length pl + 4 < 2 ^ 32"
  using assms by (simp_all add: cas_ops_def checkValueSize_def checkValueLen_def MaxValueSize_def ValidTxnOp_def EncodeTxnPayload_Inr txn_op_ok_def)

lemma cas_meaning:
  "list_all (txn_holds c) (cas_ops key expected val isAbsent) \<longleftrightarrow> (if isAbsent then c key = None else c key = Some expected)"
  "foldl txn_write c (cas_ops key expected val isAbsent) = c(key \<mapsto> val)"
  by (auto simp: cas_ops_def txn_holds_def txn_write.simps)

text \<open>A compare and swap on the leader, given that an error's text carries the text of what it wraps.\<close>

lemma Session_CompareAndSwap_leader:
  assumes "local_link E s w" "next_fresh (Suc j) w" "commits (srv E)" "leads (served (w_ipc w)) c"
    and key: "key \<noteq> []" "length key \<le> 0xFFFF" "length expected \<le> 0xFFFF" "length val \<le> 0xFFFF" "rejectReservedKey key = Inr ()"
    and marked: "\<And>err. errors_is err ErrCompareFailed \<Longrightarrow> strings_Contains (err_text (srv E) err) CompareFailedMarker"
    and car: "carries E s (Ev_txn (Inr (cas_ops key expected val isAbsent)))"
      "\<And>err. errors_is err ErrCompareFailed \<Longrightarrow> carries E s (Ev_error (Inr (err_text (srv E) err)))"
  defines "holds \<equiv> (if isAbsent then c key = None else c key = Some expected)"
  shows "\<exists>w'. Session_CompareAndSwap E s key expected val isAbsent w = (Inr holds, w') \<and>
    leads (served (w_ipc w')) (if holds then c(key \<mapsto> val) else c) \<and> local_link E s w' \<and> next_fresh j w'"
proof -
  let ?n = "served (w_ipc w)" and ?ops = "cas_ops key expected val isAbsent"
  note ok = cas_ops_ok [OF key, of isAbsent] cas_meaning [of c key expected val isAbsent, folded holds_def]
  obtain pl where pl: "EncodeTxnPayload ?ops = Inr pl" "length pl + 4 < 2 ^ 32" using ok(3) by blast
  have txn: "Session_Txn E s ?ops = bind_sto (wrap_sto ''shmclient: txn: %w'' (session_call E s (new_msg (Ev_txn (Inr ?ops))))) (\<lambda>resp.
     if Which (msgEvent resp) = W_error then
       (if strings_Contains (errorText (msgEvent resp)) CompareFailedMarker then fail (Wrap ''%w: %s'' ErrCompareFailed)
        else fail (Errorf ''shmclient: txn: %s''))
     else ret ())"
    using ok(1) by (simp add: Session_Txn_def NewTxn_def local_link_builds [OF assms(1)] fun_eq_iff) (simp add: cas_ops_def)
  have cas: "Session_CompareAndSwap E s key expected val isAbsent = bind_sto (try_sto (Session_Txn E s ?ops)) (\<lambda>r. case r of
          Inl err \<Rightarrow> if errors_is err ErrCompareFailed then ret False else fail err
        | Inr _ \<Rightarrow> ret True)"
    by (simp add: Session_CompareAndSwap_def cas_ops_def Let_def)
  note h = handle_txn_local [OF assms(3,4) local_caller(1) [of ?n] ok(2) pl, simplified local_caller ok(4,5)]
  have err: "errorMsg (srv E) i err = Inr ((new_msg (Ev_error (Inr (err_text (srv E) err))))\<lparr>msgId := i\<rparr>)" for i err
    by (simp add: errorMsg_def NewError_def local_link_builds [OF assms(1)])
  show ?thesis
  proof (cases holds)
    case True
    then obtain st where st: "leads (?n\<lparr>n_store := st\<rparr>) (c(key \<mapsto> val))" "\<And>m crc sig. msgEvent m = Ev_txn (Inr ?ops) \<Longrightarrow>
        Verify (wr (srv E)) (ed25519Pub ?n) m crc sig = Inr () \<Longrightarrow> handleShmEvent (srv E) m crc sig (localCaller ?n) ?n = (Inr m, ?n\<lparr>n_store := st\<rparr>)"
      using h by auto
    have pub: "ed25519Pub (?n\<lparr>n_store := st\<rparr>) = ed25519Pub ?n" by simp
    from session_call_reply [OF assms(1,2) car(1) car(1) _ pub] st(2)
    obtain r w' where w': "session_call E s (new_msg (Ev_txn (Inr ?ops))) w = (Inr r, w')" "msgEvent r = Ev_txn (Inr ?ops)"
      "local_link E s w'" "served (w_ipc w') = ?n\<lparr>n_store := st\<rparr>" "next_fresh j w'" by blast
    then have "Session_CompareAndSwap E s key expected val isAbsent w = (Inr True, w')"
      by (simp add: cas txn bind_sto_def wrap_sto_def try_sto_def)
    with w' st(1) True show ?thesis by auto
  next
    case False
    then obtain err' where e: "errors_is err' ErrCompareFailed" "\<And>m crc sig. msgEvent m = Ev_txn (Inr ?ops) \<Longrightarrow>
        Verify (wr (srv E)) (ed25519Pub ?n) m crc sig = Inr () \<Longrightarrow> handleShmEvent (srv E) m crc sig (localCaller ?n) ?n = (errorMsg (srv E) (msgId m) err', ?n)"
      using h by auto
    let ?ev = "Ev_error (Inr (err_text (srv E) err'))"
    have hd: "\<exists>resp g. handleShmEvent (srv E) m crc sig (localCaller ?n) ?n = (Inr resp, ?n) \<and> msgEvent resp = ?ev \<and> msgSignature resp = Inr g"
      if "msgEvent m = Ev_txn (Inr ?ops)" "Verify (wr (srv E)) (ed25519Pub ?n) m crc sig = Inr ()" for m crc sig
      using e(2) [OF that] by (simp add: err new_msg_def)
    from session_call_reply [OF assms(1,2) car(1) car(2) [OF e(1)] hd refl]
    obtain r w' where w': "session_call E s (new_msg (Ev_txn (Inr ?ops))) w = (Inr r, w')" "msgEvent r = ?ev"
      "local_link E s w'" "served (w_ipc w') = ?n" "next_fresh j w'" by blast
    then have "Session_CompareAndSwap E s key expected val isAbsent w = (Inr False, w')"
      using marked [OF e(1)] by (simp add: cas txn bind_sto_def wrap_sto_def try_sto_def errorText_def)
    with w' assms(4) False show ?thesis by auto
  qed
qed

subsection \<open>A concrete client\<close>

definition wire_for :: "event list \<Rightarrow> wire" where
  "wire_for evs = listed_wire [stamped ((new_msg ev)\<lparr>msgId := word_of_nat i\<rparr>). ev \<leftarrow> evs, i \<leftarrow> [0..<65536]]"

definition solo_client :: "event list \<Rightarrow> client_env" where
  "solo_client evs = \<lparr>srv = solo_env\<lparr>wr := wire_for evs, err_text := (\<lambda>_. CompareFailedMarker)\<rparr>, accessor = (\<lambda>_ _. Inr []), rounds = 9\<rparr>"

definition solo_session :: Session where
  "solo_session = \<lparr>s_peerID = [80], s_priv = replicate 64 8\<rparr>"

definition solo_world :: "table \<Rightarrow> world" where
  "solo_world t = \<lparr>w_rand = [Inr [0, 4], Inr [0, 5], Inr [0, 6]], w_rings = [], w_ipc = fresh_ipc (solo_node t)\<rparr>"

lemma solo_carries:
  assumes "ev \<in> set evs"
  shows "carries (solo_client evs) solo_session ev"
proof -
  have "stamped ((new_msg ev)\<lparr>msgId := i\<rparr>) \<in> set [stamped ((new_msg ev)\<lparr>msgId := word_of_nat i\<rparr>). ev \<leftarrow> evs, i \<leftarrow> [0..<65536]]" for i
  proof -
    have "i = word_of_nat (unat i)" "unat i < 65536" using unsigned_less [of i] by simp_all
    with assms show ?thesis by (auto intro!: bexI [of _ ev] image_eqI [of _ _ "unat i"])
  qed
  then show ?thesis using listed_Encode unfolding carries_def wire_for_def solo_client_def solo_session_def
    by (simp add: new_msg_def)
qed

lemma solo_linked:
  "local_link (solo_client evs) solo_session (solo_world t)" "commits (srv (solo_client evs))"
  "served (w_ipc (solo_world t)) = solo_node t"
proof -
  show "local_link (solo_client evs) solo_session (solo_world t)"
    using listed_lossless listed_keys by (simp add: local_link_def solo_client_def solo_session_def solo_world_def wire_for_def solo_node_def)
  show "commits (srv (solo_client evs))" by (simp add: commits_def solo_client_def solo_env_def)
  show "served (w_ipc (solo_world t)) = solo_node t" by (simp add: solo_world_def)
qed

lemma solo_fresh: "next_fresh (Suc (Suc (Suc 0))) (solo_world t)" "next_fresh (Suc (Suc 0)) (solo_world t)" "next_fresh (Suc 0) (solo_world t)"
  by (simp_all add: next_fresh_def solo_world_def Let_def)

subsection \<open>Properties\<close>

text \<open>
  C22. Through the client library, a value that was set on the leader is read back: \<^verbatim>\<open>Set\<close> returns no
  error, changes the table at that key alone, and the next \<^verbatim>\<open>Get\<close> on the session returns the value and
  changes nothing.
\<close>

theorem client_set_get:
  assumes "local_link E s w" "next_fresh 2 w" "commits (srv E)" "leads (served (w_ipc w)) c"
    and "rejectReservedKey k = Inr ()" "checkValueSize v = Inr ()" "length k + length v + 4 < 2 ^ 32"
    and "carries E s (Ev_set (Inr k) (Inr v))" "carries E s (Ev_getFieldByKey (Inr k) (Inr []))" "carries E s (Ev_getFieldByKey (Inr k) (Inr v))"
  shows "\<exists>w1 w2. Session_Set E s k v w = (Inr (), w1) \<and> leads (served (w_ipc w1)) (c(k \<mapsto> v)) \<and>
    Session_Get E s k w1 = (Inr v, w2) \<and> served (w_ipc w2) = served (w_ipc w1)"
proof -
  obtain w1 where w1: "Session_Set E s k v w = (Inr (), w1)" "leads (served (w_ipc w1)) (c(k \<mapsto> v))" "local_link E s w1" "next_fresh (Suc 0) w1"
    using Session_Set_leader [OF assms(1) _ assms(3-8), of "Suc 0"] assms(2) [unfolded numeral_2_eq_2] by auto
  moreover from w1(2) have "healthy (n_store (served (w_ipc w1)))" "contents (n_store (served (w_ipc w1))) k = Some v"
    by (simp_all add: leads_def)
  ultimately show ?thesis using Session_Get_healthy [OF w1(3,4) _ _ assms(9,10)] by blast
qed

theorem client_set_get_witness:
  "\<exists>w1 w2. let evs = [Ev_set (Inr [65]) (Inr [66]), Ev_getFieldByKey (Inr [65]) (Inr []), Ev_getFieldByKey (Inr [65]) (Inr [66])] in
    Session_Set (solo_client evs) solo_session [65] [66] (solo_world []) = (Inr (), w1) \<and>
    Session_Get (solo_client evs) solo_session [65] w1 = (Inr [66], w2)"
proof -
  let ?evs = "[Ev_set (Inr [65]) (Inr [66]), Ev_getFieldByKey (Inr [65]) (Inr []), Ev_getFieldByKey (Inr [65]) (Inr [66])]"
  have l: "leads (served (w_ipc (solo_world []))) Map.empty"
    by (simp add: leads_def solo_linked(3) solo_node_def healthy_def wf_store_def contents_def)
  have k: "rejectReservedKey [65] = Inr ()" "checkValueSize [66] = Inr ()"
    by (simp_all add: rejectReservedKey_def checkValueSize_def checkValueLen_def MaxValueSize_def)
  show ?thesis
    using client_set_get [OF solo_linked(1) solo_fresh(2) [folded numeral_2_eq_2] solo_linked(2) l k _ solo_carries solo_carries solo_carries, of ?evs]
    by (auto simp: Let_def)
qed



text \<open>
  C19. \<^verbatim>\<open>CompareAndSwap\<close> on the leader reports true exactly when the key held the expected value, or was absent
  where absence is asked for; then the key holds the new value and every other key what it held, and
  otherwise the table is unchanged. A lost race is the answer false, not an error.
\<close>

theorem client_compare_and_swap:
  assumes "local_link E s w" "next_fresh 1 w" "commits (srv E)" "leads (served (w_ipc w)) c"
    and "key \<noteq> []" "length key \<le> 0xFFFF" "length expected \<le> 0xFFFF" "length val \<le> 0xFFFF" "rejectReservedKey key = Inr ()"
    and "\<And>err. errors_is err ErrCompareFailed \<Longrightarrow> strings_Contains (err_text (srv E) err) CompareFailedMarker"
    and "carries E s (Ev_txn (Inr (cas_ops key expected val isAbsent)))"
    and "\<And>err. errors_is err ErrCompareFailed \<Longrightarrow> carries E s (Ev_error (Inr (err_text (srv E) err)))"
  shows "\<exists>w'. Session_CompareAndSwap E s key expected val isAbsent w = (Inr (if isAbsent then c key = None else c key = Some expected), w') \<and>
    leads (served (w_ipc w')) (if if isAbsent then c key = None else c key = Some expected then c(key \<mapsto> val) else c)"
  using Session_CompareAndSwap_leader [OF assms(1) assms(2) [unfolded One_nat_def] assms(3-12)] by blast

theorem client_compare_and_swap_witness:
  "\<exists>w w'. let evs = [Ev_txn (Inr (cas_ops [65] [1] [2] False)), Ev_txn (Inr (cas_ops [65] [3] [2] False)), Ev_error (Inr CompareFailedMarker)] in
    Session_CompareAndSwap (solo_client evs) solo_session [65] [1] [2] False (solo_world [([65], [1])]) = (Inr True, w) \<and>
    Session_CompareAndSwap (solo_client evs) solo_session [65] [3] [2] False (solo_world [([65], [1])]) = (Inr False, w')"
proof -
  let ?evs = "[Ev_txn (Inr (cas_ops [65] [1] [2] False)), Ev_txn (Inr (cas_ops [65] [3] [2] False)), Ev_error (Inr CompareFailedMarker)]"
  let ?E = "solo_client ?evs" and ?t = "[([65], [1])] :: table"
  have l: "leads (served (w_ipc (solo_world ?t))) [[65] \<mapsto> [1]]"
    by (simp add: leads_def solo_linked(3) solo_node_def healthy_def wf_store_def tbl_ok_def contents_def)
  have m: "strings_Contains (err_text (srv ?E) err) CompareFailedMarker" for err
    by (simp add: solo_client_def CompareFailedMarker_def str_def)
  have c: "carries ?E solo_session (Ev_error (Inr (err_text (srv ?E) err)))" for err
    by (rule solo_carries) (simp add: solo_client_def)
  have k: "[65 :: byte] \<noteq> []" "length [65 :: byte] \<le> 0xFFFF" "length [1 :: byte] \<le> 0xFFFF" "length [2 :: byte] \<le> 0xFFFF"
    "length [3 :: byte] \<le> 0xFFFF" "rejectReservedKey [65] = Inr ()" by (simp_all add: rejectReservedKey_def)
  note cas = client_compare_and_swap [OF solo_linked(1) solo_fresh(3) [folded One_nat_def] solo_linked(2) l k(1,2) _ k(4,6) m solo_carries c]
  show ?thesis using cas [OF k(3), where isAbsent = False] cas [OF k(5), where isAbsent = False] by (auto simp: Let_def)
qed



text \<open>
  A row whose key is empty, which \<^verbatim>\<open>Set\<close> accepts, reads as the end of the range: a scan from the start of
  the table finds nothing, whatever else the table holds.
\<close>

theorem empty_key_hides_scan:
  assumes "local_link E s w" "next_fresh 1 w" "healthy (n_store (served (w_ipc w)))" "kv (n_store (served (w_ipc w))) = ([], v) # rest"
    and "0 < rounds E" "\<And>ev. ev \<in> page_events [] stop (kv (n_store (served (w_ipc w)))) \<Longrightarrow> carries E s ev"
  shows "\<exists>w'. Session_ScanRange E s [] stop 0 0 [] w = (Inr [], w')"
proof -
  let ?t = "kv (n_store (served (w_ipc w)))"
  let ?rows = "filter (\<lambda>r. [] \<le> fst r \<and> fst r \<le> stop) ?t"
  have "page_events [] stop ?rows \<subseteq> page_events [] stop ?t" by (auto simp: page_events_def)
  then have c: "carries E s ev" if "ev \<in> page_events [] stop ?rows" for ev using assms(6) that by blast
  from Session_ListRange_healthy [where lo = "[]" and hi = stop, OF assms(1) assms(2) [unfolded One_nat_def] assms(3) refl c]
  obtain w' where "Session_ListRange E s [] stop w = (Inr None, w')" using assms(4) by auto
  with assms(5) show ?thesis by (cases "rounds E") (auto simp: Session_ScanRange_def bind_sto_def enoughPairs_def)
qed

end
