(* ===== verification/Spec2Isabelle.thy ===== *)
theory Spec2Isabelle
  imports Web_Learner Shm_Client
begin

text \<open>
  \<^bold>\<open>A verification library for gofsd/libp2p-kv-raft.\<close>

  \<^bold>\<open>The program.\<close> A node of the system keeps a key/value table in an SQLite file, replicated among
  the members of a cluster by Raft over libp2p. The table holds user keys, log records, and system
  records: the members of the cluster, groups, commands, who may run what, and invites. Clients
  and peers talk to a node in signed Cap'n Proto messages, one event each; the node checks who is
  asking, and turns writes into entries of the Raft log, which every replica applies to its table.
  Beside the table a node keeps a key registry, an inbox of notifications and a table of open
  channels to peers.

  \<^bold>\<open>The theories, from the table up.\<close>

  \<^item> \<^verbatim>\<open>KV_Prelude\<close>, \<^verbatim>\<open>KV_Text\<close>: bytes and their order, big-endian framing, Go error values, state
    computations with errors, and the parts of Go's standard library that the line protocols use.
    The locale \<open>codec\<close> states what an encoder/decoder pair promises; every payload format of the
    program interprets it.
  \<^item> \<^verbatim>\<open>KV_Store\<close> (src/pkg/store/store.go): the table as its rows in key order together with a
    schedule of disk faults, the SQL statements the code issues, transactions, snapshot streams. The
    locale \<open>accessor\<close> covers \<^verbatim>\<open>Store\<close> and \<^verbatim>\<open>Tx\<close>. Shown: the store implements a finite map, a
    prefix scan returns exactly the prefix's rows, a failed transaction changes nothing, a snapshot
    loads back as the same table and a truncated one is refused.
  \<^item> \<^verbatim>\<open>Shm_System\<close>, \<^verbatim>\<open>Shm_Catalog\<close>, \<^verbatim>\<open>Shm_Txn\<close>, \<^verbatim>\<open>Shm_Invite\<close> (src/pkg/shmevent): system keys, the
    catalog of groups, commands and stations with its relation keys (locale \<open>relation_key\<close>),
    transaction payloads, invites and command requests. Shown: round trips and unique readability.
  \<^item> \<^verbatim>\<open>Shm_Event\<close>, \<^verbatim>\<open>Shm_Sign\<close> (src/api/shmevent.capnp, src/pkg/shmevent/event.go, sign.go,
    channelframe.go): the event union, its wire numbers, the message constructors, CRC-32, signing, the
    envelope and channel frames. Shown: what is encoded decodes and verifies, and a changed
    byte of a frame is caught.
  \<^item> \<^verbatim>\<open>Log_Record\<close> (src/pkg/logrecord): keys of log records and the bounds that scan a stream.
  \<^item> \<^verbatim>\<open>FSM_Encoding\<close>, \<^verbatim>\<open>FSM_ACL\<close>, \<^verbatim>\<open>FSM_Cascade\<close>, \<^verbatim>\<open>FSM_Apply\<close>, \<^verbatim>\<open>FSM_Invariants\<close> (src/pkg/kvfsm): the
    framing of log entries, every operation of the state machine with its validation and access
    checks, cascading deletes, snapshot and restore, and what holds along a whole log (locale
    \<open>log_machine\<close>). Shown: an entry that reports an error changed nothing, transactions are atomic
    compare-and-swaps, group names stay unique and lists capped, an invite is redeemed at most once.
  \<^item> \<^verbatim>\<open>Daemon_State\<close> (src/pkg/daemon/channel.go, quota.go, execute.go, src/pkg/shmevent/registry.go):
    the in-memory state of a node. Its four bounded queues interpret the locale \<open>bounded_queue\<close>.
  \<^item> \<^verbatim>\<open>Daemon_Node\<close>, \<^verbatim>\<open>Daemon_Members\<close>, \<^verbatim>\<open>Daemon_ACL\<close>, \<^verbatim>\<open>Daemon_Dial\<close>, \<^verbatim>\<open>Daemon_Join\<close>, \<^verbatim>\<open>Daemon_Exec\<close>,
    \<^verbatim>\<open>Daemon_Channel\<close> (src/pkg/daemon): the write path and forwarding, membership, authorization,
    address selection and retries, joining and recruiting, command execution across nodes,
    channels. A node is the record \<open>node\<close>; an operation is a function from the node to a result
    or error and the node afterwards.
  \<^item> \<^verbatim>\<open>Daemon_Dispatch\<close> (src/pkg/daemon/daemon.go, \<^verbatim>\<open>handleShmEvent\<close>, \<^verbatim>\<open>handleClientStream\<close>): one
    definition per event, the refusals and the gate in front of them. Shown: what a caller
    without a vote, or without any standing, can change; that a refused request changes nothing;
    that replies match requests.
  \<^item> \<^verbatim>\<open>Ipc_Local\<close> (src/pkg/ipc/ipc.go): the request and response segments between a client and the node
    on its machine, the client's \<^verbatim>\<open>Call\<close>, the daemon's \<^verbatim>\<open>Serve\<close>, and a step relation of their
    interleavings. Shown: a call is handled at most once and returns the reply to its own request,
    unless it reuses the id of the call before it.
  \<^item> \<^verbatim>\<open>Shm_Client\<close> (src/pkg/shmclient): sessions and one definition per client method. Shown: what a
    session reports done was done; setting, reading, scanning and compare-and-swap mean on the
    leader what their names say.
  \<^item> \<^verbatim>\<open>Web_Learner\<close> (src/web-app/src/fsm.rs, sqlite_store.rs, learner.rs): the raft learner the browser runs, in
    Rust. Its database is the record \<open>webdb\<close>; the handlers of raft's requests, the application of committed
    entries and the snapshot decoder follow the code. \<open>web_step\<close> are the requests a cluster with raft's
    guarantees (\<open>raft_history\<close>) sends. Shown: the learner's table is the replay of the committed log, an
    append brings it up to date, it votes once a term under every fault, and on plain sets and
    deletes and on snapshots it agrees with the Go state machine.
  \<^item> This theory: properties of two nodes together, forwarding to the leader and reading a
    remote log, and reading back what was written.

  \<^bold>\<open>How state and effects correspond.\<close> A Go function with an error result is a sum (\<open>Inl\<close> the error);
  \<^verbatim>\<open>fmt.Errorf\<close> with \<^verbatim>\<open>%w\<close> is \<open>Wrap\<close>. Reads and writes of the table go through a schedule of faults, so
  that every statement may fail; a property without a hypothesis on faults holds for all of them.
  Machine integers are words where they may wrap; the learner's raft indices and terms, 64-bit in the code, are natural numbers. Code that is not in the repository's own packages
  enters as a field of the record \<open>env\<close> or \<open>wire\<close>: Raft's answer to an entry and to membership
  changes, the network, peer-id and address parsing, JSON, Cap'n Proto, Ed25519, the clock. What a property
  needs of them is a hypothesis on that field, as \<open>commits\<close> (Raft commits what it is given),
  \<open>lossless\<close> (Cap'n Proto reads back what it wrote) and \<open>key_pair\<close> (a signature verifies).

  \<^bold>\<open>Bounds and fuel.\<close> The paging of
  a remote log depends on the other side: it runs as long as the daemon's context lives, which is the field \<open>pages_left\<close>.
  \<open>remote_log_query\<close> shows that one page more than there are records is enough. A client's scan
  likewise pages as long as its context lives, the field \<open>rounds\<close>, and \<open>client_scan_range\<close> shows that one round
  trip more than there are rows is enough. Commands
  are bounded by the 32-bit length fields of the log entry format; the hypotheses that say so are
  far above the 8 MiB a message may carry.

  \<^bold>\<open>Not modelled.\<close> Raft itself, libp2p, SQLite, Cap'n Proto and the C library under src/thirdparty;
  process start-up, key files, TLS certificates and the construction of the libp2p host
  (src/pkg/daemon/host.go in part, src/pkg/tlscert, src/pkg/raft, src/pkg/rafttransport), which is
  configuration of those libraries; the shared-memory rings under the local transport and the
  channels' data plane (src/pkg/chandata); the browser's user interface, its catalog client and its MessagePack
  codec of raft messages (the rest of src/web-app); the command-line and mobile front ends and
  the end-to-end test drivers (src/cmd, src/mobile, src/android-app, src/pkg/kvctl,
  src/pkg/e2edata, src/pkg/e2erun, the mage files), which call the operations
  modelled here. Goroutine interleaving inside a node is modelled only where the code
  relies on it, as sequences of operations on the channel and session state. Timeouts appear as the error they end in.
\<close>

subsection \<open>Forwarding a write to the leader\<close>

text \<open>
  C12. Forwarding is transparent: a write handed to a follower is applied by the leader exactly as if
  it had been handed to the leader, the follower reports success, with the leader's log index, iff the
  leader does, and the follower's own table is left to replication.
\<close>

theorem forwarded_write_transparent:
  assumes "raft n = Follower l" "l \<noteq> []" "op \<in> {OpSet, OpAppendCommandRequest, OpTxn}" "length key + length val + 4 < 2 ^ 32"
    and "\<And>buf. dial e ForwardProtocolID l buf = Inr (fst (handleForwardSetStream e' buf led))"
    and "\<And>cmd i. commit e' cmd = Inr i \<Longrightarrow> i < 2 ^ 64"
  shows "snd (handleOpForward e op key val True n) = n \<and>
    snd (handleForwardSetStream e' (EncodeCommand op key val) led) = snd (handleOpForward e' op key val False led) \<and>
    (\<forall>i. fst (handleOpForward e op key val True n) = Inr i \<longleftrightarrow> fst (handleOpForward e' op key val False led) = Inr i)"
proof -
  obtain r led' where r: "handleOpForward e' op key val False led = (r, led')" by fastforce
  have d: "DecodeCommand (EncodeCommand op key val) = Inr (op, key, val)" using assms(4) by (simp add: DecodeCommand_def decodeCommand_Encode)
  have f: "handleOpForward e op key val True n =
      (decodeForwardResponse (fst (handleForwardSetStream e' (EncodeCommand op key val) led)), n)"
    using assms(1,2,5) by (simp add: handleOpForward_def forwardOp_def)
  have h: "handleForwardSetStream e' (EncodeCommand op key val) led =
      (case r of Inl err \<Rightarrow> writeForwardError e' err | Inr i \<Rightarrow> writeForwardSuccess i, led')"
    using assms(3) r by (auto simp: handleForwardSetStream_def d split: sum.splits)
  show ?thesis
  proof (cases r)
    case (Inl err)
    then show ?thesis using f h r by (simp add: writeForwardError_def decodeForwardResponse_def)
  next
    case (Inr i)
    then obtain cmd where "commit e' cmd = Inr i" using r
      by (auto simp: handleOpForward_def node_applyOp_def raft_Apply_def elim!: bind_sto_InrE split: if_splits prod.splits)
    then have "i < 2 ^ 64" by (rule assms(6))
    with Inr f h r show ?thesis by (simp add: writeForwardSuccess_def decodeForwardResponse_def slice_def codec_simps)
  qed
qed

theorem forwarded_write_transparent_witness:
  "\<exists>e. fst (handleOpForward e OpSet [65] [66] True ((solo_node [])\<lparr>raft := Follower [80]\<rparr>)) =
    fst (handleOpForward solo_env OpSet [65] [66] False (solo_node []))"
proof -
  let ?e = "solo_env\<lparr>dial := \<lambda>_ _ buf. Inr (fst (handleForwardSetStream solo_env buf (solo_node [])))\<rparr>"
  have "fst (handleOpForward ?e OpSet [65] [66] True ((solo_node [])\<lparr>raft := Follower [80]\<rparr>)) = Inr i \<longleftrightarrow>
    fst (handleOpForward solo_env OpSet [65] [66] False (solo_node [])) = Inr i" for i
    using forwarded_write_transparent [of "(solo_node [])\<lparr>raft := Follower [80]\<rparr>" "[80]" OpSet "[65]" "[66]" ?e solo_env "solo_node []"]
    by (simp add: solo_env_def)
  moreover have "\<exists>i. fst (handleOpForward solo_env OpSet [65] [66] False (solo_node [])) = Inr i"
  proof -
    have "leads (solo_node []) Map.empty" by (simp add: leads_def solo_node_def healthy_def wf_store_def contents_def)
    then have "\<exists>n'. handleSetForward solo_env [65] [66] False (solo_node []) = (Inr (), n')"
      using runs_set [OF solo_commits accepts_plain, of "[65]" "[66]" False Map.empty]
      by (auto simp: runs_def is_system_key_def)
    then show ?thesis
      by (auto simp: handleSetForward_def elim!: bind_sto_InrE)
  qed
  ultimately show ?thesis by metis
qed

subsection \<open>Reading back a write\<close>

text \<open>
  Read your writes: on the leader a set of a key outside the reserved namespaces is acknowledged,
  and a read of the key that follows it answers the value written.
\<close>

theorem set_then_get:
  assumes "commits e" "leads n c" "\<And>ev. \<not> isl (build (wr e) ev)" "remotePeer caller = []"
    and "msgEvent m = Ev_set (Inr k) (Inr v)" "Verify (wr e) (verifyPub caller) m crc sig = Inr ()"
    and "msgEvent m' = Ev_getFieldByKey (Inr k) x" "Verify (wr e) (verifyPub caller) m' crc' sig' = Inr ()"
    and "rejectReservedKey k = Inr ()" "length k + length v + 4 < 2 ^ 32"
  shows "\<exists>n'. handleShmEvent e m crc sig caller n = (Inr m, n') \<and> leads n' (c(k \<mapsto> v)) \<and>
    handleShmEvent e m' crc' sig' caller n' = (Inr (m'\<lparr>msgEvent := Ev_getFieldByKey (Inr k) (Inr v)\<rparr>), n')"
proof -
  obtain st where "handleShmEvent e m crc sig caller n = (Inr m, n\<lparr>n_store := st\<rparr>)" and l: "leads (n\<lparr>n_store := st\<rparr>) (c(k \<mapsto> v))"
    using handle_set_local [OF assms(1,2,4,6,5,9,10)] by blast
  moreover have "healthy (n_store (n\<lparr>n_store := st\<rparr>))" "contents (n_store (n\<lparr>n_store := st\<rparr>)) k = Some v"
    using l by (simp_all add: leads_def)
  ultimately show ?thesis using handle_get_local [OF _ assms(3,4,8,7)] by blast
qed

theorem set_then_get_witness:
  "\<exists>n'. handleShmEvent solo_env (new_msg (Ev_set (Inr [65]) (Inr [66]))) 0 (replicate 64 9) \<lparr>verifyPub = replicate 32 7, remotePeer = []\<rparr> (solo_node [])
      = (Inr (new_msg (Ev_set (Inr [65]) (Inr [66]))), n') \<and>
    handleShmEvent solo_env (new_msg (Ev_getFieldByKey (Inr [65]) (Inr []))) 0 (replicate 64 9) \<lparr>verifyPub = replicate 32 7, remotePeer = []\<rparr> n'
      = (Inr (new_msg (Ev_getFieldByKey (Inr [65]) (Inr [66]))), n')"
proof -
  have l: "leads (solo_node []) Map.empty" by (simp add: leads_def solo_node_def healthy_def wf_store_def contents_def)
  have v: "Verify (wr solo_env) (replicate 32 7) (new_msg ev) 0 (replicate 64 9) = Inr ()" for ev
    by (simp add: Verify_def signedPayload_def marshalWithCrcAndEmptySig_def solo_env_def new_msg_def)
  have b: "\<not> isl (build (wr solo_env) ev)" for ev by (simp add: solo_env_def)
  have m: "msgEvent (new_msg ev) = ev" "new_msg ev\<lparr>msgEvent := ev'\<rparr> = new_msg ev'" for ev ev' by (simp_all add: new_msg_def)
  have k: "rejectReservedKey [65] = Inr ()" by (simp add: rejectReservedKey_def)
  show ?thesis
    using set_then_get [OF solo_commits l b _ m(1) _ m(1) _ k, of "\<lparr>verifyPub = replicate 32 7, remotePeer = []\<rparr>"
        "[66]" 0 "replicate 64 9" "Inr []" 0 "replicate 64 9"] v
    by (auto simp: m)
qed

subsection \<open>Reading a remote log\<close>

text \<open>
  The node \<open>n\<close> reaches \<open>tn\<close> at \<open>target\<close>: a client stream is answered by the other node's handler, both
  use the same wire format, which loses nothing, and the stream carries the caller's key.
\<close>

definition linked :: "env \<Rightarrow> node \<Rightarrow> gostring \<Rightarrow> env \<Rightarrow> conn \<Rightarrow> node \<Rightarrow> bool" where
  "linked e n target e' s tn \<longleftrightarrow>
     (\<forall>buf. dial e ClientProtocolID target buf = Inr (fst (handleClientStream e' s buf tn))) \<and>
     wr e' = wr e \<and> lossless (wr e) \<and> (\<forall>ev. build (wr e) ev = Inr (new_msg ev)) \<and>
     (\<exists>pub. key_pair (wr e) (ed25519Priv n) pub \<and> connKey s = Some (Inr pub)) \<and>
     (\<exists>pub'. key_pair (wr e) (ed25519Priv tn) pub')"

abbreviation rows_between :: "table \<Rightarrow> bytes \<Rightarrow> bytes \<Rightarrow> table" where
  "rows_between t lo hi \<equiv> filter (\<lambda>r. lo \<le> fst r \<and> fst r \<le> hi) t"

abbreviation list_msg :: "bytes \<Rightarrow> bytes \<Rightarrow> bytes \<times> bytes \<Rightarrow> msg" where
  "list_msg lo hi r \<equiv> new_msg (Ev_listRange (Inr lo) (Inr hi) (Inr (fst r)) (Inr (snd r)))"

definition first_row :: "table \<Rightarrow> bytes \<times> bytes" where
  "first_row rs = (case rs of [] \<Rightarrow> ([], []) | r # _ \<Rightarrow> r)"

lemma exchange_listRange:
  assumes l: "linked e n target e' s tn" and tn: "healthy (n_store tn)"
    and pre: "prefix (KindPrefix CommandExecLogKind) lo" "prefix (KindPrefix CommandExecLogKind) hi"
    and r: "r = first_row (rows_between (kv (n_store tn)) lo hi)"
    and enc: "\<not> isl (Encode (wr e) (list_msg lo hi ([], [])) (Some (ed25519Priv n)))"
      "\<not> isl (Encode (wr e) (list_msg lo hi r) (Some (ed25519Priv tn)))"
  shows "\<exists>m. exchangeMsg e target (list_msg lo hi ([], [])) (ed25519Priv n) = Inr m \<and>
    msgEvent m = Ev_listRange (Inr lo) (Inr hi) (Inr (fst r)) (Inr (snd r))"
proof -
  let ?q = "list_msg lo hi ([], [])" and ?r = "list_msg lo hi r"
  obtain pub pub' where keys: "key_pair (wr e) (ed25519Priv n) pub" "connKey s = Some (Inr pub)" "key_pair (wr e) (ed25519Priv tn) pub'"
    and wire: "wr e' = wr e" "lossless (wr e)" "\<And>ev. \<not> isl (build (wr e') ev)"
    and net: "\<And>buf. dial e ClientProtocolID target buf = Inr (fst (handleClientStream e' s buf tn))"
    using l by (auto simp: linked_def)
  obtain buf rbuf where buf: "Encode (wr e) ?q (Some (ed25519Priv n)) = Inr buf"
    and rbuf: "Encode (wr e) ?r (Some (ed25519Priv tn)) = Inr rbuf" using enc by (metis sum.collapse(2))
  obtain crc sig where d: "Decode (wr e) buf = Inr (?q\<lparr>msgCrc32 := crc, msgSignature := Inr sig\<rparr>, crc, sig)"
    "Verify (wr e) pub (?q\<lparr>msgCrc32 := crc, msgSignature := Inr sig\<rparr>) crc sig = Inr ()"
    using Decode_Encode [OF wire(2) keys(1) buf] by blast
  let ?m = "?q\<lparr>msgCrc32 := crc, msgSignature := Inr sig\<rparr>" and ?a = "?r\<lparr>msgCrc32 := crc, msgSignature := Inr sig\<rparr>"
  have m: "msgEvent ?m = Ev_listRange (Inr lo) (Inr hi) (Inr []) (Inr [])" by (simp add: new_msg_def)
  have reply: "(case rows_between (kv (n_store tn)) lo hi of [] \<Rightarrow> ?m
      | r # _ \<Rightarrow> ?m\<lparr>msgEvent := Ev_listRange (Inr lo) (Inr hi) (Inr (fst r)) (Inr (snd r))\<rparr>) = ?a"
    by (cases "rows_between (kv (n_store tn)) lo hi") (simp_all add: r first_row_def new_msg_def)
  have a: "Encode (wr e') ?a (Some (ed25519Priv tn)) = Inr rbuf"
    unfolding wire(1) using rbuf by (subst Encode_resets [where x = "[]"]) (simp_all add: new_msg_def)
  have "handleClientStream e' s buf tn = (encodeReply e' tn (Inr ?a), tn)"
    using listRange_served [OF tn wire(3) keys(2) _ _ m pre, of buf crc sig] d unfolding reply wire(1) by blast
  then have "fst (handleClientStream e' s buf tn) = rbuf" by (simp add: encodeReply_def a)
  moreover obtain crc' sig' where "Decode (wr e) rbuf = Inr (?r\<lparr>msgCrc32 := crc', msgSignature := Inr sig'\<rparr>, crc', sig')"
    using Decode_Encode [OF wire(2) keys(3) rbuf] by blast
  ultimately have "exchangeMsg e target ?q (ed25519Priv n) = Inr (?r\<lparr>msgCrc32 := crc', msgSignature := Inr sig'\<rparr>)"
    using buf by (simp add: exchangeMsg_def net)
  then show ?thesis by (simp add: new_msg_def)
qed

text \<open>
  The pages a query visits start at its lower bound and after every row read; every query and every
  answer among them fits a message.
\<close>

definition page_starts :: "bytes \<Rightarrow> table \<Rightarrow> bytes set" where
  "page_starts lo rows = insert lo ((\<lambda>r. fst r @ [0]) ` set rows)"

definition pages_encode :: "wire \<Rightarrow> bytes \<Rightarrow> bytes \<Rightarrow> bytes \<Rightarrow> bytes \<Rightarrow> table \<Rightarrow> bool" where
  "pages_encode w priv priv' lo hi rows \<longleftrightarrow> (\<forall>start \<in> page_starts lo rows.
     \<not> isl (Encode w (list_msg start hi ([], [])) (Some priv)) \<and>
     (\<forall>r \<in> insert ([], []) (set rows). \<not> isl (Encode w (list_msg start hi r) (Some priv'))))"

lemma remote_page:
  assumes l: "linked e n target e' s tn" and tn: "healthy (n_store tn)"
    and b: "lo = KindPrefix CommandExecLogKind @ a" "hi = KindPrefix CommandExecLogKind @ b"
    and rows: "rows = rows_between (kv (n_store tn)) lo hi" and start: "start \<in> page_starts lo rows" "lo \<le> start"
    and enc: "pages_encode (wr e) (ed25519Priv n) (ed25519Priv tn) lo hi rows"
    and dec: "\<And>r. r \<in> set rows \<Longrightarrow> record_unjson e (snd r) = Inr (dec (snd r))"
  shows "queryPage e (ed25519Priv n) target start hi = (case rows_between (kv (n_store tn)) start hi of
      [] \<Rightarrow> Inr None | r # _ \<Rightarrow> Inr (Some (fst r, dec (snd r))))"
proof -
  let ?p = "KindPrefix CommandExecLogKind" and ?f = "rows_between (kv (n_store tn)) start hi"
  define r where "r = first_row ?f"
  have f: "set ?f \<subseteq> set rows" using start(2) by (auto simp: rows)
  have row: "prefix ?p (fst x)" if "x \<in> set rows" for x
    using that between_prefix [of ?p a "fst x" b] by (simp add: rows b)
  have pre: "prefix ?p start" "prefix ?p hi"
    using start(1) row by (auto simp: page_starts_def b prefix_append)
  have "r \<in> insert ([], []) (set rows)" using f by (cases ?f) (auto simp: r_def first_row_def)
  then obtain m where m: "exchangeMsg e target (list_msg start hi ([], [])) (ed25519Priv n) = Inr m"
    "msgEvent m = Ev_listRange (Inr start) (Inr hi) (Inr (fst r)) (Inr (snd r))"
    using exchange_listRange [OF l tn pre r_def] enc start(1) unfolding pages_encode_def by blast
  have q: "NewListRange (build (wr e)) start hi = Inr (list_msg start hi ([], []))"
    using l by (simp add: NewListRange_def linked_def)
  note page = queryPage_def q [unfolded fst_conv snd_conv] m(1) [unfolded fst_conv snd_conv]
  show ?thesis
  proof (cases ?f)
    case Nil
    then show ?thesis using m(2) by (simp add: page r_def first_row_def)
  next
    case (Cons x xs)
    then have "x \<in> set rows" using f by auto
    with row [of x] dec have "fst x \<noteq> []" "record_unjson e (snd x) = Inr (dec (snd x))" by (auto simp: KindPrefix_def)
    with Cons m(2) show ?thesis by (simp add: page r_def first_row_def)
  qed
qed

text \<open>
  C7. Asking another node for the log of a command instance returns exactly the records the other
  node holds for that instance in the time window, in key order and up to the limit, whatever the
  asking node's standing there: the instance id is the credential. It takes one page more than
  there are records.
\<close>

theorem remote_log_query:
  assumes resolve: "resolveDialAddr e addr n = (Inr (target, addrs), n)" "target \<noteq> peerID n" "connectWithRetry e target = Inr ()"
    and l: "linked e n target e' s tn" and tn: "healthy (n_store tn)" "wf_store (n_store tn)"
    and b: "ScanBounds CommandExecLogKind instanceID since until = (lo, hi)"
    and rows: "rows = rows_between (kv (n_store tn)) lo hi" "length rows < pages_left e"
    and enc: "pages_encode (wr e) (ed25519Priv n) (ed25519Priv tn) lo hi rows"
    and dec: "\<And>r. r \<in> set rows \<Longrightarrow> record_unjson e (snd r) = Inr (dec (snd r))"
  shows "dialAndQueryCommandLog e addr instanceID since until limit n =
    (Inr (map (\<lambda>r. dec (snd r)) (if limit \<le> 0 then rows else take (nat limit) rows)), n)"
proof -
  obtain a c where ac: "lo = KindPrefix CommandExecLogKind @ a" "hi = KindPrefix CommandExecLogKind @ c"
    using b by (auto simp: ScanBounds_def kindUnitPrefix_def KindPrefix_def Let_def)
  have "queryLoop (\<lambda>lo. queryPage e (ed25519Priv n) target lo hi) limit (pages_left e) lo [] =
      Inr ([] @ map (\<lambda>r. dec (snd r)) (let rs = rows_between (kv (n_store tn)) lo hi in
        if limit \<le> 0 then rs else take (nat limit - length ([] :: logRecord list)) rs))"
  proof (rule queryLoop_rows [where P = "\<lambda>start. start \<in> page_starts lo rows \<and> lo \<le> start"])
    fix start r assume "start \<in> page_starts lo rows \<and> lo \<le> start" "r \<in> set (kv (n_store tn))" "start \<le> fst r" "fst r \<le> hi"
    then have "r \<in> set rows" "lo \<le> fst r" by (auto simp: rows(1))
    moreover have "fst r < fst r @ [0]" using snoc_zero_le [of "fst r" "fst r @ [0]"] by simp
    ultimately show "fst r @ [0] \<in> page_starts lo rows \<and> lo \<le> fst r @ [0]" by (auto simp: page_starts_def)
  qed (use remote_page [OF l tn(1) ac rows(1) _ _ enc dec] tn(2) rows in \<open>auto simp: page_starts_def wf_store_def\<close>)
  with resolve b rows(1) show ?thesis
    by (simp add: dialAndQueryCommandLog_def bind_sto_def get_node_def Let_def)
qed

definition log_key :: bytes where
  "log_key = kindUnitPrefix CommandExecLogKind [65] @ be64 5 @ replicate 16 3"

definition log_node :: node where
  "log_node = solo_node [(log_key, [1])]"

definition log_record :: logRecord where
  "log_record = \<lparr>recKind = CommandExecLogKind, recUnitID = [65], recTimestamp = 5, recAuthor = [80], recFields = [], recNarrative = []\<rparr>"

definition log_msgs :: "msg list" where
  "log_msgs = (case ScanBounds CommandExecLogKind [65] 0 9 of (lo, hi) \<Rightarrow>
     [stamped (list_msg start hi r). start \<leftarrow> [lo, log_key @ [0]], r \<leftarrow> [([], []), (log_key, [1])]])"

definition log_env :: env where
  "log_env = solo_env\<lparr>wr := listed_wire log_msgs, record_unjson := \<lambda>_. Inr log_record, connect := \<lambda>_ _. Inr (),
     dial := \<lambda>_ _ buf. Inr (fst (handleClientStream (solo_env\<lparr>wr := listed_wire log_msgs\<rparr>) visitor buf log_node))\<rparr>"

theorem remote_log_query_witness:
  "dialAndQueryCommandLog log_env [47, 65] [65] 0 9 0 (solo_node []) = (Inr [log_record], solo_node [])"
proof -
  obtain lo hi where b: "ScanBounds CommandExecLogKind [65] 0 9 = (lo, hi)" by fastforce
  have r: "[(log_key, [1])] = rows_between (kv (n_store log_node)) lo hi"
    using b by (auto simp: log_node_def solo_node_def log_key_def ScanBounds_def Let_def nonNegativeUnixNano_def be64_def)
  have enc: "pages_encode (wr log_env) (ed25519Priv (solo_node [])) (ed25519Priv log_node) lo hi [(log_key, [1])]"
    by (auto simp: pages_encode_def page_starts_def log_env_def log_node_def solo_node_def log_msgs_def b new_msg_def listed_Encode)
  have l: "linked log_env (solo_node []) [47, 65] (solo_env\<lparr>wr := listed_wire log_msgs\<rparr>) visitor log_node"
    using listed_lossless listed_keys by (auto simp: linked_def log_env_def log_node_def solo_node_def visitor_def)
  have "IsMultiaddr [47, 65]" by code_simp
  then have d: "resolveDialAddr log_env [47, 65] (solo_node []) = (Inr ([47, 65], [[47, 65]]), solo_node [])"
    by (simp add: resolveDialAddr_def dialAddr_def log_env_def solo_env_def)
  have "connect log_env [47, 65] 0 = Inr ()" by (simp add: log_env_def)
  then have c: "connectWithRetry log_env [47, 65] = Inr ()"
    by (simp add: connectWithRetry_def connectRetryAttempts_def numeral_3_eq_3)
  have s: "healthy (n_store log_node)" "wf_store (n_store log_node)"
    by (simp_all add: log_node_def solo_node_def healthy_def wf_store_def tbl_ok_def)
  show ?thesis
    using remote_log_query [OF d _ c l s b r _ enc, of "\<lambda>_. log_record" 0]
    by (simp add: solo_node_def log_env_def solo_env_def)
qed

end
